(* ===== verification/Prelude.thy ===== *)
theory Prelude
  imports Complex_Main "HOL-Library.AList" "HOL-Library.Char_ord" "HOL-Library.List_Lexorder"
    "HOL-Library.Sublist" "HOL-Library.Word"
begin

section \<open>What the components share: Go's maps, times, durations and strings\<close>

text \<open>
  The Go values the sources use, and the lemmas every component needs about them.

  \<^item> A Go map is an association list with distinct keys (\<open>gokeys\<close>). The order of the list
    is the order in which one \<^verbatim>\<open>range\<close> loop visits the keys. Go leaves that order open, so a
    theorem that holds for every list holds for every visiting order, and a result that does not
    depend on the order is proved invariant under permutation of the list.
  \<^item> A \<^verbatim>\<open>time.Time\<close> is the number of nanoseconds since Go's zero time, so that
    \<^verbatim>\<open>t.IsZero()\<close> is \<open>t = 0\<close>. A \<^verbatim>\<open>time.Duration\<close> is a signed 64-bit count of
    nanoseconds; \<open>time_Sub\<close> saturates as \<^verbatim>\<open>Time.Sub\<close> does and \<open>wrap64\<close> is the
    wrap-around of 64-bit arithmetic.
  \<^item> A Go string is a list of bytes. \<^verbatim>\<open>strings.ToLower\<close> and \<^verbatim>\<open>strings.TrimSpace\<close> are
    modelled on ASCII text; other bytes are left as they are.
  \<^item> Go's \<^verbatim>\<open>int\<close> is \<^typ>\<open>int\<close>: the counters modelled here are incremented one event at a
    time and do not reach \<open>2 ^ 63\<close>.
\<close>

named_theorems gomap_simps \<open>lookup, keys and size after a map update\<close>
named_theorems time_simps \<open>comparisons of saturating time differences\<close>
named_theorems str_simps \<open>unfolding of the string functions\<close>

subsection \<open>Go maps\<close>

type_synonym ('k, 'v) gomap = "('k \<times> 'v) list"

abbreviation gget :: "('k, 'v) gomap \<Rightarrow> 'k \<Rightarrow> 'v option" where
  "gget m k \<equiv> map_of m k"

abbreviation gput :: "'k \<Rightarrow> 'v \<Rightarrow> ('k, 'v) gomap \<Rightarrow> ('k, 'v) gomap" where
  "gput \<equiv> AList.update"

abbreviation gdel :: "'k \<Rightarrow> ('k, 'v) gomap \<Rightarrow> ('k, 'v) gomap" where
  "gdel \<equiv> AList.delete"

abbreviation gokeys :: "('k, 'v) gomap \<Rightarrow> bool" where
  "gokeys m \<equiv> distinct (map fst m)"

text \<open>Writing through the pointer a map holds: \<^verbatim>\<open>if e, ok := m[k]; ok { e.field = ... }\<close>.\<close>

definition gmod :: "'k \<Rightarrow> ('v \<Rightarrow> 'v) \<Rightarrow> ('k, 'v) gomap \<Rightarrow> ('k, 'v) gomap" where
  "gmod k f m = (case gget m k of None \<Rightarrow> m | Some v \<Rightarrow> gput k (f v) m)"

lemma gget_gput [simp, gomap_simps]: "gget (gput k v m) k' = (if k' = k then Some v else gget m k')"
  by (simp add: update_conv')

lemma gget_gdel [gomap_simps]: "gget (gdel k m) k' = (if k' = k then None else gget m k')"
  by (simp add: delete_conv')

lemma gget_gmod [simp, gomap_simps]:
  "gget (gmod k f m) k' = (if k' = k then map_option f (gget m k) else gget m k')"
  by (auto simp: gmod_def split: option.splits)

lemma gokeys_gput [simp, intro]: "gokeys m \<Longrightarrow> gokeys (gput k v m)"
  by (rule distinct_update)

lemma gokeys_gdel [simp, intro]: "gokeys m \<Longrightarrow> gokeys (gdel k m)"
  by (rule distinct_delete)

lemma gokeys_gmod [simp, intro]: "gokeys m \<Longrightarrow> gokeys (gmod k f m)"
  by (simp add: gmod_def split: option.split)

lemma gokeys_filter [simp, intro]: "gokeys m \<Longrightarrow> gokeys (filter P m)"
  by (simp add: distinct_map_filter)

lemma keys_gput [gomap_simps]: "fst ` set (gput k v m) = insert k (fst ` set m)"
  by (simp add: dom_update)

lemma keys_gdel [gomap_simps]: "fst ` set (gdel k m) = fst ` set m - {k}"
  by (auto simp: AList.delete_eq image_iff)

lemma keys_gmod [simp, gomap_simps]: "fst ` set (gmod k f m) = fst ` set m"
  by (auto simp: gmod_def keys_gput split: option.splits dest: map_of_SomeD intro: rev_image_eqI)

lemma set_gput: "set (gput k v m) \<subseteq> insert (k, v) (set m)"
  by (induction m) auto

lemma set_gdel: "set (gdel k m) \<subseteq> set m"
  by (auto simp: AList.delete_eq)

lemma gget_in_keys: "gget m k \<noteq> None \<longleftrightarrow> k \<in> fst ` set m"
  by (force simp: map_of_eq_None_iff)

lemma length_keys: "gokeys m \<Longrightarrow> length m = card (fst ` set m)"
  by (metis distinct_card length_map list.set_map)

lemma length_gput:
  "length (gput k v m) = (if k \<in> fst ` set m then length m else Suc (length m))"
  by (induction m) auto

lemma length_gdel_less: "k \<in> fst ` set m \<Longrightarrow> length (gdel k m) < length m"
  by (auto simp: AList.delete_eq intro!: length_filter_less)

lemma length_gdel: "gokeys m \<Longrightarrow> k \<in> fst ` set m \<Longrightarrow> Suc (length (gdel k m)) = length m"
  by (simp add: length_keys keys_gdel card_Diff_singleton card_gt_0_iff) (metis Suc_pred card_gt_0_iff empty_iff finite_imageI finite_set)

lemma length_gmod [simp, gomap_simps]: "length (gmod k f m) = length m"
proof (cases "gget m k")
  case (Some v)
  then have "k \<in> fst ` set m" using gget_in_keys[of m k] by simp
  with Some show ?thesis by (simp add: gmod_def length_gput)
qed (simp add: gmod_def)

lemma gget_filter_Some:
  "gokeys m \<Longrightarrow> gget m k = Some v \<Longrightarrow> P (k, v) \<Longrightarrow> gget (filter P m) k = Some v"
  by (simp add: map_of_filter_in)

lemma gget_filterD: "gokeys m \<Longrightarrow> gget (filter P m) k = Some v \<Longrightarrow> gget m k = Some v \<and> P (k, v)"
  by (simp add: map_of_eq_Some_iff)

subsection \<open>The selection loops\<close>

text \<open>
  Several caches pick a victim or a best candidate with one \<^verbatim>\<open>range\<close> loop that keeps the
  better of the current element and the best one so far.
\<close>

fun scan_best :: "('a \<Rightarrow> 'a \<Rightarrow> bool) \<Rightarrow> 'a option \<Rightarrow> 'a list \<Rightarrow> 'a option" where
  "scan_best better best [] = best"
| "scan_best better best (x # xs) =
     scan_best better
       (case best of None \<Rightarrow> Some x | Some b \<Rightarrow> if better x b then Some x else Some b) xs"

lemma scan_best_None [simp]: "scan_best better best xs = None \<longleftrightarrow> best = None \<and> xs = []"
  by (induction xs arbitrary: best) (auto split: option.splits)

lemma scan_best_mem: "scan_best better best xs = Some b \<Longrightarrow> best = Some b \<or> b \<in> set xs"
proof (induction xs arbitrary: best)
  case (Cons x xs)
  then show ?case by (cases best) (auto split: if_splits)
qed simp

lemma scan_best_pair:
  assumes "xs \<noteq> []" shows "\<exists>k v. scan_best better None xs = Some (k, v) \<and> (k, v) \<in> set xs"
proof -
  obtain b where "scan_best better None xs = Some b" using assms scan_best_None[of better None xs] by blast
  then show ?thesis using scan_best_mem[of better None xs b] by (cases b) simp
qed

text \<open>
  A comparison such a loop may use: strict, and transitive through ties (a strict weak order). No
  element of the map is then better than the one the loop returns; and where it also decides
  between any two elements of the map, the loop returns the same element whatever the order in
  which the map is visited.
\<close>

locale preference =
  fixes better :: "'a \<Rightarrow> 'a \<Rightarrow> bool"
  assumes asym: "better x y \<Longrightarrow> \<not> better y x"
    and weak: "better x z \<Longrightarrow> better x y \<or> better y z"
begin

lemma scan_optimal:
  assumes "scan_best better best xs = Some b" "x \<in> set xs \<or> best = Some x"
  shows "\<not> better x b"
  using assms
proof (induction xs arbitrary: best x)
  case Nil
  then show ?case using asym by auto
next
  case (Cons y ys)
  let ?best' = "case best of None \<Rightarrow> Some y | Some b \<Rightarrow> if better y b then Some y else Some b"
  have step: "scan_best better ?best' ys = Some b" using Cons.prems(1) by simp
  have "?best' \<noteq> None" by (simp split: option.split)
  then obtain b' where b': "?best' = Some b'" by blast
  have nb: "\<not> better b' b" using Cons.IH[OF step] b' by simp
  have no_better: "\<not> better z b" if "\<not> better z b'" for z
    using that nb weak by blast
  have "\<not> better y b'"
    using b' asym by (auto split: option.splits if_splits)
  moreover have "\<not> better c b'" if "best = Some c" for c
    using b' asym that by (auto split: if_splits)
  ultimately show ?case
    using Cons.prems(2) Cons.IH[OF step] no_better by auto
qed

lemma scan_order_free:
  assumes total: "\<And>x y. x \<in> set xs \<Longrightarrow> y \<in> set xs \<Longrightarrow> x \<noteq> y \<Longrightarrow> better x y \<or> better y x"
    and same: "set ys = set xs"
  shows "scan_best better None ys = scan_best better None xs"
proof (cases "scan_best better None xs")
  case None
  then show ?thesis using same by simp
next
  case (Some b)
  then have b: "b \<in> set xs" using scan_best_mem by fastforce
  then have "ys \<noteq> []" using same by auto
  then obtain b' where b': "scan_best better None ys = Some b'"
    using scan_best_None[of better None ys] by blast
  then have "b' \<in> set xs" using scan_best_mem same by fastforce
  then have "\<not> better b' b" "\<not> better b b'"
    using scan_optimal[OF Some] scan_optimal[OF b'] b same by blast+
  then have "b' = b" using total b \<open>b' \<in> set xs\<close> by blast
  then show ?thesis using Some b' by simp
qed

end

subsection \<open>Loops that update a state\<close>

lemma foldl_invariant:
  "I a \<Longrightarrow> (\<And>a x. x \<in> set xs \<Longrightarrow> I a \<Longrightarrow> I (f a x)) \<Longrightarrow> I (foldl f a xs)"
  by (induction xs arbitrary: a) auto

subsection \<open>Times and durations\<close>

type_synonym gotime = int
type_synonym duration = int

definition maxDuration :: duration where "maxDuration = 2 ^ 63 - 1"
definition minDuration :: duration where "minDuration = - (2 ^ 63)"

definition wrap64 :: "int \<Rightarrow> int" where
  "wrap64 x = (x + 2 ^ 63) mod 2 ^ 64 - 2 ^ 63"

definition time_Sub :: "gotime \<Rightarrow> gotime \<Rightarrow> duration" where
  "time_Sub t u = max minDuration (min maxDuration (t - u))"

abbreviation (input) IsZero :: "gotime \<Rightarrow> bool" where
  "IsZero t \<equiv> t = 0"

definition Second :: duration where "Second = 1000000000"
definition Minute :: duration where "Minute = 60 * Second"
definition Hour :: duration where "Hour = 60 * Minute"

lemmas dur_defs = Second_def Minute_def Hour_def maxDuration_def minDuration_def

lemma time_Sub_gt [time_simps]:
  "0 \<le> d \<Longrightarrow> d < maxDuration \<Longrightarrow> d < time_Sub t u \<longleftrightarrow> d < t - u"
  by (auto simp: time_Sub_def dur_defs)

lemma time_Sub_le [time_simps]:
  "0 \<le> d \<Longrightarrow> d < maxDuration \<Longrightarrow> time_Sub t u \<le> d \<longleftrightarrow> t - u \<le> d"
  by (auto simp: time_Sub_def dur_defs)

lemma time_Sub_less [time_simps]:
  "0 \<le> d \<Longrightarrow> d \<le> maxDuration \<Longrightarrow> time_Sub t u < d \<longleftrightarrow> t - u < d"
  by (auto simp: time_Sub_def dur_defs)

lemma time_Sub_ge [time_simps]:
  "0 \<le> d \<Longrightarrow> d \<le> maxDuration \<Longrightarrow> d \<le> time_Sub t u \<longleftrightarrow> d \<le> t - u"
  by (auto simp: time_Sub_def dur_defs)

lemma time_Sub_gtD: "0 \<le> d \<Longrightarrow> d < time_Sub t u \<Longrightarrow> d < t - u"
  by (auto simp: time_Sub_def dur_defs)

lemma wrap64_id: "minDuration \<le> x \<Longrightarrow> x \<le> maxDuration \<Longrightarrow> wrap64 x = x"
  by (simp add: wrap64_def dur_defs)

lemma wrap64_range: "minDuration \<le> wrap64 x \<and> wrap64 x \<le> maxDuration"
proof -
  have "0 \<le> (x + 2 ^ 63) mod 2 ^ 64" and "(x + 2 ^ 63) mod 2 ^ 64 < (2::int) ^ 64" by simp_all
  then show ?thesis by (simp add: wrap64_def dur_defs)
qed

subsection \<open>Strings\<close>

text \<open>\<^verbatim>\<open>strings.Index\<close>, with \<^const>\<open>None\<close> for \<open>-1\<close>.\<close>

fun strings_Index :: "string \<Rightarrow> string \<Rightarrow> nat option" where
  "strings_Index [] sub = (if sub = [] then Some 0 else None)"
| "strings_Index (c # cs) sub =
     (if prefix sub (c # cs) then Some 0 else map_option Suc (strings_Index cs sub))"

definition strings_Contains :: "string \<Rightarrow> string \<Rightarrow> bool" where
  "strings_Contains s sub = (strings_Index s sub \<noteq> None)"

fun strings_IndexByte :: "string \<Rightarrow> char \<Rightarrow> nat option" where
  "strings_IndexByte [] c = None"
| "strings_IndexByte (d # ds) c =
     (if d = c then Some 0 else map_option Suc (strings_IndexByte ds c))"

text \<open>\<^verbatim>\<open>strings.LastIndexByte\<close>, with Go's \<open>-1\<close> when the byte is absent.\<close>

definition strings_LastIndexByte :: "string \<Rightarrow> char \<Rightarrow> int" where
  "strings_LastIndexByte s c =
     (case strings_IndexByte (rev s) c of
        None \<Rightarrow> -1 | Some i \<Rightarrow> int (length s) - 1 - int i)"

definition is_space :: "char \<Rightarrow> bool" where
  "is_space c = (c \<in> {CHR '' '', CHR 0x09, CHR 0x0A, CHR 0x0B, CHR 0x0C, CHR 0x0D})"

definition strings_TrimSpace :: "string \<Rightarrow> string" where
  "strings_TrimSpace s = rev (dropWhile is_space (rev (dropWhile is_space s)))"

definition lower_char :: "char \<Rightarrow> char" where
  "lower_char c =
     (let n = (of_char c :: nat) in if 65 \<le> n \<and> n \<le> 90 then char_of (n + 32) else c)"

definition strings_ToLower :: "string \<Rightarrow> string" where
  "strings_ToLower s = map lower_char s"

definition upper_char :: "char \<Rightarrow> char" where
  "upper_char c =
     (let n = (of_char c :: nat) in if 97 \<le> n \<and> n \<le> 122 then char_of (n - 32) else c)"

definition strings_ToUpper :: "string \<Rightarrow> string" where
  "strings_ToUpper s = map upper_char s"

definition strings_HasPrefix :: "string \<Rightarrow> string \<Rightarrow> bool" where
  "strings_HasPrefix s p = prefix p s"

definition strings_TrimPrefix :: "string \<Rightarrow> string \<Rightarrow> string" where
  "strings_TrimPrefix s p = (if prefix p s then drop (length p) s else s)"

text \<open>
  \<^verbatim>\<open>strings.ReplaceAll\<close> for a non-empty pattern: left to right, without overlaps. The sources
  never call it with an empty one; the model leaves the string alone there.
\<close>

function strings_ReplaceAll :: "string \<Rightarrow> string \<Rightarrow> string \<Rightarrow> string" where
  "strings_ReplaceAll s old new =
     (if old = [] \<or> s = [] then s
      else if prefix old s then new @ strings_ReplaceAll (drop (length old) s) old new
      else hd s # strings_ReplaceAll (tl s) old new)"
  by pat_completeness auto
termination
  by (relation "measure (\<lambda>(s, old, new). length s)") auto

declare strings_ReplaceAll.simps [simp del]

text \<open>\<^verbatim>\<open>strings.Split(s, sep)\<close> and \<^verbatim>\<open>strings.Cut(s, sep)\<close> for a one-byte separator.\<close>

fun strings_SplitByte :: "string \<Rightarrow> char \<Rightarrow> string list" where
  "strings_SplitByte [] sep = [[]]"
| "strings_SplitByte (c # cs) sep =
     (if c = sep then [] # strings_SplitByte cs sep
      else (case strings_SplitByte cs sep of
              [] \<Rightarrow> [[c]] | w # ws \<Rightarrow> (c # w) # ws))"

definition strings_CutByte :: "string \<Rightarrow> char \<Rightarrow> string \<times> string \<times> bool" where
  "strings_CutByte s sep =
     (case strings_IndexByte s sep of
        None \<Rightarrow> (s, [], False) | Some i \<Rightarrow> (take i s, drop (Suc i) s, True))"

text \<open>\<^verbatim>\<open>strings.Join\<close> and \<^verbatim>\<open>strconv.Itoa\<close>.\<close>

fun strings_Join :: "string list \<Rightarrow> string \<Rightarrow> string" where
  "strings_Join [] sep = []"
| "strings_Join [x] sep = x"
| "strings_Join (x # y # ys) sep = x @ sep @ strings_Join (y # ys) sep"

fun decimal :: "nat \<Rightarrow> string" where
  "decimal n = (if n < 10 then [char_of (48 + n)] else decimal (n div 10) @ [char_of (48 + n mod 10)])"

declare decimal.simps [simp del]

definition strconv_Itoa :: "int \<Rightarrow> string" where
  "strconv_Itoa n = (if n < 0 then CHR ''-'' # decimal (nat (- n)) else decimal (nat n))"

lemmas [str_simps] = strings_Contains_def strings_LastIndexByte_def is_space_def
  strings_TrimSpace_def strings_ToLower_def lower_char_def strings_HasPrefix_def
  strings_TrimPrefix_def strings_CutByte_def

lemma strings_Index_Some:
  "strings_Index s sub = Some i \<Longrightarrow> \<exists>post. s = take i s @ sub @ post"
proof (induction s sub arbitrary: i rule: strings_Index.induct)
  case (2 c cs sub)
  then show ?case
    by (cases "prefix sub (c # cs)") (auto simp: prefix_def)
qed (auto split: if_splits)

lemma strings_Index_append: "strings_Index (pre @ sub @ post) sub \<noteq> None"
proof (induction pre)
  case Nil
  have "prefix sub (sub @ post)" by simp
  then show ?case by (cases "sub @ post") (simp_all del: prefixI)
qed auto

text \<open>The executable search finds exactly the substrings.\<close>

lemma strings_Contains_iff: "strings_Contains s sub \<longleftrightarrow> (\<exists>pre post. s = pre @ sub @ post)"
  unfolding strings_Contains_def
  by (metis not_Some_eq strings_Index_Some strings_Index_append)

lemma strings_IndexByte_None: "strings_IndexByte s c = None \<longleftrightarrow> c \<notin> set s"
  by (induction s) auto

lemma strings_IndexByte_Some:
  "strings_IndexByte s c = Some i \<longleftrightarrow> i < length s \<and> s ! i = c \<and> c \<notin> set (take i s)"
proof (induction s arbitrary: i)
  case (Cons d ds)
  then show ?case by (cases i) auto
qed simp

lemma strings_IndexByte_append:
  "c \<notin> set a \<Longrightarrow> strings_IndexByte (a @ c # b) c = Some (length a)"
  by (induction a) auto

lemma strings_SplitByte_ne [simp]: "strings_SplitByte s sep \<noteq> []"
  by (induction s) (auto split: list.splits)

lemma strings_SplitByte_append:
  "sep \<notin> set a \<Longrightarrow> strings_SplitByte (a @ sep # b) sep = a # strings_SplitByte b sep"
  by (induction a) auto

lemma strings_SplitByte_single: "sep \<notin> set a \<Longrightarrow> strings_SplitByte a sep = [a]"
  by (induction a) auto

subsection \<open>Stores with a capacity\<close>

text \<open>
  The caches of the engine share one discipline: make room with an eviction step, then store.
  \<open>make_room\<close> may only drop keys, must keep keys distinct and must leave a free slot in a store
  that is no fuller than its positive capacity.
\<close>

locale bounded_store =
  fixes cap :: nat
    and make_room :: "('k, 'v) gomap \<Rightarrow> ('k, 'v) gomap"
  assumes room_keys: "fst ` set (make_room m) \<subseteq> fst ` set m"
    and room_gokeys: "gokeys m \<Longrightarrow> gokeys (make_room m)"
    and room_free: "0 < cap \<Longrightarrow> gokeys m \<Longrightarrow> length m \<le> cap \<Longrightarrow> length (make_room m) < cap"
begin

lemma store_bounded:
  "0 < cap \<Longrightarrow> gokeys m \<Longrightarrow> length m \<le> cap \<Longrightarrow> length (gput k v (make_room m)) \<le> cap"
  using room_free[of m] by (auto simp: length_gput)

lemma store_gokeys: "gokeys m \<Longrightarrow> gokeys (gput k v (make_room m))"
  by (simp add: room_gokeys)

lemma store_keys: "fst ` set (gput k v (make_room m)) \<subseteq> insert k (fst ` set m)"
  using room_keys[of m] by (auto simp: keys_gput)

lemma store_get: "gget (gput k v (make_room m)) k = Some v"
  by simp

end

end
