(* ===== verification/Sha256.thy ===== *)
theory Sha256
  imports Prelude
begin

section \<open>SHA-256 and FNV-1a, the two hashes of the standard library the engine calls\<close>

text \<open>
  The engine hashes with \<^verbatim>\<open>crypto/sha256\<close> (fingerprints) and \<^verbatim>\<open>hash/fnv\<close> (repeat classes).
  Both are written out here from their published definitions, on words of the right width, so
  that the definitions that use them are executable. \<open>hex_bytes\<close> is \<^verbatim>\<open>hex.EncodeToString\<close>
  and \<open>format_hex\<close> is \<^verbatim>\<open>strconv.FormatUint(x, 16)\<close>.
\<close>

unbundle bit_operations_syntax

definition rotr32 :: "nat \<Rightarrow> 32 word \<Rightarrow> 32 word" where
  "rotr32 n w = (drop_bit n w OR push_bit (32 - n) w)"

text \<open>
  The constants: the first 32 bits of the fractional parts of the cube roots of the first 64
  primes, and of the square roots of the first eight. \<open>greatest p n 0\<close> is the greatest number
  below \<open>2 ^ n\<close> that satisfies the downward closed predicate \<open>p\<close>.
\<close>

fun greatest :: "(int \<Rightarrow> bool) \<Rightarrow> nat \<Rightarrow> int \<Rightarrow> int" where
  "greatest p 0 acc = acc"
| "greatest p (Suc n) acc = greatest p n (if p (acc + 2 ^ n) then acc + 2 ^ n else acc)"

definition sha_primes :: "int list" where
  "sha_primes = filter (\<lambda>x. \<forall>d \<in> set [2 .. x - 1]. x mod d \<noteq> 0) [2 .. 311]"

definition sha_k :: "32 word list" where
  "sha_k = map (\<lambda>x. word_of_int (greatest (\<lambda>r. r ^ 3 \<le> x * 2 ^ 96) 36 0)) sha_primes"

definition sha_h0 :: "32 word list" where
  "sha_h0 = map (\<lambda>x. word_of_int (greatest (\<lambda>r. r ^ 2 \<le> x * 2 ^ 64) 36 0)) (take 8 sha_primes)"

type_synonym byte = "8 word"

definition byte_of :: "char \<Rightarrow> byte" where "byte_of c = of_char c"

text \<open>Padding: the byte \<open>0x80\<close>, zeros up to 56 modulo 64, the bit length in 8 bytes.\<close>

definition sha_pad :: "byte list \<Rightarrow> byte list" where
  "sha_pad bs =
     (let n = length bs; len = of_nat n * 8 :: 64 word
      in bs @ [128] @ replicate ((119 - n mod 64) mod 64) 0
           @ map (\<lambda>i. ucast (drop_bit (8 * (7 - i)) len)) [0..<8])"

fun words_of_bytes :: "byte list \<Rightarrow> 32 word list" where
  "words_of_bytes (a # b # c # d # rest) =
     (push_bit 24 (ucast a) OR push_bit 16 (ucast b) OR push_bit 8 (ucast c) OR ucast d)
       # words_of_bytes rest"
| "words_of_bytes _ = []"

text \<open>The message schedule, kept as the last 16 words in order.\<close>

definition next_w :: "32 word list \<Rightarrow> 32 word" where
  "next_w w =
     (let a = w ! 1; b = w ! 14;
          s0 = rotr32 7 a XOR rotr32 18 a XOR drop_bit 3 a;
          s1 = rotr32 17 b XOR rotr32 19 b XOR drop_bit 10 b
      in w ! 0 + s0 + w ! 9 + s1)"

fun sha_schedule :: "nat \<Rightarrow> 32 word list \<Rightarrow> 32 word list" where
  "sha_schedule 0 w = w"
| "sha_schedule (Suc n) w = hd w # sha_schedule n (tl w @ [next_w w])"

fun sha_round :: "32 word list \<Rightarrow> 32 word \<times> 32 word \<Rightarrow> 32 word list" where
  "sha_round [a, b, c, d, e, f, g, h] (k, w) =
     (let s1 = rotr32 6 e XOR rotr32 11 e XOR rotr32 25 e;
          ch = (e AND f) XOR (NOT e AND g);
          t1 = h + s1 + ch + k + w;
          s0 = rotr32 2 a XOR rotr32 13 a XOR rotr32 22 a;
          maj = (a AND b) XOR (a AND c) XOR (b AND c)
      in [t1 + (s0 + maj), a, b, c, d + t1, e, f, g])"
| "sha_round st kw = st"

definition sha_block :: "32 word list \<Rightarrow> 32 word list \<Rightarrow> 32 word list" where
  "sha_block st blk =
     map2 (+) st (foldl sha_round st (zip sha_k (sha_schedule 48 blk)))"

fun sha_blocks :: "nat \<Rightarrow> 32 word list \<Rightarrow> 32 word list \<Rightarrow> 32 word list" where
  "sha_blocks 0 st ws = st"
| "sha_blocks (Suc n) st ws = sha_blocks n (sha_block st (take 16 ws)) (drop 16 ws)"

definition bytes_of_word :: "32 word \<Rightarrow> byte list" where
  "bytes_of_word w = map (\<lambda>i. ucast (drop_bit (8 * (3 - i)) w)) [0..<4]"

definition sha256 :: "string \<Rightarrow> byte list" where
  "sha256 s =
     (let ws = words_of_bytes (sha_pad (map byte_of s))
      in concat (map bytes_of_word (sha_blocks (length ws div 16) sha_h0 ws)))"

definition hex_digits :: string where "hex_digits = ''0123456789abcdef''"

definition hex_digit :: "'a::len word \<Rightarrow> char" where
  "hex_digit w = hex_digits ! unat (w AND 15)"

definition hex_bytes :: "byte list \<Rightarrow> string" where
  "hex_bytes bs = concat (map (\<lambda>b. [hex_digit (drop_bit 4 b), hex_digit b]) bs)"

text \<open>64-bit FNV-1a, one byte at a time, and its lower-case hexadecimal form.\<close>

definition fnv64a :: "string \<Rightarrow> 64 word" where
  "fnv64a s =
     foldl (\<lambda>h c. (h XOR ucast (byte_of c)) * 0x100000001b3) 0xcbf29ce484222325 s"

definition format_hex :: "64 word \<Rightarrow> string" where
  "format_hex w =
     (case dropWhile (\<lambda>d. d = CHR ''0'')
             (map (\<lambda>i. hex_digit (drop_bit (4 * (15 - i)) w)) [0..<16]) of
        [] \<Rightarrow> ''0'' | ds \<Rightarrow> ds)"

end
