(* ===== verification/Signal.thy ===== *)
theory Signal
  imports Sha256
begin

section \<open>Signals, reason families, fingerprints and severity routing\<close>

text \<open>
  The data every stage of the watch path carries (\<^verbatim>\<open>pkg/engine/event.go\<close>,
  \<^verbatim>\<open>signal.go\<close>, \<^verbatim>\<open>quotadraft.go\<close> and the records of \<^verbatim>\<open>recovery.go\<close>), the reason
  canonicalisation of \<^verbatim>\<open>dedup.go\<close>, the fingerprints of \<^verbatim>\<open>fingerprint.go\<close> and the routing
  policy of \<^verbatim>\<open>routing.go\<close>. A struct is a record whose fields carry a short prefix, since Go
  reuses field names between structs; the embedding of \<^verbatim>\<open>TriageEvent\<close> in \<^verbatim>\<open>Signal\<close> is record
  extension. Go's string-typed enumerations (\<^verbatim>\<open>Severity\<close>, \<^verbatim>\<open>Resolution\<close>, kinds) stay strings:
  any string can reach the code.
\<close>

subsection \<open>The records\<close>

record EventKey =
  ek_UID :: string
  ek_Reason :: string

record TriageEvent =
  te_Key :: EventKey
  te_Namespace :: string
  te_KindOfObject :: string
  te_Name :: string
  te_Container :: string
  te_Message :: string
  te_FirstSeen :: gotime
  te_LastSeen :: gotime
  te_ControllerRef :: string
  te_Node :: string
  te_Labels :: "(string, string) gomap"
  te_Count :: int
  te_Type :: string

type_synonym Severity = string

definition SeverityCritical :: Severity where "SeverityCritical = ''critical''"
definition SeverityWarning :: Severity where "SeverityWarning = ''warning''"
definition SeverityInfo :: Severity where "SeverityInfo = ''info''"

definition Valid :: "Severity \<Rightarrow> bool" where
  "Valid s = (s \<in> {SeverityCritical, SeverityWarning, SeverityInfo})"

lemmas severity_defs = SeverityCritical_def SeverityWarning_def SeverityInfo_def

record Forecast =
  fc_ETA :: gotime
  fc_ConfidenceBasis :: string

record Enrichment =
  en_Bundle :: string

type_synonym Resolution = string

definition ResolutionRecovered :: Resolution where "ResolutionRecovered = ''recovered''"
definition ResolutionObjectDeleted :: Resolution where "ResolutionObjectDeleted = ''object_deleted''"

record Recovery =
  rc_ClearedAfter :: duration
  rc_ObservedStableFor :: duration
  rc_Resolution :: Resolution
  rc_ResolvedAt :: gotime
  rc_RevertedAfter :: duration

record QuotaIncreaseDraft =
  qd_QuotaID :: string
  qd_Region :: string
  qd_Unit :: string
  qd_CurrentUsage :: rat
  qd_CurrentLimit :: rat
  qd_SuggestedLimit :: rat
  qd_SlopePerDay :: rat
  qd_Justification :: string

text \<open>The image-pull failure class (\<^verbatim>\<open>pullfailure.go\<close>), a field of \<^verbatim>\<open>Signal\<close>.\<close>

datatype PullClass = PullClassNA | PullClassTerminal | PullClassRetryable | PullClassUnknown

record Signal = TriageEvent +
  sg_Kind :: string
  sg_Source :: string
  sg_Severity :: Severity
  sg_Fingerprint :: string
  sg_Cluster :: string
  sg_Project :: string
  sg_Region :: string
  sg_Zone :: string
  sg_PullClass :: PullClass
  sg_PullCause :: string
  sg_Forecast :: "Forecast option"
  sg_Enrichment :: "Enrichment option"
  sg_Recovery :: "Recovery option"
  sg_QuotaDraft :: "QuotaIncreaseDraft option"

definition KindK8sEvent :: string where "KindK8sEvent = ''k8s-event''"
definition KindK8sEventFollowup :: string where "KindK8sEventFollowup = ''k8s-event-followup''"
definition KindResolved :: string where "KindResolved = ''resolved''"
definition KindResolvedReverted :: string where "KindResolvedReverted = ''resolved.reverted''"
definition KindStorm :: string where "KindStorm = ''storm''"
definition SourceSentinel :: string where "SourceSentinel = ''sentinel''"

lemmas kind_defs = KindK8sEvent_def KindK8sEventFollowup_def KindResolved_def
  KindResolvedReverted_def KindStorm_def

text \<open>A \<^verbatim>\<open>Signal\<close> with every field at its zero value, as a Go composite literal starts from.\<close>

definition zero_signal :: Signal where
  "zero_signal =
     \<lparr>te_Key = \<lparr>ek_UID = [], ek_Reason = []\<rparr>, te_Namespace = [], te_KindOfObject = [],
      te_Name = [], te_Container = [], te_Message = [], te_FirstSeen = 0, te_LastSeen = 0,
      te_ControllerRef = [], te_Node = [], te_Labels = [], te_Count = 0, te_Type = [],
      sg_Kind = [], sg_Source = [], sg_Severity = [], sg_Fingerprint = [], sg_Cluster = [],
      sg_Project = [], sg_Region = [], sg_Zone = [], sg_PullClass = PullClassNA,
      sg_PullCause = [], sg_Forecast = None, sg_Enrichment = None, sg_Recovery = None,
      sg_QuotaDraft = None\<rparr>"

record IncidentRef =
  ir_Namespace :: string
  ir_KindOfObject :: string
  ir_Name :: string
  ir_Container :: string
  ir_ControllerRef :: string
  ir_Fingerprint :: string
  ir_Cluster :: string

definition IncidentRef_of :: "Signal \<Rightarrow> IncidentRef" where
  "IncidentRef_of s =
     \<lparr>ir_Namespace = te_Namespace s, ir_KindOfObject = te_KindOfObject s, ir_Name = te_Name s,
      ir_Container = te_Container s, ir_ControllerRef = te_ControllerRef s,
      ir_Fingerprint = sg_Fingerprint s, ir_Cluster = sg_Cluster s\<rparr>"

subsection \<open>Reason families\<close>

definition reasonCanonical :: "(string, string) gomap" where
  "reasonCanonical =
     [(''ErrImagePull'', ''ImagePullBackOff''),
      (''BackOff'', ''CrashLoopBackOff''),
      (''node_notready'', ''NodeNotReady''),
      (''restart_burst'', ''CrashLoopBackOff''),
      (''pending'', ''FailedScheduling''),
      (''pending-aged'', ''FailedScheduling''),
      (''quota_blocked'', ''QuotaExhausted''),
      (''quota_forecast'', ''QuotaExhausted'')]"

definition CanonicalReason :: "string \<Rightarrow> string" where
  "CanonicalReason reason =
     (case gget reasonCanonical reason of Some canonical \<Rightarrow> canonical | None \<Rightarrow> reason)"

definition CanonicalReasonForEvent :: "string \<Rightarrow> string \<Rightarrow> string" where
  "CanonicalReasonForEvent reason message =
     (if reason = ''BackOff'' then
        (if strings_Contains message ''pulling image'' then ''ImagePullBackOff''
         else ''CrashLoopBackOff'')
      else if reason = ''Failed'' then
        (if strings_Contains message ''Failed to pull image'' \<or>
            strings_Contains message ''ErrImagePull'' \<or>
            strings_Contains message ''ImagePullBackOff''
         then ''ImagePullBackOff'' else reason)
      else CanonicalReason reason)"

definition ReasonClass :: "string \<Rightarrow> string \<Rightarrow> string \<Rightarrow> string" where
  "ReasonClass kind reason message =
     (if kind \<in> {KindK8sEvent, KindK8sEventFollowup, []}
      then CanonicalReasonForEvent reason message
      else if CanonicalReason reason \<noteq> reason then CanonicalReason reason
      else [])"

definition CanonicalKey :: "('a TriageEvent_scheme) \<Rightarrow> EventKey" where
  "CanonicalKey t =
     (te_Key t)\<lparr>ek_Reason := CanonicalReasonForEvent (ek_Reason (te_Key t)) (te_Message t)\<rparr>"

text \<open>
  Every operation of the dedup cache, the correlator and the tracker starts with
  \<^verbatim>\<open>key.Reason = CanonicalReason(key.Reason)\<close>.
\<close>

definition canon_key :: "EventKey \<Rightarrow> EventKey" where
  "canon_key k = k\<lparr>ek_Reason := CanonicalReason (ek_Reason k)\<rparr>"

definition SourceFamily :: "string \<Rightarrow> string" where
  "SourceFamily kind =
     (case strings_IndexByte kind CHR ''.'' of
        Some i \<Rightarrow> if i > 0 then take i kind else kind
      | None \<Rightarrow> kind)"

lemma reasonCanonical_ran:
  "gget reasonCanonical r = Some c \<Longrightarrow>
   c \<in> {''ImagePullBackOff'', ''CrashLoopBackOff'', ''NodeNotReady'', ''FailedScheduling'', ''QuotaExhausted''}"
  by (simp add: reasonCanonical_def split: if_splits)

lemma CanonicalReason_fixed:
  "c \<in> {''ImagePullBackOff'', ''CrashLoopBackOff'', ''NodeNotReady'', ''FailedScheduling'', ''QuotaExhausted'', ''Failed''}
   \<Longrightarrow> CanonicalReason c = c"
  by (elim insertE emptyE) (simp_all add: reasonCanonical_def CanonicalReason_def)

lemma CanonicalReason_idem [simp]: "CanonicalReason (CanonicalReason r) = CanonicalReason r"
proof (cases "gget reasonCanonical r")
  case (Some c)
  then have "CanonicalReason c = c" using reasonCanonical_ran CanonicalReason_fixed by blast
  with Some show ?thesis by (simp add: CanonicalReason_def)
qed (simp add: CanonicalReason_def)

lemma canon_key_idem [simp]: "canon_key (canon_key k) = canon_key k"
  by (simp add: canon_key_def)

lemma canon_key_UID [simp]: "ek_UID (canon_key k) = ek_UID k"
  by (simp add: canon_key_def)

lemma CanonicalReason_ImagePullBackOff [simp]:
  "CanonicalReason ''ImagePullBackOff'' = ''ImagePullBackOff''"
  "CanonicalReason ''CrashLoopBackOff'' = ''CrashLoopBackOff''"
  "CanonicalReason ''Failed'' = ''Failed''"
  by (simp_all add: CanonicalReason_fixed)

lemma CanonicalReason_ForEvent [simp]:
  "CanonicalReason (CanonicalReasonForEvent r m) = CanonicalReasonForEvent r m"
  by (auto simp: CanonicalReasonForEvent_def)

text \<open>
  Canonicalisation is stable. The dispatcher computes the message-aware canonical key once
  and threads it through dedup, storm, triage and recovery, each of which canonicalises again
  without a message; every stage then works with the key the dispatcher computed. A messageless
  second pass changes nothing, even for the ambiguous reasons \<open>BackOff\<close> and \<open>Failed\<close>.
\<close>

theorem canonical_key_stable:
  "canon_key (CanonicalKey t) = CanonicalKey t \<and> canon_key (canon_key k) = canon_key k"
  by (simp add: CanonicalKey_def canon_key_def)

subsection \<open>Fingerprints\<close>

definition NUL :: char where "NUL = CHR 0x00"

text \<open>The bytes hashed: the four fields separated by NUL.\<close>

definition fp_preimage :: "string \<Rightarrow> string \<Rightarrow> string \<Rightarrow> string \<Rightarrow> string" where
  "fp_preimage kind reasonClass objectClass zone =
     kind @ [NUL] @ reasonClass @ [NUL] @ objectClass @ [NUL] @ zone"

definition Fingerprint :: "string \<Rightarrow> string \<Rightarrow> string \<Rightarrow> string \<Rightarrow> string" where
  "Fingerprint kind reasonClass objectClass zone =
     ''sha256:'' @ hex_bytes (sha256 (fp_preimage kind reasonClass objectClass zone))"

definition FailureDomain :: "string \<Rightarrow> string \<Rightarrow> string" where
  "FailureDomain region zone = (if zone \<noteq> [] then zone else region)"

definition ScanFingerprint :: "string \<Rightarrow> string \<Rightarrow> string \<Rightarrow> string" where
  "ScanFingerprint reason objectClass zone =
     Fingerprint KindK8sEvent (CanonicalReason reason) objectClass zone"

definition PostureFingerprint :: "string \<Rightarrow> string \<Rightarrow> string \<Rightarrow> string" where
  "PostureFingerprint kind reason objectClass = Fingerprint kind reason objectClass []"

lemma append_sep_inj:
  fixes c :: char
  assumes "a @ [c] @ x = b @ [c] @ y" and "c \<notin> set a" and "c \<notin> set b"
  shows "a = b \<and> x = y"
proof -
  have "length a = length b"
    using assms strings_IndexByte_append[of c a x] strings_IndexByte_append[of c b y] by simp
  then show ?thesis using assms(1) by simp
qed

lemma fp_preimage_inj:
  assumes "fp_preimage k r oc z = fp_preimage k' r' oc' z'"
    and "NUL \<notin> set k \<union> set r \<union> set oc" and "NUL \<notin> set k' \<union> set r' \<union> set oc'"
  shows "k = k' \<and> r = r' \<and> oc = oc' \<and> z = z'"
proof -
  have 1: "k = k' \<and> r @ [NUL] @ oc @ [NUL] @ z = r' @ [NUL] @ oc' @ [NUL] @ z'"
    using assms append_sep_inj[of k NUL "r @ [NUL] @ oc @ [NUL] @ z" k'] by (simp add: fp_preimage_def)
  then have 2: "r = r' \<and> oc @ [NUL] @ z = oc' @ [NUL] @ z'"
    using assms append_sep_inj[of r NUL "oc @ [NUL] @ z" r'] by simp
  then show ?thesis using 1 assms append_sep_inj[of oc NUL z oc'] by simp
qed

text \<open>
  The fingerprint is a function of the incident class and of nothing else. The bytes hashed
  determine all four fields, whenever the first three hold no NUL byte (a kind, a reason and an
  object kind never do), so two classes share a fingerprint only by a SHA-256 collision; and a
  scan finding carries the fingerprint the sentinel pushes for the same reason, for every reason
  that names its own family.
\<close>

theorem fingerprint_class:
  assumes "NUL \<notin> set k \<union> set r \<union> set oc" and "NUL \<notin> set k' \<union> set r' \<union> set oc'"
    and "reason \<noteq> ''BackOff''" and "reason \<noteq> ''Failed''"
  shows "(fp_preimage k r oc z = fp_preimage k' r' oc' z' \<longleftrightarrow>
            k = k' \<and> r = r' \<and> oc = oc' \<and> z = z')
       \<and> ScanFingerprint reason oc z =
           Fingerprint KindK8sEvent (CanonicalReasonForEvent reason message) oc z"
proof
  show "fp_preimage k r oc z = fp_preimage k' r' oc' z' \<longleftrightarrow>
          k = k' \<and> r = r' \<and> oc = oc' \<and> z = z'"
    using fp_preimage_inj[OF _ assms(1,2), of z z'] by auto
  show "ScanFingerprint reason oc z =
          Fingerprint KindK8sEvent (CanonicalReasonForEvent reason message) oc z"
    using assms(3,4) by (simp add: ScanFingerprint_def CanonicalReasonForEvent_def)
qed

theorem fingerprint_class_witness:
  "fp_preimage ''k8s-event'' ''OOMKilled'' ''Pod'' [] \<noteq> fp_preimage ''k8s-event'' ''OOMKilled'' [] ''Pod''
   \<and> ScanFingerprint ''restart_burst'' ''Pod'' [] =
       Fingerprint KindK8sEvent (CanonicalReasonForEvent ''restart_burst'' []) ''Pod'' []"
  using fingerprint_class[of "''k8s-event''" "''OOMKilled''" "''Pod''" "''k8s-event''" "''OOMKilled''"
      "[]" "''restart_burst''" "[]" "''Pod''" "[]"]
  by (simp add: NUL_def)

subsection \<open>Severity routing\<close>

datatype Route = RoutePerIncident | RouteWatchboard | RouteStore

definition RouteFor :: "Severity \<Rightarrow> Route" where
  "RouteFor sev =
     (if sev = SeverityWarning then RouteWatchboard
      else if sev = SeverityInfo then RouteStore
      else RoutePerIncident)"

fun Route_String :: "Route \<Rightarrow> string" where
  "Route_String RouteWatchboard = ''watchboard''"
| "Route_String RouteStore = ''store''"
| "Route_String RoutePerIncident = ''per-incident''"

record RoutingPolicy =
  rp_overrides :: "(string, Severity) gomap"

definition NewRoutingPolicy :: "(string, Severity) gomap \<Rightarrow> RoutingPolicy" where
  "NewRoutingPolicy ov = \<lparr>rp_overrides = ov\<rparr>"

text \<open>The receiver may be nil, hence the option.\<close>

definition Classify :: "RoutingPolicy option \<Rightarrow> Signal \<Rightarrow> Severity" where
  "Classify p sig =
     (case (case p of None \<Rightarrow> None | Some pol \<Rightarrow> gget (rp_overrides pol) (sg_Kind sig)) of
        Some sev \<Rightarrow> sev
      | None \<Rightarrow> if Valid (sg_Severity sig) then sg_Severity sig else SeverityCritical)"

datatype override_error =
    InvalidPair string            \<comment> \<open>no equals sign, or an empty kind\<close>
  | InvalidLevel string           \<comment> \<open>the level is none of the three classes\<close>
  | KindTwice string Severity Severity

text \<open>One trimmed pair of the flag's value; blank pairs are skipped.\<close>

definition parse_pair ::
  "(string, Severity) gomap \<Rightarrow> string \<Rightarrow> override_error + (string, Severity) gomap" where
  "parse_pair out raw =
     (let pair = strings_TrimSpace raw in
      if pair = [] then Inr out
      else
        (let (k, level, ok) = strings_CutByte pair CHR ''='';
             kind = strings_TrimSpace k;
             sev = strings_TrimSpace level
         in if \<not> ok \<or> kind = [] then Inl (InvalidPair pair)
            else if \<not> Valid sev then Inl (InvalidLevel pair)
            else (case gget out kind of
                    Some prev \<Rightarrow> Inl (KindTwice kind prev sev)
                  | None \<Rightarrow> Inr (gput kind sev out))))"

fun parse_pairs ::
  "(string, Severity) gomap \<Rightarrow> string list \<Rightarrow> override_error + (string, Severity) gomap" where
  "parse_pairs out [] = Inr out"
| "parse_pairs out (p # ps) =
     (case parse_pair out p of Inl e \<Rightarrow> Inl e | Inr out' \<Rightarrow> parse_pairs out' ps)"

definition ParseSeverityOverrides ::
  "string list \<Rightarrow> override_error + (string, Severity) gomap" where
  "ParseSeverityOverrides entries =
     parse_pairs [] (concat (map (\<lambda>e. strings_SplitByte e CHR '','') entries))"

text \<open>How an operator writes a set of overrides: one \<open>kind=level\<close> pair per flag.\<close>

definition render_override :: "string \<times> Severity \<Rightarrow> string" where
  "render_override kv = fst kv @ ''='' @ snd kv"

text \<open>A kind the flag can name: not empty, no separator, no space at its ends.\<close>

definition flag_kind :: "string \<Rightarrow> bool" where
  "flag_kind k =
     (k \<noteq> [] \<and> CHR ''='' \<notin> set k \<and> CHR '','' \<notin> set k
      \<and> \<not> is_space (hd k) \<and> \<not> is_space (last k))"

lemma dropWhile_hd: "s = [] \<or> \<not> P (hd s) \<Longrightarrow> dropWhile P s = s"
  by (cases s) auto

lemma TrimSpace_id:
  "s = [] \<or> \<not> is_space (hd s) \<and> \<not> is_space (last s) \<Longrightarrow> strings_TrimSpace s = s"
  using dropWhile_hd[of s is_space] dropWhile_hd[of "rev s" is_space]
  by (auto simp: strings_TrimSpace_def hd_rev)

lemma Valid_level_shape:
  "Valid s \<Longrightarrow> s \<noteq> [] \<and> CHR '','' \<notin> set s \<and> \<not> is_space (hd s) \<and> \<not> is_space (last s)"
  unfolding Valid_def severity_defs is_space_def by (elim insertE emptyE) simp_all

lemma parse_pair_render:
  assumes "flag_kind k" and "Valid s" and "gget out k = None"
  shows "parse_pair out (render_override (k, s)) = Inr (gput k s out)"
proof -
  have k: "strings_TrimSpace k = k" and s: "strings_TrimSpace s = s"
    using assms Valid_level_shape by (auto simp: flag_kind_def intro: TrimSpace_id)
  have "strings_TrimSpace (k @ ''='' @ s) = k @ ''='' @ s"
    using assms Valid_level_shape[of s] by (intro TrimSpace_id) (auto simp: flag_kind_def)
  moreover have "strings_CutByte (k @ ''='' @ s) CHR ''='' = (k, s, True)"
    using assms strings_IndexByte_append[of "CHR ''=''" k s]
    by (simp add: strings_CutByte_def flag_kind_def)
  ultimately show ?thesis
    using assms k s by (simp add: parse_pair_def render_override_def flag_kind_def)
qed

lemma gput_fresh: "k \<notin> fst ` set m \<Longrightarrow> gput k v m = m @ [(k, v)]"
  by (induction m) auto

lemma parse_pairs_render:
  assumes "gokeys (out @ ov)" and "\<forall>(k, s) \<in> set ov. flag_kind k \<and> Valid s"
  shows "parse_pairs out (map render_override ov) = Inr (out @ ov)"
  using assms
proof (induction ov arbitrary: out)
  case (Cons kv ov)
  obtain k s where kv: "kv = (k, s)" by (cases kv)
  have fresh: "k \<notin> fst ` set out" using Cons.prems(1) kv by auto
  then have "gget out k = None" by (simp add: map_of_eq_None_iff)
  then have "parse_pair out (render_override kv) = Inr (out @ [(k, s)])"
    using Cons.prems(2) kv parse_pair_render gput_fresh[OF fresh] by simp
  moreover have "parse_pairs (out @ [(k, s)]) (map render_override ov) = Inr (out @ kv # ov)"
    using Cons.IH[of "out @ [(k, s)]"] Cons.prems kv by simp
  ultimately show ?case by simp
qed simp

lemma render_no_comma:
  "flag_kind k \<Longrightarrow> Valid s \<Longrightarrow> CHR '','' \<notin> set (render_override (k, s))"
  using Valid_level_shape[of s] by (auto simp: render_override_def flag_kind_def)

lemma split_render:
  "\<forall>(k, s) \<in> set ov. flag_kind k \<and> Valid s \<Longrightarrow>
   concat (map (\<lambda>e. strings_SplitByte e CHR '','') (map render_override ov))
     = map render_override ov"
proof (induction ov)
  case (Cons kv ov)
  then have "strings_SplitByte (render_override kv) CHR '','' = [render_override kv]"
    by (cases kv) (simp add: render_no_comma strings_SplitByte_single)
  with Cons show ?case by simp
qed simp

text \<open>
  Parsing the \<open>--severity\<close> flag is the inverse of writing it. A set of overrides with
  distinct, writable kinds and valid levels, one pair per flag occurrence, parses back to exactly
  that map; and \<open>Classify\<close> then gives an overridden kind its level and any other signal its own
  severity, or \<open>critical\<close> where the source set none of the three classes.
\<close>

theorem severity_overrides_roundtrip:
  assumes "gokeys ov" and "\<forall>(k, s) \<in> set ov. flag_kind k \<and> Valid s"
  shows "ParseSeverityOverrides (map render_override ov) = Inr ov
       \<and> Classify (Some (NewRoutingPolicy ov)) sig =
           (case gget ov (sg_Kind sig) of
              Some s \<Rightarrow> s
            | None \<Rightarrow> if Valid (sg_Severity sig) then sg_Severity sig else SeverityCritical)
       \<and> Valid (Classify (Some (NewRoutingPolicy ov)) sig)"
proof (intro conjI)
  show "ParseSeverityOverrides (map render_override ov) = Inr ov"
    using parse_pairs_render[of "[]" ov] assms split_render[OF assms(2)]
    by (simp add: ParseSeverityOverrides_def)
  show eq: "Classify (Some (NewRoutingPolicy ov)) sig =
      (case gget ov (sg_Kind sig) of
         Some s \<Rightarrow> s
       | None \<Rightarrow> if Valid (sg_Severity sig) then sg_Severity sig else SeverityCritical)"
    by (simp add: Classify_def NewRoutingPolicy_def)
  show "Valid (Classify (Some (NewRoutingPolicy ov)) sig)"
    unfolding eq using assms(2)
    by (auto split: option.splits dest!: map_of_SomeD) (simp add: Valid_def)
qed

theorem severity_overrides_roundtrip_witness:
  "ParseSeverityOverrides [''objectstate.restart_burst=info'', ''rollout.stall=critical'']
     = Inr [(''objectstate.restart_burst'', ''info''), (''rollout.stall'', ''critical'')]"
  using severity_overrides_roundtrip
    [of "[(''objectstate.restart_burst'', ''info''), (''rollout.stall'', ''critical'')]" zero_signal]
  by (simp add: render_override_def flag_kind_def is_space_def Valid_def severity_defs)

end
