(* ===== verification/PullFailure.thy ===== *)
theory PullFailure
  imports Signal
begin

section \<open>Image-pull failures: classification and the cause memo\<close>

text \<open>
  \<^verbatim>\<open>pkg/engine/pullfailure.go\<close>. A pull failure is terminal, retryable or of unknown cause, read
  from the message after the image reference has been blanked out; \<open>PullClassMemo\<close> carries a
  cause forward to the causeless messages kubelet sends after it, per object and, for retryable
  causes only, per registry host. The memo's clock reading is the argument \<open>now\<close>, and a nil
  memo is \<^const>\<open>None\<close>.
\<close>

fun PullClass_String :: "PullClass \<Rightarrow> string" where
  "PullClass_String PullClassTerminal = ''terminal''"
| "PullClass_String PullClassRetryable = ''retryable''"
| "PullClass_String PullClassUnknown = ''unknown''"
| "PullClass_String PullClassNA = ''n/a''"

subsection \<open>Reading the image reference out of a message\<close>

definition dquote :: char where "dquote = CHR 0x22"

definition image_anchor :: string where "image_anchor = ''image '' @ [dquote]"

definition quotedImageRef :: "string \<Rightarrow> string option" where
  "quotedImageRef message =
     (case strings_Index message image_anchor of
        None \<Rightarrow> None
      | Some i \<Rightarrow>
          (let rest = drop (i + length image_anchor) message in
           case strings_IndexByte rest dquote of
             None \<Rightarrow> None
           | Some j \<Rightarrow> if j = 0 then None else Some (take j rest)))"

definition dockerHubHost :: string where "dockerHubHost = ''docker.io''"

definition RegistryHost :: "string \<Rightarrow> string" where
  "RegistryHost message =
     (case quotedImageRef message of
        None \<Rightarrow> []
      | Some ref \<Rightarrow>
          (case strings_IndexByte ref CHR ''/'' of
             None \<Rightarrow> dockerHubHost
           | Some slash \<Rightarrow>
               (let head = take slash ref in
                if head = ''localhost'' \<or> CHR ''.'' \<in> set head \<or> CHR '':'' \<in> set head
                then head else dockerHubHost)))"

definition PullCause :: "string \<Rightarrow> string" where
  "PullCause message =
     (case quotedImageRef message of
        None \<Rightarrow> []
      | Some ref \<Rightarrow>
          (case strings_Index message ([dquote] @ ref @ [dquote]) of
             None \<Rightarrow> []
           | Some i \<Rightarrow>
               (let rest = strings_TrimSpace (drop (i + length ref + 2) message)
                in strings_TrimSpace (strings_TrimPrefix rest '':''))))"

subsection \<open>Classification\<close>

definition pullTerminalMarkers :: "string list" where
  "pullTerminalMarkers =
     [''manifest unknown'', ''not found'', ''notfound'', ''repository does not exist'', ''denied'',
      ''unauthorized'', ''authentication required'', ''401 unauthorized'', ''403 forbidden'',
      ''invalid reference format'', ''invalidimagename'', ''errimageneverpull'',
      ''no space left on device'']"

definition pullRetryableMarkers :: "string list" where
  "pullRetryableMarkers =
     [''toomanyrequests'', ''too many requests'', ''quota exceeded'', ''500 internal server error'',
      ''502 bad gateway'', ''503 service unavailable'', ''504 gateway timeout'', ''i/o timeout'',
      ''tls handshake timeout'', ''connection reset by peer'', ''connection refused'',
      ''unexpected eof'', ''context deadline exceeded'', ''temporary failure in name resolution'']"

text \<open>
  The substrings of a reference that can turn up on their own elsewhere in a message: the whole
  reference, without its digest, without its tag, the path without the host, digest, tag.
\<close>

definition refTokens :: "string \<Rightarrow> string list" where
  "refTokens ref =
     (let (name, digest) =
            (case strings_IndexByte ref CHR ''@'' of
               Some i \<Rightarrow> (take i ref, drop (Suc i) ref) | None \<Rightarrow> (ref, []));
          colon = strings_LastIndexByte name CHR '':'';
          (repo, tag) =
            (if colon > strings_LastIndexByte name CHR ''/''
             then (take (nat colon) name, drop (Suc (nat colon)) name) else (name, []))
      in [ref, name, repo]
           @ (case strings_IndexByte repo CHR ''/'' of
                Some i \<Rightarrow> [drop (Suc i) repo] | None \<Rightarrow> [])
           @ (if digest \<noteq> [] then [digest] else [])
           @ (if tag \<noteq> [] then [tag] else []))"

definition escape_char :: "char \<Rightarrow> string" where
  "escape_char c =
     (if c = CHR ''/'' then ''%2f'' else if c = CHR '':'' then ''%3a''
      else if c = CHR ''@'' then ''%40'' else [c])"

definition refPathEscaper :: "string \<Rightarrow> string" where
  "refPathEscaper s = concat (map escape_char s)"

text \<open>One round of the loop: blank a token, and its percent-encoded form where that differs.\<close>

definition blank_token :: "string \<Rightarrow> string \<Rightarrow> string" where
  "blank_token m tok =
     (if length tok < 3 then m
      else
        (let m1 = strings_ReplaceAll m tok '' '';
             enc = refPathEscaper tok
         in if enc \<noteq> tok then strings_ReplaceAll m1 enc '' '' else m1))"

definition classificationText :: "string \<Rightarrow> string" where
  "classificationText message =
     (let m = strings_ToLower message in
      case quotedImageRef message of
        None \<Rightarrow> m
      | Some ref \<Rightarrow> foldl blank_token m (refTokens (strings_ToLower ref)))"

definition ClassifyPullFailure :: "string \<Rightarrow> PullClass" where
  "ClassifyPullFailure message =
     (let m = classificationText message in
      if list_ex (strings_Contains m) pullTerminalMarkers then PullClassTerminal
      else if list_ex (strings_Contains m) pullRetryableMarkers then PullClassRetryable
      else PullClassUnknown)"

subsection \<open>The memo\<close>

datatype scopeKind = scopeObject | scopeRegistryHost

record causeScope =
  cs_kind :: scopeKind
  cs_id :: string

record pullMemoEntry =
  pe_class :: PullClass
  pe_cause :: string
  pe_at :: gotime
  pe_ttl :: duration

record PullClassMemo =
  pm_entries :: "(causeScope, pullMemoEntry) gomap"
  pm_max :: nat

definition defaultPullMemoTTL :: duration where "defaultPullMemoTTL = 10 * Minute"
definition hostPullMemoTTL :: duration where "hostPullMemoTTL = 2 * Minute"
definition maxPullMemoEntries :: nat where "maxPullMemoEntries = 4096"

definition NewPullClassMemo :: PullClassMemo where
  "NewPullClassMemo = \<lparr>pm_entries = [], pm_max = maxPullMemoEntries\<rparr>"

definition memo_expired :: "gotime \<Rightarrow> pullMemoEntry \<Rightarrow> bool" where
  "memo_expired now e = (time_Sub now (pe_at e) > pe_ttl e)"

definition memo_lookup ::
  "PullClassMemo \<Rightarrow> causeScope \<Rightarrow> gotime \<Rightarrow> pullMemoEntry option \<times> PullClassMemo" where
  "memo_lookup m s now =
     (case gget (pm_entries m) s of
        None \<Rightarrow> (None, m)
      | Some prior \<Rightarrow>
          if memo_expired now prior then (None, m\<lparr>pm_entries := gdel s (pm_entries m)\<rparr>)
          else (Some prior, m))"

definition memo_evictIfFull :: "PullClassMemo \<Rightarrow> gotime \<Rightarrow> PullClassMemo" where
  "memo_evictIfFull m now =
     (if length (pm_entries m) < pm_max m then m
      else
        (let live = filter (\<lambda>(s, e). \<not> memo_expired now e) (pm_entries m) in
         if length live < pm_max m then m\<lparr>pm_entries := live\<rparr>
         else (case scan_best (\<lambda>x y. pe_at (snd x) < pe_at (snd y)) None live of
                 None \<Rightarrow> m\<lparr>pm_entries := gdel \<lparr>cs_kind = scopeObject, cs_id = []\<rparr> live\<rparr>
               | Some (oldest, _) \<Rightarrow> m\<lparr>pm_entries := gdel oldest live\<rparr>)))"

definition object_scope :: "Signal \<Rightarrow> causeScope" where
  "object_scope sig = \<lparr>cs_kind = scopeObject, cs_id = ek_UID (te_Key sig)\<rparr>"

definition host_scope :: "Signal \<Rightarrow> causeScope option" where
  "host_scope sig =
     (let h = RegistryHost (te_Message sig)
      in if h \<noteq> [] then Some \<lparr>cs_kind = scopeRegistryHost, cs_id = h\<rparr> else None)"

text \<open>The evidence of record a cause-bearing message leaves behind.\<close>

definition memo_record ::
  "PullClassMemo \<Rightarrow> gotime \<Rightarrow> Signal \<Rightarrow> PullClass \<Rightarrow> string \<Rightarrow> PullClassMemo" where
  "memo_record m now sig class cause =
     (let m1 = memo_evictIfFull m now;
          es = gput (object_scope sig)
                 \<lparr>pe_class = class, pe_cause = cause, pe_at = now, pe_ttl = defaultPullMemoTTL\<rparr>
                 (pm_entries m1);
          es' = (case host_scope sig of
                   Some h \<Rightarrow> if class = PullClassRetryable
                              then gput h \<lparr>pe_class = class, pe_cause = cause, pe_at = now,
                                           pe_ttl = hostPullMemoTTL\<rparr> es
                              else es
                 | None \<Rightarrow> es)
      in m1\<lparr>pm_entries := es'\<rparr>)"

text \<open>What a causeless message inherits: the object's evidence first, then the host's.\<close>

definition memo_inherit ::
  "PullClassMemo \<Rightarrow> gotime \<Rightarrow> Signal \<Rightarrow> PullClass \<Rightarrow> string \<Rightarrow> (PullClass \<times> string) \<times> PullClassMemo" where
  "memo_inherit m now sig class0 cause0 =
     (let (p1, m1) = memo_lookup m (object_scope sig) now;
          (class, cause) =
            (case p1 of Some p \<Rightarrow> (pe_class p, pe_cause p) | None \<Rightarrow> (class0, cause0))
      in case host_scope sig of
           Some h \<Rightarrow>
             if class = PullClassUnknown then
               (let (p2, m2) = memo_lookup m1 h now in
                case p2 of
                  Some p \<Rightarrow> ((pe_class p, if cause = [] then pe_cause p else cause), m2)
                | None \<Rightarrow> ((class, cause), m2))
             else ((class, cause), m1)
         | None \<Rightarrow> ((class, cause), m1))"

definition Resolve ::
  "PullClassMemo option \<Rightarrow> gotime \<Rightarrow> Signal \<Rightarrow> (PullClass \<times> string) \<times> PullClassMemo option" where
  "Resolve memo now sig =
     (if CanonicalReasonForEvent (ek_Reason (te_Key sig)) (te_Message sig) \<noteq> ''ImagePullBackOff''
      then ((PullClassNA, []), memo)
      else
        (let class = ClassifyPullFailure (te_Message sig) in
         case memo of
           None \<Rightarrow> ((class, []), None)
         | Some m \<Rightarrow>
             (let cause = PullCause (te_Message sig) in
              if class \<noteq> PullClassUnknown \<or> cause \<noteq> []
              then ((class, []), Some (memo_record m now sig class cause))
              else
                (let (res, m') = memo_inherit m now sig class cause in (res, Some m')))))"

subsection \<open>The reference does not vote\<close>

lemma ReplaceAll_prefix:
  "CHR '' '' \<notin> set p \<Longrightarrow> prefix p (strings_ReplaceAll s old '' '') \<Longrightarrow> prefix p s"
proof (induction s old "'' ''" arbitrary: p rule: strings_ReplaceAll.induct)
  case (1 s old)
  consider "old = [] \<or> s = []" | "old \<noteq> []" "s \<noteq> []" "prefix old s"
    | "old \<noteq> []" "s \<noteq> []" "\<not> prefix old s" by blast
  then show ?case
  proof cases
    case 1
    then show ?thesis using "1.prems" strings_ReplaceAll.simps[of s old "'' ''"] by simp
  next
    case 2
    then have "p = []"
      using "1.prems" strings_ReplaceAll.simps[of s old "'' ''"] by (cases p) auto
    then show ?thesis by simp
  next
    case 3
    then have eq: "strings_ReplaceAll s old '' '' = hd s # strings_ReplaceAll (tl s) old '' ''"
      using strings_ReplaceAll.simps[of s old "'' ''"] by simp
    show ?thesis
    proof (cases p)
      case (Cons a p')
      then have "a = hd s" and "prefix p' (tl s)"
        using "1.prems" "1.hyps"(2)[OF _ 3(3), of p'] 3 eq by auto
      then show ?thesis using Cons 3 by (cases s) auto
    qed simp
  qed
qed

lemma strings_Contains_Cons:
  "strings_Contains (c # s) sub \<longleftrightarrow> prefix sub (c # s) \<or> strings_Contains s sub"
  by (auto simp: strings_Contains_def)

lemma strings_Contains_drop: "strings_Contains (drop n s) sub \<Longrightarrow> strings_Contains s sub"
  unfolding strings_Contains_iff by (metis append.assoc append_take_drop_id)

lemma ReplaceAll_contains:
  "x \<noteq> [] \<Longrightarrow> CHR '' '' \<notin> set x \<Longrightarrow> strings_Contains (strings_ReplaceAll s old '' '') x
   \<Longrightarrow> strings_Contains s x"
proof (induction s old "'' ''" rule: strings_ReplaceAll.induct)
  case (1 s old)
  consider "old = [] \<or> s = []" | "old \<noteq> []" "s \<noteq> []" "prefix old s"
    | "old \<noteq> []" "s \<noteq> []" "\<not> prefix old s" by blast
  then show ?case
  proof cases
    case 1
    then show ?thesis using "1.prems" strings_ReplaceAll.simps[of s old "'' ''"] by simp
  next
    case 2
    then have "strings_ReplaceAll s old '' '' = CHR '' '' # strings_ReplaceAll (drop (length old) s) old '' ''"
      using strings_ReplaceAll.simps[of s old "'' ''"] by simp
    then have "strings_Contains (strings_ReplaceAll (drop (length old) s) old '' '') x"
      using "1.prems" strings_Contains_Cons by (cases x) auto
    then show ?thesis using "1.hyps"(1) 2 "1.prems" strings_Contains_drop by blast
  next
    case 3
    have eq: "strings_ReplaceAll s old '' '' = hd s # strings_ReplaceAll (tl s) old '' ''"
      using 3 strings_ReplaceAll.simps[of s old "'' ''"] by simp
    then consider "prefix x (strings_ReplaceAll s old '' '')"
      | "strings_Contains (strings_ReplaceAll (tl s) old '' '') x"
      using "1.prems" strings_Contains_Cons by metis
    then show ?thesis
    proof cases
      case 1
      then have "prefix x s" using ReplaceAll_prefix "1.prems" by blast
      then show ?thesis using 3 strings_Contains_Cons by (cases s) auto
    next
      case 2
      then have "strings_Contains (tl s) x" using "1.hyps"(2) 3 "1.prems" by blast
      then show ?thesis using strings_Contains_Cons 3 by (cases s) auto
    qed
  qed
qed

lemma ReplaceAll_removes:
  "old \<noteq> [] \<Longrightarrow> CHR '' '' \<notin> set old \<Longrightarrow> \<not> strings_Contains (strings_ReplaceAll s old '' '') old"
proof (induction s old "'' ''" rule: strings_ReplaceAll.induct)
  case (1 s old)
  consider "s = []" | "s \<noteq> []" "prefix old s" | "s \<noteq> []" "\<not> prefix old s" by blast
  then show ?case
  proof cases
    case 1
    then show ?thesis
      using "1.prems" strings_ReplaceAll.simps[of s old "'' ''"] by (simp add: strings_Contains_def)
  next
    case 2
    then have "strings_ReplaceAll s old '' '' = CHR '' '' # strings_ReplaceAll (drop (length old) s) old '' ''"
      using strings_ReplaceAll.simps[of s old "'' ''"] "1.prems" by simp
    then show ?thesis
      using "1.hyps"(1) 2 "1.prems" strings_Contains_Cons by (cases old) auto
  next
    case 3
    have eq: "strings_ReplaceAll s old '' '' = hd s # strings_ReplaceAll (tl s) old '' ''"
      using 3 "1.prems" strings_ReplaceAll.simps[of s old "'' ''"] by simp
    moreover have "\<not> prefix old (strings_ReplaceAll s old '' '')"
      using 3 ReplaceAll_prefix "1.prems" by blast
    ultimately show ?thesis
      using "1.hyps"(2) 3 "1.prems" strings_Contains_Cons by metis
  qed
qed

lemma blank_token_contains:
  assumes "x \<noteq> []" and "CHR '' '' \<notin> set x" and "strings_Contains (blank_token m tok) x"
  shows "strings_Contains m x"
proof -
  consider "blank_token m tok = m" | "blank_token m tok = strings_ReplaceAll m tok '' ''"
    | enc where "blank_token m tok = strings_ReplaceAll (strings_ReplaceAll m tok '' '') enc '' ''"
    by (cases "length tok < 3"; cases "refPathEscaper tok = tok") (simp_all add: blank_token_def Let_def)
  then show ?thesis
    by cases (use assms(3) ReplaceAll_contains[OF assms(1,2)] in metis)+
qed

lemma blank_token_removes:
  assumes "3 \<le> length tok" and "CHR '' '' \<notin> set tok"
  shows "\<not> strings_Contains (blank_token m tok) tok"
proof -
  have ne: "tok \<noteq> []" using assms by auto
  have one: "\<not> strings_Contains (strings_ReplaceAll m tok '' '') tok"
    by (rule ReplaceAll_removes[OF ne assms(2)])
  then have two: "\<not> strings_Contains (strings_ReplaceAll (strings_ReplaceAll m tok '' '') enc '' '') tok" for enc
    using ReplaceAll_contains[OF ne assms(2)] by blast
  show ?thesis using assms(1) one two by (simp add: blank_token_def Let_def)
qed

lemma foldl_blank_contains:
  "x \<noteq> [] \<Longrightarrow> CHR '' '' \<notin> set x \<Longrightarrow> strings_Contains (foldl blank_token m toks) x
   \<Longrightarrow> strings_Contains m x"
  by (induction toks arbitrary: m) (auto dest: blank_token_contains)

lemma foldl_blank_removes:
  assumes "tok \<in> set toks" and "3 \<le> length tok" and "CHR '' '' \<notin> set tok"
  shows "\<not> strings_Contains (foldl blank_token m toks) tok"
  using assms(1)
proof (induction toks arbitrary: m)
  case (Cons t toks)
  have ne: "tok \<noteq> []" using assms(2) by auto
  show ?case
  proof (cases "t = tok")
    case True
    then have "\<not> strings_Contains (blank_token m t) tok"
      using blank_token_removes[OF assms(2,3)] by simp
    then show ?thesis using foldl_blank_contains[OF ne assms(3)] by (metis foldl_Cons)
  qed (use Cons in simp)
qed simp

lemma refTokens_sub: "t \<in> set (refTokens ref) \<Longrightarrow> set t \<subseteq> set ref"
  by (auto simp: refTokens_def Let_def split: option.splits if_splits prod.splits
      dest!: in_set_takeD in_set_dropD)

lemma lower_space: "CHR '' '' \<in> set (strings_ToLower s) \<longleftrightarrow> CHR '' '' \<in> set s"
proof -
  have lc: "lower_char c = CHR '' '' \<longleftrightarrow> c = CHR '' ''" for c
  proof
    assume l: "lower_char c = CHR '' ''"
    show "c = CHR '' ''"
    proof (cases "65 \<le> (of_char c :: nat) \<and> (of_char c :: nat) \<le> 90")
      case True
      then have "of_char (lower_char c) = (of_char c :: nat) + 32"
        by (simp add: lower_char_def Let_def of_char_of)
      then show ?thesis using l True by simp
    qed (use l in \<open>auto simp: lower_char_def Let_def\<close>)
  qed (simp add: lower_char_def)
  show ?thesis unfolding strings_ToLower_def set_map image_iff using lc by metis
qed

text \<open>
  Nothing of the image reference is left in the text the markers are matched against. When a
  message quotes a reference without spaces, neither the reference nor its name, repository, path,
  digest or tag (three characters or longer) occurs in \<open>classificationText\<close>, so a repository or
  tag whose name reads like an error cannot classify the failure; and blanking adds no word the
  lower-cased message did not have.
\<close>

theorem classification_ignores_reference:
  assumes "quotedImageRef message = Some ref" and "CHR '' '' \<notin> set ref"
    and "tok \<in> set (refTokens (strings_ToLower ref))" and "3 \<le> length tok"
    and "w \<noteq> []" and "CHR '' '' \<notin> set w" and "strings_Contains (classificationText message) w"
  shows "\<not> strings_Contains (classificationText message) tok
       \<and> strings_Contains (strings_ToLower message) w"
proof -
  have "CHR '' '' \<notin> set tok"
    using refTokens_sub[OF assms(3)] assms(2) lower_space by blast
  moreover have eq: "classificationText message =
      foldl blank_token (strings_ToLower message) (refTokens (strings_ToLower ref))"
    using assms(1) by (simp add: classificationText_def)
  ultimately show ?thesis
    using foldl_blank_removes[OF assms(3,4)] foldl_blank_contains[OF assms(5,6)] assms(7) by metis
qed

theorem classification_ignores_reference_witness:
  "let msg = ''Failed to pull image '' @ [dquote] @ ''denied-team/app:v1'' @ [dquote] @ '': 429 toomanyrequests''
   in \<not> strings_Contains (classificationText msg) ''denied-team/app''
      \<and> strings_Contains (strings_ToLower msg) ''toomanyrequests''
      \<and> ClassifyPullFailure msg = PullClassRetryable"
proof -
  let ?msg = "''Failed to pull image '' @ [dquote] @ ''denied-team/app:v1'' @ [dquote] @ '': 429 toomanyrequests''"
  have "quotedImageRef ?msg = Some ''denied-team/app:v1''" by code_simp
  moreover have "''denied-team/app'' \<in> set (refTokens (strings_ToLower ''denied-team/app:v1''))" by code_simp
  moreover have "strings_Contains (classificationText ?msg) ''toomanyrequests''" by code_simp
  moreover have "ClassifyPullFailure ?msg = PullClassRetryable" by code_simp
  ultimately show ?thesis
    using classification_ignores_reference
      [of ?msg "''denied-team/app:v1''" "''denied-team/app''" "''toomanyrequests''"]
    by (simp add: Let_def)
qed

subsection \<open>Where an inherited cause comes from\<close>

definition memo_step :: "PullClassMemo \<Rightarrow> gotime \<Rightarrow> Signal \<Rightarrow> PullClassMemo" where
  "memo_step m now sig = (case snd (Resolve (Some m) now sig) of Some m' \<Rightarrow> m' | None \<Rightarrow> m)"

fun memo_run :: "PullClassMemo \<Rightarrow> (gotime \<times> Signal) list \<Rightarrow> PullClassMemo" where
  "memo_run m [] = m"
| "memo_run m ((t, s) # evs) = memo_run (memo_step m t s) evs"

text \<open>The evidence one entry stands for: the event that recorded it, and how far it may speak.\<close>

definition entry_origin :: "causeScope \<Rightarrow> pullMemoEntry \<Rightarrow> gotime \<times> Signal \<Rightarrow> bool" where
  "entry_origin s e ev =
     (pe_at e = fst ev \<and> pe_class e = ClassifyPullFailure (te_Message (snd ev))
      \<and> (s = object_scope (snd ev) \<and> pe_ttl e = defaultPullMemoTTL
         \<or> host_scope (snd ev) = Some s \<and> pe_class e = PullClassRetryable
           \<and> pe_ttl e = hostPullMemoTTL))"

definition memo_origins :: "(gotime \<times> Signal) set \<Rightarrow> PullClassMemo \<Rightarrow> bool" where
  "memo_origins evs m = (\<forall>(s, e) \<in> set (pm_entries m). \<exists>ev \<in> evs. entry_origin s e ev)"

lemma memo_evictIfFull_sub: "set (pm_entries (memo_evictIfFull m now)) \<subseteq> set (pm_entries m)"
  by (auto simp: memo_evictIfFull_def Let_def split: option.splits if_splits
      dest!: set_gdel[THEN subsetD])

lemma memo_lookup_sub:
  "memo_lookup m s now = (r, m') \<Longrightarrow> set (pm_entries m') \<subseteq> set (pm_entries m)"
  using set_gdel by (fastforce simp: memo_lookup_def split: option.splits if_splits)

lemma memo_lookup_Some:
  "memo_lookup m s now = (Some p, m') \<Longrightarrow>
   (s, p) \<in> set (pm_entries m) \<and> \<not> memo_expired now p \<and> m' = m"
  by (auto simp: memo_lookup_def split: option.splits if_splits dest: map_of_SomeD)

lemma memo_record_sub:
  "set (pm_entries (memo_record m now sig class cause)) \<subseteq>
     set (pm_entries m)
     \<union> {(object_scope sig, \<lparr>pe_class = class, pe_cause = cause, pe_at = now, pe_ttl = defaultPullMemoTTL\<rparr>)}
     \<union> {(h, \<lparr>pe_class = class, pe_cause = cause, pe_at = now, pe_ttl = hostPullMemoTTL\<rparr>) | h.
          host_scope sig = Some h \<and> class = PullClassRetryable}"
  by (auto simp: memo_record_def Let_def split: option.splits if_splits
      dest!: set_gput[THEN subsetD] memo_evictIfFull_sub[THEN subsetD])

lemma memo_inherit_sub:
  "memo_inherit m now sig c0 cs0 = (r, m') \<Longrightarrow> set (pm_entries m') \<subseteq> set (pm_entries m)"
  by (auto simp: memo_inherit_def Let_def split: prod.splits option.splits if_splits
      dest!: memo_lookup_sub)

lemma memo_step_origins:
  assumes "memo_origins evs m"
  shows "memo_origins (insert (now, sig) evs) (memo_step m now sig)"
proof -
  let ?c = "ClassifyPullFailure (te_Message sig)"
  have mono: "memo_origins (insert (now, sig) evs) m'"
    if "set (pm_entries m') \<subseteq> set (pm_entries m)" for m'
    using assms that unfolding memo_origins_def by blast
  have rec: "memo_origins (insert (now, sig) evs) (memo_record m now sig ?c cause)" for cause
    unfolding memo_origins_def
  proof (intro ballI, clarify)
    fix s e
    assume "(s, e) \<in> set (pm_entries (memo_record m now sig ?c cause))"
    then consider "(s, e) \<in> set (pm_entries m)" | "entry_origin s e (now, sig)"
      using memo_record_sub[of m now sig ?c cause] by (auto simp: entry_origin_def)
    then show "\<exists>ev \<in> insert (now, sig) evs. entry_origin s e ev"
      using assms by cases (auto simp: memo_origins_def)
  qed
  show ?thesis
    using rec mono memo_inherit_sub
    by (auto simp: memo_step_def Resolve_def Let_def split: prod.splits)
qed

lemma memo_run_origins:
  "memo_origins evs0 m \<Longrightarrow> memo_origins (set evs \<union> evs0) (memo_run m evs)"
proof (induction evs arbitrary: m evs0)
  case (Cons ev evs)
  obtain t s where ev: "ev = (t, s)" by (cases ev)
  have "memo_origins (set evs \<union> insert (t, s) evs0) (memo_run (memo_step m t s) evs)"
    by (rule Cons.IH[OF memo_step_origins[OF Cons.prems]])
  then show ?case using ev by simp
qed simp

lemma memo_run_New_origins: "memo_origins (set evs) (memo_run NewPullClassMemo evs)"
  using memo_run_origins[of "{}" NewPullClassMemo evs]
  by (simp add: memo_origins_def NewPullClassMemo_def)

lemma host_scope_eq:
  "host_scope s1 = Some h \<Longrightarrow> host_scope s2 = Some h \<Longrightarrow>
   RegistryHost (te_Message s1) = RegistryHost (te_Message s2)"
  by (auto simp: host_scope_def Let_def split: if_splits)

lemma memo_inherit_class:
  assumes "memo_inherit m now sig c0 cs0 = ((c, cause), m')"
  shows "c = c0 \<or> (\<exists>s p. (s, p) \<in> set (pm_entries m) \<and> \<not> memo_expired now p \<and> pe_class p = c
           \<and> (s = object_scope sig \<or> host_scope sig = Some s))"
  using assms
  by (auto simp: memo_inherit_def Let_def split: prod.splits option.splits if_splits
      dest!: memo_lookup_Some dest: memo_lookup_sub)

lemma object_not_host: "host_scope s1 \<noteq> Some (object_scope s2)"
  by (auto simp: host_scope_def object_scope_def Let_def)

text \<open>
  A verdict a causeless message inherits always has a witness. After any sequence of signals,
  if \<open>Resolve\<close> answers a class that the message itself does not show, then some earlier signal of
  the sequence stated exactly that class, either about the same object and at most ten minutes
  ago, or, for a retryable cause only, about an image of the same registry host and at most two
  minutes ago. A terminal verdict is never inherited from another object.
\<close>

theorem inherited_class_has_origin:
  assumes "fst (fst (Resolve (Some (memo_run NewPullClassMemo evs)) now sig)) = c"
    and "CanonicalReasonForEvent (ek_Reason (te_Key sig)) (te_Message sig) = ''ImagePullBackOff''"
    and "ClassifyPullFailure (te_Message sig) \<noteq> c"
  shows "\<exists>(t, s) \<in> set evs. ClassifyPullFailure (te_Message s) = c
           \<and> (ek_UID (te_Key s) = ek_UID (te_Key sig) \<and> now - t \<le> 10 * Minute
              \<or> c = PullClassRetryable \<and> RegistryHost (te_Message s) = RegistryHost (te_Message sig)
                \<and> now - t \<le> 2 * Minute)"
proof -
  let ?m = "memo_run NewPullClassMemo evs"
  obtain cs cause m' where "memo_inherit ?m now sig (ClassifyPullFailure (te_Message sig)) cs = ((c, cause), m')"
    using assms by (fastforce simp: Resolve_def Let_def split: prod.splits if_splits)
  then obtain s p where sp: "(s, p) \<in> set (pm_entries ?m)" "\<not> memo_expired now p" "pe_class p = c"
      and scope: "s = object_scope sig \<or> host_scope sig = Some s"
    using memo_inherit_class assms(3) by blast
  then obtain ev where ev: "ev \<in> set evs" "entry_origin s p ev"
    using memo_run_New_origins[of evs] unfolding memo_origins_def by blast
  have ages: "pe_ttl p = defaultPullMemoTTL \<Longrightarrow> now - fst ev \<le> 10 * Minute"
      "pe_ttl p = hostPullMemoTTL \<Longrightarrow> now - fst ev \<le> 2 * Minute"
    using sp(2) ev(2)
    by (auto simp: memo_expired_def entry_origin_def defaultPullMemoTTL_def hostPullMemoTTL_def
        time_Sub_def dur_defs)
  consider "s = object_scope (snd ev)" "pe_ttl p = defaultPullMemoTTL"
    | "host_scope (snd ev) = Some s" "c = PullClassRetryable" "pe_ttl p = hostPullMemoTTL"
    using ev(2) sp(3) by (auto simp: entry_origin_def)
  then show ?thesis
  proof cases
    case 1
    then have "ek_UID (te_Key (snd ev)) = ek_UID (te_Key sig)"
      using scope object_not_host by (auto simp: object_scope_def)
    then show ?thesis using ev sp(3) ages(1)[OF 1(2)]
      by (intro bexI[of _ ev]) (auto simp: entry_origin_def)
  next
    case 2
    then have "RegistryHost (te_Message (snd ev)) = RegistryHost (te_Message sig)"
      using scope object_not_host host_scope_eq by blast
    then show ?thesis using ev sp(3) 2 ages(2)[OF 2(3)]
      by (intro bexI[of _ ev]) (auto simp: entry_origin_def)
  qed
qed

text \<open>Two pods pulling from one registry: the first states the cause, the second does not.\<close>

definition rate_limited_signal :: Signal where
  "rate_limited_signal = zero_signal
     \<lparr>te_Key := \<lparr>ek_UID = ''uid-a'', ek_Reason = ''Failed''\<rparr>,
      te_Message := ''Failed to pull image '' @ [dquote] @ ''r.io/a:v1'' @ [dquote] @ '': toomanyrequests''\<rparr>"

definition bare_backoff_signal :: Signal where
  "bare_backoff_signal = zero_signal
     \<lparr>te_Key := \<lparr>ek_UID = ''uid-b'', ek_Reason = ''BackOff''\<rparr>,
      te_Message := ''Back-off pulling image '' @ [dquote] @ ''r.io/b:v1'' @ [dquote]\<rparr>"

theorem inherited_class_has_origin_witness:
  "\<exists>(t, s) \<in> set [(1000, rate_limited_signal)].
     ClassifyPullFailure (te_Message s) = PullClassRetryable
     \<and> (ek_UID (te_Key s) = ek_UID (te_Key bare_backoff_signal) \<and> 2000 - t \<le> 10 * Minute
        \<or> PullClassRetryable = PullClassRetryable
          \<and> RegistryHost (te_Message s) = RegistryHost (te_Message bare_backoff_signal)
          \<and> 2000 - t \<le> 2 * Minute)"
proof (rule inherited_class_has_origin[of "[(1000, rate_limited_signal)]" 2000 bare_backoff_signal])
  show "fst (fst (Resolve (Some (memo_run NewPullClassMemo [(1000, rate_limited_signal)])) 2000
          bare_backoff_signal)) = PullClassRetryable" by code_simp
  show "CanonicalReasonForEvent (ek_Reason (te_Key bare_backoff_signal)) (te_Message bare_backoff_signal)
          = ''ImagePullBackOff''" by code_simp
  show "ClassifyPullFailure (te_Message bare_backoff_signal) \<noteq> PullClassRetryable" by code_simp
qed

subsection \<open>The size of the memo\<close>

lemma memo_evictIfFull_full:
  assumes "gokeys (pm_entries m)" and "\<forall>(s, e) \<in> set (pm_entries m). \<not> memo_expired now e"
    and "pm_max m \<le> length (pm_entries m)" and "0 < pm_max m"
  shows "Suc (length (pm_entries (memo_evictIfFull m now))) = length (pm_entries m)"
proof -
  let ?es = "pm_entries m"
  let ?scan = "scan_best (\<lambda>x y. pe_at (snd x) < pe_at (snd y)) None ?es"
  have live: "filter (\<lambda>(s, e). \<not> memo_expired now e) ?es = ?es"
    using assms(2) by (simp add: filter_id_conv)
  have "?es \<noteq> []" using assms(3,4) by auto
  then have "?scan \<noteq> None" by simp
  then obtain old where old: "?scan = Some old" by blast
  then have mem: "old \<in> set ?es" using scan_best_mem by fastforce
  have "pm_entries (memo_evictIfFull m now) = gdel (fst old) ?es"
    using old live assms(3) by (auto simp: memo_evictIfFull_def Let_def split: prod.splits)
  then show ?thesis using length_gdel[OF assms(1)] mem by force
qed

text \<open>
  C40: the memo's cap is not a bound. A cause-bearing retryable failure evicts one entry and then
  stores two, one for the object and one for the registry host; on a full memo whose entries are
  all still fresh, a failure of a new object on a new host therefore leaves the memo one entry
  larger than before, however far beyond its cap it already is.
\<close>

theorem memo_grows_past_cap:
  assumes "gokeys (pm_entries m)" and "\<forall>(s, e) \<in> set (pm_entries m). \<not> memo_expired now e"
    and "pm_max m \<le> length (pm_entries m)" and "0 < pm_max m"
    and "CanonicalReasonForEvent (ek_Reason (te_Key sig)) (te_Message sig) = ''ImagePullBackOff''"
    and "ClassifyPullFailure (te_Message sig) = PullClassRetryable"
    and "host_scope sig = Some h" and "h \<notin> fst ` set (pm_entries m)"
    and "object_scope sig \<notin> fst ` set (pm_entries m)"
  shows "length (pm_entries (memo_step m now sig)) = Suc (length (pm_entries m))"
proof -
  let ?es = "pm_entries (memo_evictIfFull m now)"
  have sub: "fst ` set ?es \<subseteq> fst ` set (pm_entries m)"
    using memo_evictIfFull_sub by (rule image_mono)
  have "length (pm_entries (memo_record m now sig PullClassRetryable cause)) = Suc (Suc (length ?es))" for cause
    using assms(7-9) sub object_not_host[of sig sig]
    by (auto simp: memo_record_def Let_def length_gput keys_gput)
  then show ?thesis
    using assms(5,6) memo_evictIfFull_full[OF assms(1-4)]
    by (simp add: memo_step_def Resolve_def Let_def)
qed

theorem memo_grows_past_cap_witness:
  "let m = (memo_run (NewPullClassMemo\<lparr>pm_max := 1\<rparr>) [(1000, rate_limited_signal)]);
       sig = bare_backoff_signal\<lparr>te_Message := ''Failed to pull image '' @ [dquote] @ ''q.io/b:v1'' @ [dquote] @ '': toomanyrequests''\<rparr>
   in pm_max m < length (pm_entries m)
      \<and> length (pm_entries (memo_step m 2000 (sig\<lparr>te_Key := \<lparr>ek_UID = ''uid-b'', ek_Reason = ''ErrImagePull''\<rparr>\<rparr>)))
          = Suc (length (pm_entries m))"
proof -
  let ?m = "memo_run (NewPullClassMemo\<lparr>pm_max := 1\<rparr>) [(1000, rate_limited_signal)]"
  let ?s = "bare_backoff_signal\<lparr>te_Message := ''Failed to pull image '' @ [dquote] @ ''q.io/b:v1'' @ [dquote] @ '': toomanyrequests'', te_Key := \<lparr>ek_UID = ''uid-b'', ek_Reason = ''ErrImagePull''\<rparr>\<rparr>"
  let ?h = "\<lparr>cs_kind = scopeRegistryHost, cs_id = ''q.io''\<rparr>"
  have "gokeys (pm_entries ?m)" by code_simp
  moreover have "\<forall>(s, e) \<in> set (pm_entries ?m). \<not> memo_expired 2000 e" by code_simp
  moreover have "pm_max ?m < length (pm_entries ?m)" and "0 < pm_max ?m" by code_simp+
  moreover have "CanonicalReasonForEvent (ek_Reason (te_Key ?s)) (te_Message ?s) = ''ImagePullBackOff''"
    by code_simp
  moreover have "ClassifyPullFailure (te_Message ?s) = PullClassRetryable" by code_simp
  moreover have "host_scope ?s = Some ?h" and "?h \<notin> fst ` set (pm_entries ?m)"
    and "object_scope ?s \<notin> fst ` set (pm_entries ?m)" by code_simp+
  ultimately show ?thesis
    using memo_grows_past_cap[of ?m 2000 ?s ?h] by (simp add: Let_def)
qed

end
