(* ===== verification/EventFilter.thy ===== *)
theory EventFilter
  imports PullFailure
begin

section \<open>The event filter\<close>

text \<open>
  \<^verbatim>\<open>pkg/engine/filter.go\<close>: the configuration built from the command line and the decision
  whether a signal goes on to dedup, with the name of the gate that rejected it. A Go set
  (\<^verbatim>\<open>map[string]struct{}\<close>) is the list of its members, and a nil set, which the code tells
  apart from an empty one, is \<^const>\<open>None\<close>. The nil receiver of \<^verbatim>\<open>Decide\<close> is \<^const>\<open>None\<close> too.
\<close>

definition defaultReasons :: "string list" where
  "defaultReasons =
     [''CrashLoopBackOff'', ''ImagePullBackOff'', ''ErrImagePull'', ''OOMKilled'', ''FailedMount'',
      ''FailedScheduling'', ''BackOff'', ''Unhealthy'', ''NetworkNotReady'', ''NodeNotReady'', ''Evicted'']"

record FilterConfig =
  fl_allowedReasons :: "string list option"
  fl_allowedNamespaces :: "string list option"
  fl_excludedNamespaces :: "string list option"
  fl_unhealthyMinCount :: int
  fl_backoffMinCount :: int
  fl_imagePullTransientMinCount :: int

definition stringSet :: "string list \<Rightarrow> string list option" where
  "stringSet xs = (if xs = [] then None else Some (remdups (filter (\<lambda>x. x \<noteq> []) xs)))"

definition default_count :: "int \<Rightarrow> int" where
  "default_count n = (if n \<le> 0 then 3 else n)"

definition NewFilterConfig ::
  "string list \<Rightarrow> string list \<Rightarrow> string list \<Rightarrow> int \<Rightarrow> int \<Rightarrow> int \<Rightarrow> FilterConfig" where
  "NewFilterConfig reasons allowNamespaces excludeNamespaces unhealthy backoff pull =
     \<lparr>fl_allowedReasons = stringSet (if reasons = [] then defaultReasons else reasons),
      fl_allowedNamespaces = stringSet allowNamespaces,
      fl_excludedNamespaces = stringSet excludeNamespaces,
      fl_unhealthyMinCount = default_count unhealthy,
      fl_backoffMinCount = default_count backoff,
      fl_imagePullTransientMinCount = default_count pull\<rparr>"

text \<open>Membership in a possibly nil set, and Go's \<^verbatim>\<open>len\<close> of one.\<close>

definition in_set :: "string list option \<Rightarrow> string \<Rightarrow> bool" where
  "in_set s x = (case s of None \<Rightarrow> False | Some xs \<Rightarrow> x \<in> set xs)"

definition set_len :: "string list option \<Rightarrow> nat" where
  "set_len s = (case s of None \<Rightarrow> 0 | Some xs \<Rightarrow> length xs)"

definition isK8sEventKind :: "string \<Rightarrow> bool" where
  "isK8sEventKind kind = (kind = KindK8sEvent \<or> kind = KindK8sEventFollowup \<or> kind = [])"

definition GateReasonNotAllowed :: string where "GateReasonNotAllowed = ''reason_not_allowed''"
definition GateNamespaceExcluded :: string where "GateNamespaceExcluded = ''namespace_excluded''"
definition GateNamespaceNotAllowed :: string where "GateNamespaceNotAllowed = ''namespace_not_allowed''"
definition GateUnhealthyDebounce :: string where "GateUnhealthyDebounce = ''unhealthy_debounce''"
definition GateCrashLoopDebounce :: string where "GateCrashLoopDebounce = ''crashloop_debounce''"
definition GatePullTransient :: string where "GatePullTransient = ''imagepull_transient_debounce''"

lemmas gate_defs = GateReasonNotAllowed_def GateNamespaceExcluded_def GateNamespaceNotAllowed_def
  GateUnhealthyDebounce_def GateCrashLoopDebounce_def GatePullTransient_def

text \<open>The leading-edge count gates, the fourth rule of \<^verbatim>\<open>Decide\<close>.\<close>

definition debounce :: "FilterConfig \<Rightarrow> Signal \<Rightarrow> bool \<times> string" where
  "debounce cfg sig =
     (let r = CanonicalReasonForEvent (ek_Reason (te_Key sig)) (te_Message sig) in
      if r = ''Unhealthy'' then
        (if te_Count sig < fl_unhealthyMinCount cfg then (False, GateUnhealthyDebounce) else (True, []))
      else if r = ''CrashLoopBackOff'' then
        (if te_Count sig < fl_backoffMinCount cfg then (False, GateCrashLoopDebounce) else (True, []))
      else if r = ''ImagePullBackOff'' then
        (if sg_PullClass sig = PullClassRetryable \<and> te_Count sig < fl_imagePullTransientMinCount cfg
         then (False, GatePullTransient) else (True, []))
      else (True, []))"

definition Decide :: "FilterConfig option \<Rightarrow> Signal \<Rightarrow> bool \<times> string" where
  "Decide f sig =
     (case f of
        None \<Rightarrow> (True, [])
      | Some cfg \<Rightarrow>
          (let eventKind = isK8sEventKind (sg_Kind sig) in
           if eventKind \<and> fl_allowedReasons cfg \<noteq> None
              \<and> \<not> in_set (fl_allowedReasons cfg) (ek_Reason (te_Key sig))
           then (False, GateReasonNotAllowed)
           else if set_len (fl_excludedNamespaces cfg) > 0
              \<and> in_set (fl_excludedNamespaces cfg) (te_Namespace sig)
           then (False, GateNamespaceExcluded)
           else if set_len (fl_allowedNamespaces cfg) > 0
              \<and> \<not> in_set (fl_allowedNamespaces cfg) (te_Namespace sig)
              \<and> (eventKind \<or> te_Namespace sig \<noteq> [])
           then (False, GateNamespaceNotAllowed)
           else if eventKind then debounce cfg sig
           else (True, [])))"

definition Accept :: "FilterConfig option \<Rightarrow> Signal \<Rightarrow> bool" where
  "Accept f sig = fst (Decide f sig)"

subsection \<open>What the filter decides\<close>

text \<open>The three rules on reason and namespace, apart from the count gates.\<close>

definition in_scope :: "FilterConfig \<Rightarrow> Signal \<Rightarrow> bool" where
  "in_scope cfg sig =
     ((isK8sEventKind (sg_Kind sig) \<longrightarrow> fl_allowedReasons cfg = None
          \<or> in_set (fl_allowedReasons cfg) (ek_Reason (te_Key sig)))
      \<and> \<not> in_set (fl_excludedNamespaces cfg) (te_Namespace sig)
      \<and> (set_len (fl_allowedNamespaces cfg) = 0
          \<or> in_set (fl_allowedNamespaces cfg) (te_Namespace sig)
          \<or> \<not> isK8sEventKind (sg_Kind sig) \<and> te_Namespace sig = []))"

lemma in_set_len: "in_set s x \<Longrightarrow> 0 < set_len s"
  by (auto simp: in_set_def set_len_def split: option.splits)

lemma Accept_iff:
  "Accept (Some cfg) sig \<longleftrightarrow>
   in_scope cfg sig \<and> (isK8sEventKind (sg_Kind sig) \<longrightarrow> fst (debounce cfg sig))"
  by (auto simp: Accept_def Decide_def in_scope_def Let_def dest: in_set_len)

lemma debounce_gate:
  "snd (debounce cfg sig) \<in> {[], GateUnhealthyDebounce, GateCrashLoopDebounce, GatePullTransient}
   \<and> (fst (debounce cfg sig) \<longleftrightarrow> snd (debounce cfg sig) = [])"
  by (simp add: debounce_def Let_def gate_defs)

lemma Decide_scope_gate:
  "\<not> in_scope cfg sig \<Longrightarrow>
   snd (Decide (Some cfg) sig) \<in> {GateReasonNotAllowed, GateNamespaceExcluded, GateNamespaceNotAllowed}"
  by (auto simp: Decide_def in_scope_def Let_def dest: in_set_len)

lemma in_scope_count [simp]: "in_scope cfg (sig\<lparr>te_Count := c\<rparr>) = in_scope cfg sig"
  by (simp add: in_scope_def)

text \<open>The count a debounced family has to reach.\<close>

definition debounce_threshold :: "FilterConfig \<Rightarrow> string \<Rightarrow> int" where
  "debounce_threshold cfg gate =
     (if gate = GateUnhealthyDebounce then fl_unhealthyMinCount cfg
      else if gate = GateCrashLoopDebounce then fl_backoffMinCount cfg
      else fl_imagePullTransientMinCount cfg)"

lemma debounce_lifts:
  assumes "\<not> fst (debounce cfg sig)"
  shows "fst (debounce cfg (sig\<lparr>te_Count := c\<rparr>)) \<longleftrightarrow> debounce_threshold cfg (snd (debounce cfg sig)) \<le> c"
  using assms by (auto simp: debounce_def Let_def debounce_threshold_def gate_defs split: if_splits)

text \<open>
  The count gates delay, they never drop. Each of the six gates names one rule, and a signal
  is accepted exactly when no gate is named. A signal rejected by one of the three debounce gates
  is accepted as soon as its event count reaches that gate's threshold, and not before; a signal
  rejected by any other gate is rejected at every count.
\<close>

theorem debounce_only_delays:
  assumes "\<not> Accept (Some cfg) sig"
  shows "snd (Decide (Some cfg) sig) \<noteq> []
       \<and> (if snd (Decide (Some cfg) sig) \<in> {GateUnhealthyDebounce, GateCrashLoopDebounce, GatePullTransient}
          then \<forall>c. Accept (Some cfg) (sig\<lparr>te_Count := c\<rparr>) \<longleftrightarrow>
                 debounce_threshold cfg (snd (Decide (Some cfg) sig)) \<le> c
          else \<forall>c. \<not> Accept (Some cfg) (sig\<lparr>te_Count := c\<rparr>))"
proof (cases "in_scope cfg sig")
  case True
  then have ev: "isK8sEventKind (sg_Kind sig)" and rej: "\<not> fst (debounce cfg sig)"
    using assms by (auto simp: Accept_iff)
  have eq: "Decide (Some cfg) sig = debounce cfg sig"
    using True ev by (auto simp: Decide_def in_scope_def Let_def dest: in_set_len)
  have "snd (debounce cfg sig) \<in> {GateUnhealthyDebounce, GateCrashLoopDebounce, GatePullTransient}"
    and "snd (debounce cfg sig) \<noteq> []"
    using debounce_gate[of cfg sig] rej by auto
  then show ?thesis
    using True ev debounce_lifts[OF rej] by (simp add: eq Accept_iff)
next
  case False
  have "snd (Decide (Some cfg) sig) \<notin> {GateUnhealthyDebounce, GateCrashLoopDebounce, GatePullTransient}
        \<and> snd (Decide (Some cfg) sig) \<noteq> []"
    using Decide_scope_gate[OF False] by (auto simp: gate_defs)
  then show ?thesis using False by (simp add: Accept_iff)
qed

definition crash_signal :: Signal where
  "crash_signal = zero_signal
     \<lparr>te_Key := \<lparr>ek_UID = ''uid-c'', ek_Reason = ''BackOff''\<rparr>, te_Count := 1, te_Namespace := ''prod'',
      te_Message := ''Back-off restarting failed container''\<rparr>"

theorem debounce_only_delays_witness:
  "\<not> Accept (Some (NewFilterConfig [] [] [] 0 0 0)) crash_signal
   \<and> Accept (Some (NewFilterConfig [] [] [] 0 0 0)) (crash_signal\<lparr>te_Count := 3\<rparr>)"
proof -
  let ?f = "NewFilterConfig [] [] [] 0 0 0"
  have rej: "\<not> Accept (Some ?f) crash_signal" by code_simp
  moreover have "snd (Decide (Some ?f) crash_signal) = GateCrashLoopDebounce" by code_simp
  moreover have "debounce_threshold ?f GateCrashLoopDebounce = 3" by code_simp
  ultimately show ?thesis using debounce_only_delays[OF rej] by auto
qed

text \<open>
  A bad image fires on its first event. Take the signal as the dispatcher hands it to the
  filter, with the class \<open>Resolve\<close> gave it. An image-pull failure in scope is accepted at every
  count, the first included, unless the class is retryable; in particular whenever its own message
  is terminal, whatever the memo holds; and a signal outside the image-pull family is never held
  by the image-pull gate.
\<close>

theorem terminal_pull_fires_at_once:
  assumes "in_scope cfg sig"
    and "sg_PullClass sig = fst (fst (Resolve memo now sig))"
  shows "(CanonicalReasonForEvent (ek_Reason (te_Key sig)) (te_Message sig) = ''ImagePullBackOff''
          \<longrightarrow> ClassifyPullFailure (te_Message sig) = PullClassTerminal
              \<or> sg_PullClass sig \<noteq> PullClassRetryable
          \<longrightarrow> Accept (Some cfg) sig)
       \<and> (CanonicalReasonForEvent (ek_Reason (te_Key sig)) (te_Message sig) \<noteq> ''ImagePullBackOff''
          \<longrightarrow> snd (Decide (Some cfg) sig) \<noteq> GatePullTransient)"
proof (intro conjI impI)
  assume fam: "CanonicalReasonForEvent (ek_Reason (te_Key sig)) (te_Message sig) = ''ImagePullBackOff''"
    and cls: "ClassifyPullFailure (te_Message sig) = PullClassTerminal \<or> sg_PullClass sig \<noteq> PullClassRetryable"
  have "sg_PullClass sig \<noteq> PullClassRetryable"
  proof (cases "ClassifyPullFailure (te_Message sig) = PullClassTerminal")
    case True
    then have "sg_PullClass sig = PullClassTerminal"
      using fam assms(2) by (simp add: Resolve_def Let_def split: option.splits)
    then show ?thesis by simp
  qed (use cls in simp)
  then show "Accept (Some cfg) sig"
    using fam assms(1) by (simp add: Accept_iff debounce_def Let_def)
next
  assume "CanonicalReasonForEvent (ek_Reason (te_Key sig)) (te_Message sig) \<noteq> ''ImagePullBackOff''"
  then show "snd (Decide (Some cfg) sig) \<noteq> GatePullTransient"
    using assms(1) by (auto simp: Decide_def in_scope_def debounce_def Let_def gate_defs)
qed

definition bad_tag_signal :: Signal where
  "bad_tag_signal = zero_signal
     \<lparr>te_Key := \<lparr>ek_UID = ''uid-t'', ek_Reason = ''ErrImagePull''\<rparr>, te_Count := 1, te_Namespace := ''prod'',
      te_Message := ''manifest unknown'', sg_PullClass := PullClassTerminal\<rparr>"

theorem terminal_pull_fires_at_once_witness:
  "Accept (Some (NewFilterConfig [] [] [] 0 0 0)) bad_tag_signal"
proof -
  have "in_scope (NewFilterConfig [] [] [] 0 0 0) bad_tag_signal" by code_simp
  moreover have "sg_PullClass bad_tag_signal = fst (fst (Resolve None 0 bad_tag_signal))" by code_simp
  moreover have "CanonicalReasonForEvent (ek_Reason (te_Key bad_tag_signal)) (te_Message bad_tag_signal)
      = ''ImagePullBackOff''" by code_simp
  moreover have "ClassifyPullFailure (te_Message bad_tag_signal) = PullClassTerminal" by code_simp
  ultimately show ?thesis using terminal_pull_fires_at_once by blast
qed

text \<open>
  No command line makes the reason allow-list mean ``everything''. An empty list of reasons
  is replaced by the shipped defaults, and a list of blank reasons becomes an empty set, which the
  filter tells apart from a nil one and which rejects every Kubernetes event; in both cases an
  event whose reason is not a shipped default is rejected.
\<close>

theorem empty_allow_list_rejects:
  assumes "set reasons \<subseteq> {[]}" and "isK8sEventKind (sg_Kind sig)"
    and "ek_Reason (te_Key sig) \<notin> set defaultReasons"
  shows "Decide (Some (NewFilterConfig reasons ans ens u b p)) sig = (False, GateReasonNotAllowed)"
proof -
  let ?f = "NewFilterConfig reasons ans ens u b p"
  have "filter (\<lambda>x. x \<noteq> []) reasons = []" using assms(1) by (auto simp: filter_empty_conv)
  moreover have "[] \<notin> set defaultReasons" by (simp add: defaultReasons_def)
  ultimately obtain xs where xs: "fl_allowedReasons ?f = Some xs" "set xs \<subseteq> set defaultReasons"
    by (cases "reasons = []") (auto simp: NewFilterConfig_def stringSet_def defaultReasons_def)
  then have "ek_Reason (te_Key sig) \<notin> set xs" using assms(3) by blast
  then show ?thesis
    using assms(2) xs(1) by (simp add: Decide_def Let_def in_set_def)
qed

theorem empty_allow_list_rejects_witness:
  "Decide (Some (NewFilterConfig [''''] [] [] 0 0 0)) (zero_signal\<lparr>te_Key := \<lparr>ek_UID = ''u'', ek_Reason = ''Preempted''\<rparr>\<rparr>)
     = (False, GateReasonNotAllowed)"
  by (rule empty_allow_list_rejects) code_simp+

end
