(* ===== verification/Repeat.thy ===== *)
theory Repeat
  imports Signal
begin

section \<open>The dedup entry and the repeat schedule\<close>

text \<open>
  \<^verbatim>\<open>pkg/engine/repeat.go\<close> and the entry types of \<^verbatim>\<open>dedup.go\<close>. The embedded struct
  \<^verbatim>\<open>repeatState\<close> is the base record that \<open>dedupEntry\<close> extends. The methods mutate the entry
  through a pointer, so each returns the updated entry; \<^verbatim>\<open>repeat\<close>, which the code calls with the
  cache lock held, returns the verdict and the entry, and takes the window it reads from the cache.
  Rates are rational numbers.
\<close>

subsection \<open>The entry\<close>

record repeatState =
  rs_SessionClass :: bool
  rs_Resolved :: bool
  rs_RepeatCount :: int
  rs_Step :: int
  rs_LastInjectAt :: gotime
  rs_InjectCount :: int
  rs_RatePerHour :: rat
  rs_Classes :: "string list"
  rs_PendingChange :: bool
  rs_Undelivered :: bool
  rs_LastChange :: string

record dedupEntry = repeatState +
  de_SessionID :: string
  de_FirstSeen :: gotime
  de_LastSeen :: gotime
  de_EventLastTS :: gotime
  de_Count :: int
  de_Incident :: "IncidentRef option"
  de_Storm :: string
  de_SourceKind :: string
  de_FollowupSources :: "string list"
  de_AncestorKeys :: "string list"
  de_Parent :: "EventKey option"

datatype DedupResultKind = DedupNewIncident | DedupDuplicate | DedupRepeat

record DedupResult =
  dr_Kind :: DedupResultKind
  dr_SessionID :: string
  dr_Count :: int
  dr_Storm :: string
  dr_RepeatCount :: int
  dr_Change :: string
  dr_Absorbed :: bool
  dr_Replay :: bool

definition zero_result :: DedupResult where
  "zero_result =
     \<lparr>dr_Kind = DedupNewIncident, dr_SessionID = [], dr_Count = 0, dr_Storm = [],
      dr_RepeatCount = 0, dr_Change = [], dr_Absorbed = False, dr_Replay = False\<rparr>"

definition RepeatChangeClass :: string where "RepeatChangeClass = ''class''"
definition RepeatChangeRate :: string where "RepeatChangeRate = ''rate''"
definition RepeatChangeOpen :: string where "RepeatChangeOpen = ''open''"

lemmas change_defs = RepeatChangeClass_def RepeatChangeRate_def RepeatChangeOpen_def

definition newRepeatState :: "gotime \<Rightarrow> bool \<Rightarrow> string \<Rightarrow> repeatState" where
  "newRepeatState now repeatable class =
     \<lparr>rs_SessionClass = repeatable, rs_Resolved = False, rs_RepeatCount = 0, rs_Step = 0,
      rs_LastInjectAt = now, rs_InjectCount = 1, rs_RatePerHour = 0, rs_Classes = [class],
      rs_PendingChange = False, rs_Undelivered = False, rs_LastChange = RepeatChangeOpen\<rparr>"

definition markUndelivered :: "string \<Rightarrow> 'a repeatState_scheme \<Rightarrow> 'a repeatState_scheme" where
  "markUndelivered change r = r\<lparr>rs_Undelivered := True, rs_LastChange := change\<rparr>"

definition markResolved :: "'a repeatState_scheme \<Rightarrow> 'a repeatState_scheme" where
  "markResolved r = r\<lparr>rs_Resolved := True\<rparr>"

definition resetForUnbind :: "gotime \<Rightarrow> int \<Rightarrow> 'a repeatState_scheme \<Rightarrow> 'a repeatState_scheme" where
  "resetForUnbind now count r =
     r\<lparr>rs_RepeatCount := 0, rs_Step := 0, rs_RatePerHour := 0, rs_PendingChange := False,
       rs_Undelivered := False, rs_LastChange := RepeatChangeOpen, rs_LastInjectAt := now,
       rs_InjectCount := count\<rparr>"

definition recordRateJump ::
  "gotime \<Rightarrow> int \<Rightarrow> rat \<Rightarrow> 'a repeatState_scheme \<Rightarrow> 'a repeatState_scheme" where
  "recordRateJump now count rate r =
     r\<lparr>rs_RatePerHour := rate, rs_RepeatCount := 0, rs_Step := 0, rs_LastChange := RepeatChangeRate,
       rs_LastInjectAt := now, rs_InjectCount := count, rs_PendingChange := False\<rparr>"

definition recordClassChange :: "gotime \<Rightarrow> int \<Rightarrow> 'a repeatState_scheme \<Rightarrow> 'a repeatState_scheme" where
  "recordClassChange now count r =
     r\<lparr>rs_RepeatCount := 0, rs_Step := rs_Step r + 1, rs_LastChange := RepeatChangeClass,
       rs_LastInjectAt := now, rs_InjectCount := count, rs_PendingChange := False\<rparr>"

definition recordReminder ::
  "gotime \<Rightarrow> int \<Rightarrow> rat \<Rightarrow> 'a repeatState_scheme \<Rightarrow> int \<times> 'a repeatState_scheme" where
  "recordReminder now count rate r =
     (let r' = r\<lparr>rs_RatePerHour := rate, rs_RepeatCount := rs_RepeatCount r + 1, rs_Step := rs_Step r + 1,
                 rs_LastChange := [], rs_LastInjectAt := now, rs_InjectCount := count,
                 rs_PendingChange := False\<rparr>
      in (rs_RepeatCount r', r'))"

subsection \<open>The class of a signal\<close>

definition is_digit :: "char \<Rightarrow> bool" where
  "is_digit ch = (let n = (of_char ch :: nat) in 48 \<le> n \<and> n \<le> 57)"

text \<open>The loop of \<^verbatim>\<open>messageShape\<close>, with its flag \<open>digits\<close>.\<close>

fun shape_loop :: "bool \<Rightarrow> string \<Rightarrow> string" where
  "shape_loop digits [] = []"
| "shape_loop digits (ch # msg) =
     (if is_digit ch
      then (if \<not> digits then CHR ''#'' # shape_loop True msg else shape_loop True msg)
      else ch # shape_loop False msg)"

definition messageShape :: "string \<Rightarrow> string" where
  "messageShape msg = shape_loop False msg"

definition repeatClass :: "string \<Rightarrow> Severity \<Rightarrow> string \<Rightarrow> string" where
  "repeatClass kind sev message =
     format_hex (fnv64a (kind @ [NUL] @ sev @ [NUL] @ messageShape message))"

definition maxRepeatClasses :: nat where "maxRepeatClasses = 16"

definition noteClass :: "string \<Rightarrow> 'a repeatState_scheme \<Rightarrow> bool \<times> 'a repeatState_scheme" where
  "noteClass class e =
     (if class \<in> set (rs_Classes e) then (False, e)
      else
        (let cs = rs_Classes e @ [class];
             cs' = (if length cs > maxRepeatClasses then drop (length cs - maxRepeatClasses) cs else cs)
         in (rs_Classes e \<noteq> [], e\<lparr>rs_Classes := cs'\<rparr>)))"

subsection \<open>The schedule\<close>

definition repeatIntervalCap :: duration where "repeatIntervalCap = Hour"
definition repeatJumpFactor :: rat where "repeatJumpFactor = 4"
definition repeatJumpMin :: int where "repeatJumpMin = 10"

text \<open>The doubling loop, run at most \<open>k\<close> times, in 64-bit arithmetic.\<close>

fun interval_loop :: "duration \<Rightarrow> nat \<Rightarrow> duration \<Rightarrow> duration" where
  "interval_loop limit 0 d = d"
| "interval_loop limit (Suc k) d = (if d < limit then interval_loop limit k (wrap64 (d * 2)) else d)"

definition repeatInterval :: "duration \<Rightarrow> int \<Rightarrow> duration" where
  "repeatInterval window n =
     (let limit = max repeatIntervalCap window
      in min (interval_loop limit (nat (n - 1)) window) limit)"

definition markInject :: "gotime \<Rightarrow> dedupEntry \<Rightarrow> dedupEntry" where
  "markInject now e =
     e\<lparr>rs_LastInjectAt := now, rs_InjectCount := de_Count e, rs_PendingChange := False\<rparr>"

definition rateSinceInject :: "gotime \<Rightarrow> dedupEntry \<Rightarrow> rat" where
  "rateSinceInject now e =
     (let hours = of_int (time_Sub now (rs_LastInjectAt e)) / of_int Hour :: rat
      in if hours \<le> 0 then 0 else of_int (de_Count e - rs_InjectCount e) / hours)"

definition countJump :: "gotime \<Rightarrow> dedupEntry \<Rightarrow> bool" where
  "countJump now e =
     (if rs_RatePerHour e \<le> 0 \<or> de_Count e - rs_InjectCount e < repeatJumpMin then False
      else if \<not> now > rs_LastInjectAt e then True
      else rateSinceInject now e \<ge> repeatJumpFactor * rs_RatePerHour e)"

text \<open>An entry of a snapshot that predates the schedule.\<close>

definition legacy_inject :: "dedupEntry \<Rightarrow> dedupEntry" where
  "legacy_inject e =
     (if IsZero (rs_LastInjectAt e)
      then e\<lparr>rs_LastInjectAt := de_FirstSeen e, rs_InjectCount := de_Count e\<rparr> else e)"

text \<open>Recording the occurrence: counters, times and the class.\<close>

definition note_occurrence ::
  "duration \<Rightarrow> gotime \<Rightarrow> gotime \<Rightarrow> string \<Rightarrow> dedupEntry \<Rightarrow> dedupEntry" where
  "note_occurrence window now eventLastTS class e =
     (let e1 = e\<lparr>de_Count := de_Count e + 1, de_LastSeen := now, de_EventLastTS := eventLastTS\<rparr>;
          (changed, e2) = noteClass class e1
      in if changed \<and> time_Sub now (de_FirstSeen e2) > window
         then e2\<lparr>rs_PendingChange := True\<rparr> else e2)"

definition repeat_result :: "dedupEntry \<Rightarrow> DedupResult" where
  "repeat_result e =
     zero_result\<lparr>dr_Kind := DedupRepeat, dr_SessionID := de_SessionID e, dr_Storm := de_Storm e\<rparr>"

definition dup_result :: "dedupEntry \<Rightarrow> DedupResult" where
  "dup_result e =
     zero_result\<lparr>dr_Kind := DedupDuplicate, dr_SessionID := de_SessionID e, dr_Count := de_Count e,
                 dr_Storm := de_Storm e\<rparr>"

text \<open>Branch 1 of \<^verbatim>\<open>repeat\<close>: re-sending an undelivered inject.\<close>

definition resend :: "gotime \<Rightarrow> dedupEntry \<Rightarrow> DedupResult \<times> dedupEntry" where
  "resend now e0 =
     (let e = e0\<lparr>rs_Undelivered := False\<rparr>;
          stale = (rs_LastChange e = [] \<and> rs_PendingChange e);
          change = (if stale then RepeatChangeClass else rs_LastChange e);
          e1 = (if stale then e\<lparr>rs_RepeatCount := 0, rs_LastChange := RepeatChangeClass\<rparr> else e);
          rc = (if change = [] then rs_RepeatCount e1 else 0)
      in ((repeat_result e1)\<lparr>dr_Change := change, dr_RepeatCount := rc, dr_Count := de_Count e1\<rparr>,
          markInject now e1))"

text \<open>An entry written before \<^verbatim>\<open>Step\<close> existed: its reminders were its steps.\<close>

definition fix_step :: "dedupEntry \<Rightarrow> dedupEntry" where
  "fix_step e = (if rs_Step e < rs_RepeatCount e then e\<lparr>rs_Step := rs_RepeatCount e\<rparr> else e)"

text \<open>Branches 2 to 6.\<close>

definition schedule ::
  "duration \<Rightarrow> gotime \<Rightarrow> bool \<Rightarrow> bool \<Rightarrow> dedupEntry \<Rightarrow> DedupResult \<times> dedupEntry" where
  "schedule window now inRepeat lapsed e0 =
     (let e = fix_step e0;
          sinceInject = time_Sub now (rs_LastInjectAt e);
          next = rs_RepeatCount e + 1;
          interval = repeatInterval window (rs_Step e + 1);
          result = (repeat_result e)\<lparr>dr_Count := de_Count e\<rparr>;
          dup = dup_result e
      in if inRepeat \<and> countJump now e then
           (result\<lparr>dr_Change := RepeatChangeRate\<rparr>,
            markInject now (e\<lparr>rs_RatePerHour := rateSinceInject now e, rs_RepeatCount := 0, rs_Step := 0,
                              rs_LastChange := RepeatChangeRate\<rparr>))
         else if rs_PendingChange e then
           (if sinceInject > interval then
              (result\<lparr>dr_Change := RepeatChangeClass\<rparr>,
               markInject now (e\<lparr>rs_RepeatCount := 0, rs_Step := rs_Step e + 1,
                                 rs_LastChange := RepeatChangeClass\<rparr>))
            else (dup\<lparr>dr_Absorbed := inRepeat \<or> lapsed\<rparr>, e))
         else if \<not> inRepeat \<and> \<not> lapsed then (dup, e)
         else if sinceInject \<le> interval then (dup\<lparr>dr_Absorbed := True\<rparr>, e)
         else
           (result\<lparr>dr_RepeatCount := next\<rparr>,
            markInject now (e\<lparr>rs_RatePerHour := rateSinceInject now e, rs_RepeatCount := next,
                              rs_Step := rs_Step e + 1, rs_LastChange := []\<rparr>)))"

definition repeat ::
  "duration \<Rightarrow> dedupEntry \<Rightarrow> gotime \<Rightarrow> gotime \<Rightarrow> string \<Rightarrow> bool \<Rightarrow> DedupResult \<times> dedupEntry" where
  "repeat window e now eventLastTS class lapsed =
     (let e0 = legacy_inject e;
          inRepeat = (rs_LastInjectAt e0 > de_FirstSeen e0);
          e1 = note_occurrence window now eventLastTS class e0
      in if rs_Undelivered e1 then resend now e1 else schedule window now inRepeat lapsed e1)"

subsection \<open>The interval\<close>

lemma interval_loop_closed:
  "0 < d \<Longrightarrow> (d < limit \<Longrightarrow> 2 * limit \<le> maxDuration) \<Longrightarrow>
   min (interval_loop limit k d) limit = min (d * 2 ^ k) limit"
proof (induction k arbitrary: d)
  case (Suc k)
  show ?case
  proof (cases "d < limit")
    case True
    then have "wrap64 (d * 2) = d * 2"
      using Suc.prems by (intro wrap64_id) (auto simp: dur_defs)
    then show ?thesis using True Suc by (simp add: mult.assoc)
  next
    case False
    have "d * 1 \<le> d * 2 ^ Suc k" using Suc.prems(1) by (intro mult_left_mono one_le_power) simp_all
    then have "limit \<le> d * 2 ^ Suc k" using False by simp
    then show ?thesis using False by simp
  qed
qed simp

lemma repeatInterval_closed:
  assumes "0 < window"
  shows "repeatInterval window n = min (window * 2 ^ nat (n - 1)) (max Hour window)"
  unfolding repeatInterval_def Let_def repeatIntervalCap_def
  by (rule interval_loop_closed) (use assms in \<open>auto simp: dur_defs max_def split: if_splits\<close>)

text \<open>
  The reminder intervals double and stop at the cap. For every positive window the 64-bit
  loop computes \<open>window * 2 ^ (n - 1)\<close> capped at one hour, or at the window where that is longer,
  without ever overflowing; so an interval is never shorter than the window, never shorter than
  the one before and never more than twice it.
\<close>

theorem repeat_interval_doubles:
  assumes "0 < window" and "1 \<le> n"
  shows "repeatInterval window n = min (window * 2 ^ nat (n - 1)) (max Hour window)
       \<and> window \<le> repeatInterval window n
       \<and> repeatInterval window n \<le> repeatInterval window (n + 1)
       \<and> repeatInterval window (n + 1) \<le> 2 * repeatInterval window n"
proof -
  have step: "nat (n + 1 - 1) = Suc (nat (n - 1))" using assms(2) by simp
  have "window * 1 \<le> window * 2 ^ nat (n - 1)" using assms by (intro mult_left_mono one_le_power) simp_all
  then show ?thesis
    unfolding repeatInterval_closed[OF assms(1)] step using assms(1) by (auto simp: min_def max_def)
qed

theorem repeat_interval_doubles_witness:
  "map (repeatInterval (5 * Minute)) [1, 2, 3, 4, 5, 6]
     = [5 * Minute, 10 * Minute, 20 * Minute, 40 * Minute, Hour, Hour]"
proof -
  have "repeatInterval (5 * Minute) n = min (5 * Minute * 2 ^ nat (n - 1)) (max Hour (5 * Minute))"
    if "1 \<le> n" for n
    using repeat_interval_doubles[of "5 * Minute" n] that by (simp add: dur_defs)
  then show ?thesis by (simp add: dur_defs eval_nat_numeral)
qed

subsection \<open>Classes\<close>

text \<open>What every entry keeps of its classes: at most sixteen, none twice.\<close>

definition classes_ok :: "'a repeatState_scheme \<Rightarrow> bool" where
  "classes_ok e = (distinct (rs_Classes e) \<and> length (rs_Classes e) \<le> maxRepeatClasses)"

lemma noteClass_classes: "classes_ok e \<Longrightarrow> classes_ok (snd (noteClass class e))"
  by (auto simp: classes_ok_def noteClass_def Let_def maxRepeatClasses_def distinct_drop
      dest: in_set_dropD)

lemma noteClass_last: "class \<notin> set (rs_Classes e) \<Longrightarrow> class \<in> set (rs_Classes (snd (noteClass class e)))"
  by (auto simp: noteClass_def Let_def maxRepeatClasses_def)

lemma note_occurrence_classes: "classes_ok e \<Longrightarrow> classes_ok (note_occurrence w now ts class e)"
  using noteClass_classes[of "e\<lparr>de_Count := de_Count e + 1, de_LastSeen := now, de_EventLastTS := ts\<rparr>" "class"]
  by (auto simp: note_occurrence_def Let_def classes_ok_def split: prod.split)

lemma noteClass_fields:
  "\<exists>cs. snd (noteClass class e) = e\<lparr>rs_Classes := cs\<rparr>"
  by (cases "class \<in> set (rs_Classes e)") (auto simp: noteClass_def Let_def intro: exI[of _ "rs_Classes e"])

lemma note_occurrence_fields:
  "\<exists>cs p. note_occurrence w now ts class e =
     e\<lparr>de_Count := de_Count e + 1, de_LastSeen := now, de_EventLastTS := ts, rs_Classes := cs,
       rs_PendingChange := p\<rparr> \<and> (rs_PendingChange e \<longrightarrow> p)"
proof -
  let ?e1 = "e\<lparr>de_Count := de_Count e + 1, de_LastSeen := now, de_EventLastTS := ts\<rparr>"
  obtain changed e2 where n: "noteClass class ?e1 = (changed, e2)" by (cases "noteClass class ?e1")
  then obtain cs where e2: "e2 = ?e1\<lparr>rs_Classes := cs\<rparr>" using noteClass_fields[of "class" ?e1] by auto
  show ?thesis
    unfolding note_occurrence_def Let_def n prod.case e2
    by (intro exI[of _ cs] exI[of _ "(changed \<and> time_Sub now (de_FirstSeen e) > w) \<or> rs_PendingChange e"])
       (cases e; auto)
qed

lemma fix_step_fields:
  "\<exists>n. fix_step e = e\<lparr>rs_Step := n\<rparr> \<and> n = max (rs_Step e) (rs_RepeatCount e)"
  by (cases e) (auto simp: fix_step_def max_def)

lemma fix_step_sel [simp]:
  "rs_Step (fix_step e) = max (rs_Step e) (rs_RepeatCount e)"
  "rs_LastInjectAt (fix_step e) = rs_LastInjectAt e"
  "rs_PendingChange (fix_step e) = rs_PendingChange e"
  "rs_RepeatCount (fix_step e) = rs_RepeatCount e"
  "rs_Undelivered (fix_step e) = rs_Undelivered e"
  "rs_Classes (fix_step e) = rs_Classes e"
  "de_FirstSeen (fix_step e) = de_FirstSeen e"
  using fix_step_fields[of e] by auto

lemma resend_classes [simp]: "rs_Classes (snd (resend now e)) = rs_Classes e"
  by (simp add: resend_def Let_def markInject_def)

lemma schedule_classes [simp]: "rs_Classes (snd (schedule w now ir lapsed e)) = rs_Classes e"
  unfolding schedule_def Let_def by (simp add: markInject_def)

lemma repeat_classes:
  assumes "classes_ok e" shows "classes_ok (snd (repeat w e now ts class lapsed))"
proof -
  let ?e1 = "note_occurrence w now ts class (legacy_inject e)"
  have "classes_ok ?e1"
    using assms by (intro note_occurrence_classes) (simp add: legacy_inject_def classes_ok_def)
  moreover have "rs_Classes (snd (repeat w e now ts class lapsed)) = rs_Classes ?e1"
    unfolding repeat_def Let_def by (cases "rs_Undelivered ?e1") simp_all
  ultimately show ?thesis by (simp add: classes_ok_def)
qed

subsection \<open>The shape of a message\<close>

lemma shape_loop_append:
  "shape_loop f (a @ b) = shape_loop f a @ shape_loop (if a = [] then f else is_digit (last a)) b"
  by (induction f a rule: shape_loop.induct) auto

lemma shape_loop_digits:
  "list_all is_digit ds \<Longrightarrow> ds \<noteq> [] \<Longrightarrow> shape_loop f ds = (if f then [] else ''#'')"
proof (induction ds arbitrary: f)
  case (Cons d ds)
  then show ?case by (cases "ds = []") auto
qed simp

lemma hash_no_digit [simp]: "\<not> is_digit CHR ''#''"
  by (simp add: is_digit_def)

lemma shape_loop_no_digit: "list_all (\<lambda>ch. \<not> is_digit ch) (shape_loop f m)"
  by (induction m arbitrary: f) simp_all

lemma shape_loop_id: "list_all (\<lambda>ch. \<not> is_digit ch) m \<Longrightarrow> shape_loop f m = m"
  by (induction m arbitrary: f) auto

text \<open>
  Numbers are no news. Two messages of one kind and severity that differ only in a run of
  digits (a count, an age, a timestamp) are the same class, whatever the lengths of the runs; and
  taking the shape of a shape changes nothing.
\<close>

theorem class_ignores_numbers:
  assumes "list_all is_digit ds" and "ds \<noteq> []" and "list_all is_digit ds'" and "ds' \<noteq> []"
  shows "repeatClass kind sev (a @ ds @ b) = repeatClass kind sev (a @ ds' @ b)
       \<and> messageShape (messageShape m) = messageShape m"
proof
  have d: "is_digit (last ds)" "is_digit (last ds')" using assms by (auto simp: list_all_iff)
  have "messageShape (a @ ds @ b) = messageShape (a @ ds' @ b)"
    using assms d by (simp add: messageShape_def shape_loop_append shape_loop_digits)
  then show "repeatClass kind sev (a @ ds @ b) = repeatClass kind sev (a @ ds' @ b)"
    by (simp add: repeatClass_def)
  show "messageShape (messageShape m) = messageShape m"
    unfolding messageShape_def by (rule shape_loop_id[OF shape_loop_no_digit])
qed

theorem class_ignores_numbers_witness:
  "repeatClass ''k8s-event'' ''warning'' (''back-off '' @ ''5'' @ ''m'') =
   repeatClass ''k8s-event'' ''warning'' (''back-off '' @ ''12'' @ ''m'')"
  using class_ignores_numbers[of "''5''" "''12''" "''k8s-event''" "''warning''" "''back-off ''" "''m''" "[]"]
  by (simp add: is_digit_def)

subsection \<open>When an open incident speaks\<close>

text \<open>The schedule apart from rate jumps: what an inject needs and what it leaves behind.\<close>

lemma schedule_inject:
  assumes "schedule w now ir lapsed e = (r, e')" and "\<not> (ir \<and> countJump now (fix_step e))"
    and "dr_Kind r = DedupRepeat"
  shows "time_Sub now (rs_LastInjectAt e) > repeatInterval w (max (rs_Step e) (rs_RepeatCount e) + 1)
       \<and> rs_LastInjectAt e' = now \<and> rs_Step e' = max (rs_Step e) (rs_RepeatCount e) + 1
       \<and> rs_RepeatCount e' \<in> {0, rs_RepeatCount e + 1}"
  using assms
  by (auto simp: schedule_def Let_def markInject_def dup_result_def zero_result_def split: if_splits)

lemma schedule_hold:
  assumes "schedule w now ir lapsed e = (r, e')" and "dr_Kind r \<noteq> DedupRepeat"
  shows "e' = fix_step e \<and> dr_Kind r = DedupDuplicate
       \<and> \<not> (ir \<and> countJump now (fix_step e))
       \<and> (rs_PendingChange e \<or> ir \<or> lapsed \<longrightarrow>
            time_Sub now (rs_LastInjectAt e) \<le> repeatInterval w (max (rs_Step e) (rs_RepeatCount e) + 1))"
  using assms
  by (auto simp: schedule_def Let_def dup_result_def zero_result_def repeat_result_def split: if_splits)

lemma schedule_pending:
  assumes "schedule w now ir lapsed e = (r, e')" and "rs_PendingChange e" and "dr_Kind r = DedupRepeat"
  shows "dr_Change r \<noteq> [] \<and> dr_RepeatCount r = 0 \<and> \<not> rs_PendingChange e'"
  using assms
  by (auto simp: schedule_def Let_def markInject_def dup_result_def zero_result_def repeat_result_def
      change_defs split: if_splits)

lemma resend_result:
  assumes "resend now e = (r, e')"
  shows "dr_Kind r = DedupRepeat \<and> \<not> rs_PendingChange e' \<and> rs_LastInjectAt e' = now
       \<and> (rs_PendingChange e \<longrightarrow> dr_Change r \<noteq> [] \<and> dr_RepeatCount r = 0)"
  using assms
  by (auto simp: resend_def Let_def markInject_def repeat_result_def zero_result_def change_defs
      split: if_splits)

lemma note_occurrence_sel [simp]:
  "rs_LastInjectAt (note_occurrence w now ts class e) = rs_LastInjectAt e"
  "rs_Undelivered (note_occurrence w now ts class e) = rs_Undelivered e"
  "rs_Step (note_occurrence w now ts class e) = rs_Step e"
  "rs_RepeatCount (note_occurrence w now ts class e) = rs_RepeatCount e"
  "de_FirstSeen (note_occurrence w now ts class e) = de_FirstSeen e"
  "de_SessionID (note_occurrence w now ts class e) = de_SessionID e"
  "de_Count (note_occurrence w now ts class e) = de_Count e + 1"
  "de_LastSeen (note_occurrence w now ts class e) = now"
  "de_EventLastTS (note_occurrence w now ts class e) = ts"
  using note_occurrence_fields[of w now ts "class" e] by auto

lemma legacy_inject_sel [simp]:
  "rs_Undelivered (legacy_inject e) = rs_Undelivered e"
  "rs_Step (legacy_inject e) = rs_Step e"
  "rs_RepeatCount (legacy_inject e) = rs_RepeatCount e"
  "de_FirstSeen (legacy_inject e) = de_FirstSeen e"
  "rs_LastInjectAt (legacy_inject e) =
     (if IsZero (rs_LastInjectAt e) then de_FirstSeen e else rs_LastInjectAt e)"
  by (simp_all add: legacy_inject_def)

text \<open>
  C29: a class change is never swallowed, and it is held no longer than a reminder. When a change
  is pending as an occurrence is decided, either the occurrence announces it (a repeat with a
  named change and repeat count 0, and nothing is pending any more), or the occurrence is
  suppressed and the change stays pending; the latter only while no more than the current step's
  interval has passed since the last inject. Apart from re-sends and rate jumps that interval
  alone decides, so at step 0 a change is announced one window after the last inject, not two.
\<close>

theorem pending_change_announced:
  assumes "repeat w e now ts class lapsed = (r, e')"
    and "rs_PendingChange (note_occurrence w now ts class (legacy_inject e))"
  shows "(dr_Kind r = DedupRepeat \<and> dr_Change r \<noteq> [] \<and> dr_RepeatCount r = 0 \<and> \<not> rs_PendingChange e'
          \<or> dr_Kind r = DedupDuplicate \<and> rs_PendingChange e' \<and> \<not> rs_Undelivered e
            \<and> time_Sub now (rs_LastInjectAt (legacy_inject e))
                \<le> repeatInterval w (max (rs_Step e) (rs_RepeatCount e) + 1))
       \<and> (\<not> rs_Undelivered e \<and> rs_LastInjectAt (legacy_inject e) \<le> de_FirstSeen e \<longrightarrow>
            (dr_Kind r = DedupRepeat \<longleftrightarrow>
             repeatInterval w (max (rs_Step e) (rs_RepeatCount e) + 1)
               < time_Sub now (rs_LastInjectAt (legacy_inject e))))"
proof (cases "rs_Undelivered e")
  case True
  then have "resend now (note_occurrence w now ts class (legacy_inject e)) = (r, e')"
    using assms(1) by (simp add: repeat_def Let_def)
  then show ?thesis using resend_result assms(2) True by blast
next
  case False
  let ?e1 = "note_occurrence w now ts class (legacy_inject e)"
  let ?ir = "rs_LastInjectAt (legacy_inject e) > de_FirstSeen e"
  have sch: "schedule w now ?ir lapsed ?e1 = (r, e')"
    using assms(1) False by (simp add: repeat_def Let_def)
  show ?thesis
  proof (cases "dr_Kind r = DedupRepeat")
    case True
    then show ?thesis
      using schedule_pending[OF sch assms(2)] schedule_inject[OF sch] by auto
  next
    case dup: False
    then show ?thesis using schedule_hold[OF sch dup] assms(2) False by auto
  qed
qed

definition open_entry :: dedupEntry where
  "open_entry = repeatState.extend (newRepeatState 1000 True ''c0'')
     \<lparr>de_SessionID = ''s1'', de_FirstSeen = 1000, de_LastSeen = 1000, de_EventLastTS = 1000,
      de_Count = 1, de_Incident = None, de_Storm = [], de_SourceKind = [],
      de_FollowupSources = [], de_AncestorKeys = [], de_Parent = None\<rparr>"

text \<open>One and a half windows after the open, a new class.\<close>

theorem pending_change_announced_witness:
  "dr_Kind (fst (repeat (5 * Minute) open_entry (1000 + 450 * Second) 2000 ''c1'' True)) = DedupRepeat
   \<and> 450 * Second < 2 * (5 * Minute)"
proof -
  let ?p = "repeat (5 * Minute) open_entry (1000 + 450 * Second) 2000 ''c1'' True"
  have "rs_PendingChange (note_occurrence (5 * Minute) (1000 + 450 * Second) 2000 ''c1'' (legacy_inject open_entry))"
    by code_simp
  moreover have "\<not> rs_Undelivered open_entry \<and> rs_LastInjectAt (legacy_inject open_entry) \<le> de_FirstSeen open_entry"
    by code_simp
  moreover have "repeatInterval (5 * Minute) (max (rs_Step open_entry) (rs_RepeatCount open_entry) + 1)
      < time_Sub (1000 + 450 * Second) (rs_LastInjectAt (legacy_inject open_entry))" by code_simp
  ultimately have "dr_Kind (fst ?p) = DedupRepeat"
    using pending_change_announced[of "5 * Minute" open_entry "1000 + 450 * Second" 2000 "''c1''" True "fst ?p" "snd ?p"]
    by simp
  then show ?thesis by (simp add: dur_defs)
qed

subsection \<open>The spacing of injects\<close>

text \<open>
  The occurrences of one open incident in the order they are decided, each with its time, its
  event timestamp, its class and whether the window had lapsed; the verdicts that inject, with
  their times.
\<close>

fun injects ::
  "duration \<Rightarrow> dedupEntry \<Rightarrow> (gotime \<times> gotime \<times> string \<times> bool) list \<Rightarrow> (gotime \<times> DedupResult) list" where
  "injects w e [] = []"
| "injects w e ((now, ts, class, lapsed) # evs) =
     (let (r, e') = repeat w e now ts class lapsed
      in (if dr_Kind r = DedupRepeat then [(now, r)] else []) @ injects w e' evs)"

lemma repeatInterval_nonneg: "0 < w \<Longrightarrow> 0 \<le> repeatInterval w n"
  by (simp add: repeatInterval_closed min_def max_def)

text \<open>The entries the schedule is stated for: delivered, with a known last inject.\<close>

definition on_schedule :: "dedupEntry \<Rightarrow> bool" where
  "on_schedule e = (\<not> rs_Undelivered e \<and> rs_LastInjectAt e \<noteq> 0 \<and> 0 \<le> rs_Step e \<and> rs_RepeatCount e \<le> rs_Step e)"

lemma schedule_rate:
  assumes "schedule w now ir lapsed e = (r, e')" and "ir \<and> countJump now (fix_step e)"
  shows "dr_Change r = RepeatChangeRate \<and> dr_Kind r = DedupRepeat"
  using assms by (auto simp: schedule_def Let_def repeat_result_def)

lemma schedule_Undelivered:
  "schedule w now ir lapsed e = (r, e') \<Longrightarrow> rs_Undelivered e' = rs_Undelivered e"
  by (auto simp: schedule_def Let_def markInject_def split: if_splits)

lemma repeat_step:
  assumes "repeat w e now ts class lapsed = (r, e')" and "on_schedule e" and "now \<noteq> 0"
    and "dr_Kind r = DedupRepeat \<Longrightarrow> dr_Change r \<noteq> RepeatChangeRate"
  shows "on_schedule e'
       \<and> (if dr_Kind r = DedupRepeat
          then repeatInterval w (rs_Step e + 1) < time_Sub now (rs_LastInjectAt e)
               \<and> rs_LastInjectAt e' = now \<and> rs_Step e' = rs_Step e + 1
          else rs_LastInjectAt e' = rs_LastInjectAt e \<and> rs_Step e' = rs_Step e)"
proof -
  let ?e1 = "note_occurrence w now ts class (legacy_inject e)"
  have e: "\<not> rs_Undelivered e" "rs_LastInjectAt e \<noteq> 0" "max (rs_Step e) (rs_RepeatCount e) = rs_Step e"
    using assms(2) by (auto simp: on_schedule_def)
  have sch: "schedule w now (rs_LastInjectAt e > de_FirstSeen e) lapsed ?e1 = (r, e')"
    using assms(1) e by (simp add: repeat_def Let_def)
  have und: "\<not> rs_Undelivered e'" using schedule_Undelivered[OF sch] e by simp
  show ?thesis
  proof (cases "dr_Kind r = DedupRepeat")
    case True
    then have "\<not> (rs_LastInjectAt e > de_FirstSeen e \<and> countJump now (fix_step ?e1))"
      using schedule_rate[OF sch] assms(4) by blast
    from schedule_inject[OF sch this True] show ?thesis
      using True e und assms(2,3) by (auto simp: on_schedule_def)
  next
    case False
    then show ?thesis
      using schedule_hold[OF sch False] e und assms(2) by (auto simp: on_schedule_def)
  qed
qed

text \<open>
  C28: an open incident never speaks faster than its schedule. Take any sequence of occurrences of
  an open incident, in any order of times and classes, in which no rate jump is announced. The
  \<open>i\<close>-th inject of the sequence comes more than the interval of step \<open>Step + i + 1\<close> after
  the inject before it: reminders and class changes share one doubling schedule.
\<close>

theorem injects_are_spaced:
  assumes "0 < w" and "on_schedule e" and "\<forall>(now, _) \<in> set evs. now \<noteq> 0"
    and "\<forall>(_, r) \<in> set (injects w e evs). dr_Change r \<noteq> RepeatChangeRate"
    and "i < length (injects w e evs)"
  shows "repeatInterval w (rs_Step e + int i + 1)
       < fst (injects w e evs ! i) - (rs_LastInjectAt e # map fst (injects w e evs)) ! i"
  using assms(2-5)
proof (induction evs arbitrary: e i)
  case (Cons ev evs)
  obtain now ts "class" lapsed where ev: "ev = (now, ts, class, lapsed)" by (cases ev)
  obtain r e' where r: "repeat w e now ts class lapsed = (r, e')" by (cases "repeat w e now ts class lapsed")
  have st: "on_schedule e'"
    "if dr_Kind r = DedupRepeat
     then repeatInterval w (rs_Step e + 1) < time_Sub now (rs_LastInjectAt e)
          \<and> rs_LastInjectAt e' = now \<and> rs_Step e' = rs_Step e + 1
     else rs_LastInjectAt e' = rs_LastInjectAt e \<and> rs_Step e' = rs_Step e"
    using repeat_step[OF r Cons.prems(1)] Cons.prems(2,3) ev r by auto
  have IH: "repeatInterval w (rs_Step e' + int j + 1)
      < fst (injects w e' evs ! j) - (rs_LastInjectAt e' # map fst (injects w e' evs)) ! j"
    if "j < length (injects w e' evs)" for j
    using Cons.IH[OF st(1)] Cons.prems(2,3) that ev r by auto
  show ?case
  proof (cases "dr_Kind r = DedupRepeat")
    case True
    then have eq: "injects w e (ev # evs) = (now, r) # injects w e' evs" using ev r by simp
    show ?thesis
    proof (cases i)
      case 0
      then show ?thesis
        using st True eq time_Sub_gtD[OF repeatInterval_nonneg[OF assms(1)]] by auto
    next
      case (Suc j)
      then show ?thesis using st True eq IH[of j] Cons.prems(4) by (simp add: algebra_simps)
    qed
  next
    case False
    then show ?thesis using st ev r IH[of i] Cons.prems(4) by simp
  qed
qed simp

theorem injects_are_spaced_witness:
  "let evs = [(1000 + 301 * Second, 2000, ''c0'', True), (1000 + 400 * Second, 2500, ''c0'', False),
              (1000 + 902 * Second, 3000, ''c0'', True)];
       ins = injects (5 * Minute) open_entry evs
   in length ins = 2 \<and> repeatInterval (5 * Minute) 2 < fst (ins ! 1) - fst (ins ! 0)"
proof -
  let ?evs = "[(1000 + 301 * Second, 2000, ''c0'', True), (1000 + 400 * Second, 2500, ''c0'', False),
               (1000 + 902 * Second, 3000, ''c0'', True)]"
  let ?ins = "injects (5 * Minute) open_entry ?evs"
  have "on_schedule open_entry" by code_simp
  moreover have "\<forall>(now, _) \<in> set ?evs. now \<noteq> 0" by (simp add: dur_defs)
  moreover have "\<forall>(_, r) \<in> set ?ins. dr_Change r \<noteq> RepeatChangeRate" by code_simp
  moreover have len: "length ?ins = 2" by code_simp
  moreover have "0 < 5 * Minute" by (simp add: dur_defs)
  ultimately have "repeatInterval (5 * Minute) (rs_Step open_entry + int 1 + 1)
       < fst (?ins ! 1) - (rs_LastInjectAt open_entry # map fst ?ins) ! 1"
    by (intro injects_are_spaced) simp_all
  moreover have "rs_Step open_entry = 0"
    by (simp add: open_entry_def newRepeatState_def repeatState.defs)
  ultimately show ?thesis using len by (simp add: Let_def)
qed

subsection \<open>The record methods\<close>

text \<open>
  \<^verbatim>\<open>dedup.go\<close> extracts the three updates of an inject into methods of \<^verbatim>\<open>repeatState\<close>;
  \<^verbatim>\<open>repeat\<close> performs the same updates in place. Here is the schedule written with the methods.
\<close>

definition schedule_by_records ::
  "duration \<Rightarrow> gotime \<Rightarrow> bool \<Rightarrow> bool \<Rightarrow> dedupEntry \<Rightarrow> DedupResult \<times> dedupEntry" where
  "schedule_by_records window now inRepeat lapsed e0 =
     (let e = fix_step e0;
          due = (time_Sub now (rs_LastInjectAt e) > repeatInterval window (rs_Step e + 1));
          result = (repeat_result e)\<lparr>dr_Count := de_Count e\<rparr>
      in if inRepeat \<and> countJump now e then
           (result\<lparr>dr_Change := RepeatChangeRate\<rparr>, recordRateJump now (de_Count e) (rateSinceInject now e) e)
         else if due \<and> rs_PendingChange e then
           (result\<lparr>dr_Change := RepeatChangeClass\<rparr>, recordClassChange now (de_Count e) e)
         else if due \<and> (inRepeat \<or> lapsed) then
           (let (n, e') = recordReminder now (de_Count e) (rateSinceInject now e) e
            in (result\<lparr>dr_RepeatCount := n\<rparr>, e'))
         else ((dup_result e)\<lparr>dr_Absorbed := inRepeat \<or> lapsed\<rparr>, e))"

text \<open>
  The in-place updates of \<open>repeat\<close> are the methods \<open>recordRateJump\<close>,
  \<open>recordClassChange\<close> and \<open>recordReminder\<close>: on every entry, at every time, the schedule
  gives the verdict and the entry that the version written with the methods gives.
\<close>

theorem schedule_is_by_records:
  "schedule window now inRepeat lapsed e = schedule_by_records window now inRepeat lapsed e"
  by (simp add: schedule_def schedule_by_records_def Let_def markInject_def recordRateJump_def
      recordClassChange_def recordReminder_def dup_result_def zero_result_def not_less)

end
