(* ===== verification/Dedup.thy ===== *)
theory Dedup
  imports Repeat
begin

section \<open>The dedup cache\<close>

text \<open>
  \<^verbatim>\<open>pkg/engine/dedup.go\<close>: the rolling-window store of open incidents, with its tombstones. The
  map of entry pointers is an association list of entries; where the code holds two pointers at a
  time (a folded sibling and its rt, which may be one entry), the model writes through the key
  and looks the other entry up again. The clock reading is \<open>now\<close>. \<open>isOpen\<close> is the predicate
  the recovery tracker answers (\<^const>\<open>None\<close> where recovery tracking is off); its answers change
  between calls, so it is an argument of each operation. The mutex makes every operation atomic.
\<close>

type_synonym open_check = "(EventKey \<Rightarrow> bool) option"
type_synonym dedup_entries = "(EventKey, dedupEntry) gomap"

record tombstone =
  tb_EventLastTS :: gotime
  tb_LastSeen :: gotime

record DedupCache =
  dc_entries :: dedup_entries
  dc_window :: duration
  dc_max :: nat
  dc_lastSweep :: gotime
  dc_tombstones :: "(EventKey, tombstone) gomap"

record Observation =
  ob_LastTS :: gotime
  ob_Kind :: string
  ob_Severity :: Severity
  ob_Message :: string
  ob_Repeatable :: bool
  ob_Downgraded :: bool

record BoundIncident =
  bi_Key :: EventKey
  bi_SessionID :: string
  bi_FirstSeen :: gotime
  bi_Ref :: IncidentRef

definition maxDedupEntries :: nat where "maxDedupEntries = 10000"

datatype dedup_error = WindowNotPositive duration

definition NewDedupCache :: "duration \<Rightarrow> dedup_error + DedupCache" where
  "NewDedupCache window =
     (if window \<le> 0 then Inl (WindowNotPositive window)
      else Inr \<lparr>dc_entries = [], dc_window = window, dc_max = maxDedupEntries, dc_lastSweep = 0,
                dc_tombstones = []\<rparr>)"

definition newDedupEntry :: "gotime \<Rightarrow> Observation \<Rightarrow> string \<Rightarrow> dedupEntry" where
  "newDedupEntry now obs class =
     repeatState.extend (newRepeatState now (ob_Repeatable obs) class)
       \<lparr>de_SessionID = [], de_FirstSeen = now, de_LastSeen = now, de_EventLastTS = ob_LastTS obs,
        de_Count = 1, de_Incident = None, de_Storm = [], de_SourceKind = [], de_FollowupSources = [],
        de_AncestorKeys = [], de_Parent = None\<rparr>"

subsection \<open>Sibling groups\<close>

text \<open>The parent walk, at most eight steps beyond the entry's own parent.\<close>

fun resolve_loop :: "nat \<Rightarrow> dedup_entries \<Rightarrow> EventKey \<Rightarrow> dedupEntry \<Rightarrow> EventKey \<times> dedupEntry" where
  "resolve_loop 0 es curKey cur = (curKey, cur)"
| "resolve_loop (Suc n) es curKey cur =
     (case de_Parent cur of
        None \<Rightarrow> (curKey, cur)
      | Some nextKey \<Rightarrow>
          (case gget es nextKey of
             None \<Rightarrow> (curKey, cur)
           | Some nxt \<Rightarrow> resolve_loop n es nextKey nxt))"

definition resolveParent :: "dedup_entries \<Rightarrow> dedupEntry \<Rightarrow> (EventKey \<times> dedupEntry) option" where
  "resolveParent es entry =
     (case de_Parent entry of
        None \<Rightarrow> None
      | Some k \<Rightarrow> (case gget es k of None \<Rightarrow> None | Some cur \<Rightarrow> Some (resolve_loop 8 es k cur)))"

definition isGroupOpen :: "open_check \<Rightarrow> dedup_entries \<Rightarrow> EventKey \<Rightarrow> dedupEntry \<Rightarrow> bool" where
  "isGroupOpen isOpen es rootKey rt =
     (case isOpen of
        None \<Rightarrow> False
      | Some is_open \<Rightarrow>
          is_open rootKey
          \<or> list_ex (\<lambda>(k, e). k \<noteq> rootKey \<and> de_Parent e = Some rootKey \<and> \<not> rs_Resolved e
                             \<and> de_SessionID e = de_SessionID rt \<and> is_open k) es)"

subsection \<open>Retiring, sweeping and evicting\<close>

definition replayTTL :: "DedupCache \<Rightarrow> duration" where
  "replayTTL c = max Hour (wrap64 (4 * dc_window c))"

text \<open>Making room among the tombstones: past the cap, the one with the oldest activity goes.\<close>

definition evict_tombstone :: "nat \<Rightarrow> (EventKey, tombstone) gomap \<Rightarrow> (EventKey, tombstone) gomap" where
  "evict_tombstone cap ts =
     (if length ts \<ge> cap then
        (case scan_best (\<lambda>x y. tb_LastSeen (snd x) < tb_LastSeen (snd y)) None ts of
           None \<Rightarrow> ts
         | Some (oldest, _) \<Rightarrow> gdel oldest ts)
      else ts)"

definition retire :: "DedupCache \<Rightarrow> EventKey \<Rightarrow> dedupEntry \<Rightarrow> DedupCache" where
  "retire c k e =
     (let ts = (if gget (dc_tombstones c) k = None then evict_tombstone (dc_max c) (dc_tombstones c)
                else dc_tombstones c)
      in c\<lparr>dc_entries := gdel k (dc_entries c),
           dc_tombstones := gput k \<lparr>tb_EventLastTS = de_EventLastTS e, tb_LastSeen = de_LastSeen e\<rparr> ts\<rparr>)"

text \<open>
  One round of the sweep. The loop ranges over the entries the cache had when it began and only
  ever deletes the entry it is at, so it visits every one of them.
\<close>

definition sweep_entry ::
  "open_check \<Rightarrow> gotime \<Rightarrow> DedupCache \<times> nat \<Rightarrow> EventKey \<times> dedupEntry \<Rightarrow> DedupCache \<times> nat" where
  "sweep_entry isOpen now acc ke =
     (let (c, removed) = acc; (k, e) = ke; age = time_Sub now (de_LastSeen e)
      in if age \<le> dc_window c then (c, removed)
         else if rs_Resolved e then (retire c k e, Suc removed)
         else if rs_SessionClass e \<and> de_SessionID e \<noteq> [] \<and> de_Incident e \<noteq> None
                 \<and> isGroupOpen isOpen (dc_entries c) k e
         then (c, removed)
         else if age > replayTTL c then (c\<lparr>dc_entries := gdel k (dc_entries c)\<rparr>, Suc removed)
         else (c, removed))"

definition sweepExpired :: "open_check \<Rightarrow> DedupCache \<Rightarrow> gotime \<Rightarrow> nat \<times> DedupCache" where
  "sweepExpired isOpen c0 now =
     (let c = c0\<lparr>dc_lastSweep := now\<rparr>
      in if dc_window c \<le> 0 then (0, c)
         else
           (let (c', removed) = foldl (sweep_entry isOpen now) (c, 0) (dc_entries c)
            in (removed,
                c'\<lparr>dc_tombstones := filter (\<lambda>(k, t). \<not> time_Sub now (tb_LastSeen t) > replayTTL c)
                                     (dc_tombstones c')\<rparr>)))"

definition maybeSweep :: "open_check \<Rightarrow> DedupCache \<Rightarrow> gotime \<Rightarrow> DedupCache" where
  "maybeSweep isOpen c now =
     (if dc_window c \<le> 0 then c
      else if \<not> IsZero (dc_lastSweep c) \<and> time_Sub now (dc_lastSweep c) < dc_window c then c
      else snd (sweepExpired isOpen c now))"

definition Sweep :: "open_check \<Rightarrow> DedupCache \<Rightarrow> gotime \<Rightarrow> nat \<times> DedupCache" where
  "Sweep isOpen c now = sweepExpired isOpen c now"

definition evictionTier ::
  "open_check \<Rightarrow> DedupCache \<Rightarrow> EventKey \<Rightarrow> dedupEntry \<Rightarrow> gotime \<Rightarrow> nat" where
  "evictionTier isOpen c k e now =
     (let expired = dc_window c > 0 \<and> time_Sub now (de_LastSeen e) > dc_window c
      in if rs_Resolved e \<or> expired then 0
         else if de_SessionID e = [] \<or> \<not> rs_SessionClass e then 1
         else (case isOpen of
                 None \<Rightarrow> 2
               | Some is_open \<Rightarrow> if \<not> is_open k then 2 else 3))"

text \<open>The comparison of the victim loop: a lower tier, then an older \<^verbatim>\<open>LastSeen\<close>.\<close>

definition evict_before ::
  "open_check \<Rightarrow> DedupCache \<Rightarrow> gotime \<Rightarrow> EventKey \<times> dedupEntry \<Rightarrow> EventKey \<times> dedupEntry \<Rightarrow> bool" where
  "evict_before isOpen c now x y =
     (let tx = evictionTier isOpen c (fst x) (snd x) now; ty = evictionTier isOpen c (fst y) (snd y) now
      in tx < ty \<or> tx = ty \<and> de_LastSeen (snd x) < de_LastSeen (snd y))"

definition evictIfFull :: "open_check \<Rightarrow> DedupCache \<Rightarrow> gotime \<Rightarrow> DedupCache" where
  "evictIfFull isOpen c0 now =
     (if length (dc_entries c0) < dc_max c0 then c0
      else
        (let c = snd (sweepExpired isOpen c0 now) in
         if length (dc_entries c) < dc_max c then c
         else
           (case scan_best (evict_before isOpen c now) None (dc_entries c) of
              None \<Rightarrow> c
            | Some (victimKey, victim) \<Rightarrow>
                if rs_Resolved victim then retire c victimKey victim
                else c\<lparr>dc_entries := gdel victimKey (dc_entries c)\<rparr>)))"

subsection \<open>Observing a signal\<close>

text \<open>A first sighting, or a lapse that opens the incident again.\<close>

definition open_new ::
  "open_check \<Rightarrow> DedupCache \<Rightarrow> gotime \<Rightarrow> EventKey \<Rightarrow> Observation \<Rightarrow> string \<Rightarrow> DedupResult \<times> DedupCache" where
  "open_new isOpen c now key obs class =
     (let c' = evictIfFull isOpen c now
      in (zero_result\<lparr>dr_Kind := DedupNewIncident, dr_Count := 1\<rparr>,
          c'\<lparr>dc_entries := gput key (newDedupEntry now obs class) (dc_entries c')\<rparr>))"

text \<open>Case 0 and the first sighting: no entry for the key.\<close>

definition observe_absent ::
  "open_check \<Rightarrow> DedupCache \<Rightarrow> gotime \<Rightarrow> EventKey \<Rightarrow> Observation \<Rightarrow> string \<Rightarrow> DedupResult \<times> DedupCache" where
  "observe_absent isOpen c now key obs class =
     (case gget (dc_tombstones c) key of
        None \<Rightarrow> open_new isOpen c now key obs class
      | Some tomb \<Rightarrow>
          if \<not> ob_LastTS obs > tb_EventLastTS tomb
          then (zero_result\<lparr>dr_Kind := DedupDuplicate, dr_Count := 1, dr_Replay := True\<rparr>, c)
          else open_new isOpen (c\<lparr>dc_tombstones := gdel key (dc_tombstones c)\<rparr>) now key obs class)"

definition bump :: "gotime \<Rightarrow> gotime \<Rightarrow> dedupEntry \<Rightarrow> dedupEntry" where
  "bump now ts e = e\<lparr>de_Count := de_Count e + 1, de_LastSeen := now, de_EventLastTS := ts\<rparr>"

text \<open>The root a folded entry delegates to, when the group is still open in the entry's session.\<close>

definition fold_target :: "open_check \<Rightarrow> dedup_entries \<Rightarrow> dedupEntry \<Rightarrow> EventKey option" where
  "fold_target isOpen es entry =
     (case resolveParent es entry of
        None \<Rightarrow> None
      | Some (rootKey, rt) \<Rightarrow>
          if de_Storm rt = [] \<and> \<not> rs_Resolved rt \<and> de_SessionID rt \<noteq> []
             \<and> de_SessionID rt = de_SessionID entry \<and> isGroupOpen isOpen es rootKey rt
          then Some rootKey else None)"

text \<open>What the root does with a folded occurrence; \<^const>\<open>None\<close> where the code falls through.\<close>

definition observe_root ::
  "duration \<Rightarrow> gotime \<Rightarrow> Observation \<Rightarrow> string \<Rightarrow> dedupEntry \<Rightarrow> (DedupResult \<times> dedupEntry) option" where
  "observe_root window now obs class rt =
     (let parentLapsed = time_Sub now (de_LastSeen rt) > window in
      if ob_Repeatable obs then
        (let lastInject = (if IsZero (rs_LastInjectAt rt) then de_FirstSeen rt else rs_LastInjectAt rt);
             step = max (rs_Step rt) (rs_RepeatCount rt);
             due = rs_Undelivered rt \<or> time_Sub now lastInject > repeatInterval window (step + 1)
         in if due then Some (repeat window rt now (ob_LastTS obs) class parentLapsed)
            else
              (let rt' = note_occurrence window now (ob_LastTS obs) class
                             (rt\<lparr>rs_InjectCount := rs_InjectCount rt + 1\<rparr>)
               in Some ((dup_result rt')\<lparr>dr_Absorbed := lastInject > de_FirstSeen rt' \<or> parentLapsed\<rparr>,
                        rt')))
      else if \<not> ob_Downgraded obs \<and> ob_Kind obs \<noteq> de_SourceKind rt then
        (let rt' = bump now (ob_LastTS obs) (rt\<lparr>rs_InjectCount := rs_InjectCount rt + 1\<rparr>)
         in Some ((dup_result rt')\<lparr>dr_Absorbed := True\<rparr>, rt'))
      else None)"

definition case2 :: "open_check \<Rightarrow> dedup_entries \<Rightarrow> EventKey \<Rightarrow> dedupEntry \<Rightarrow> bool" where
  "case2 isOpen es key entry =
     (rs_SessionClass entry \<and> \<not> rs_Resolved entry \<and> de_SessionID entry \<noteq> [] \<and> de_Incident entry \<noteq> None
      \<and> isGroupOpen isOpen es key entry)"

text \<open>Cases 2, 3 and 4, for an entry that stands on its own.\<close>

definition observe_own ::
  "open_check \<Rightarrow> DedupCache \<Rightarrow> gotime \<Rightarrow> EventKey \<Rightarrow> Observation \<Rightarrow> string \<Rightarrow> dedupEntry
   \<Rightarrow> DedupResult \<times> DedupCache" where
  "observe_own isOpen c now key obs class entry =
     (let lapsed = time_Sub now (de_LastSeen entry) > dc_window c;
          put = (\<lambda>e. c\<lparr>dc_entries := gput key e (dc_entries c)\<rparr>);
          still_open = case2 isOpen (dc_entries c) key entry
      in if still_open \<and> ob_Repeatable obs then
           (let (r, e) = repeat (dc_window c) entry now (ob_LastTS obs) class lapsed in (r, put e))
         else if still_open \<and> \<not> ob_Downgraded obs \<and> ob_Kind obs \<noteq> de_SourceKind entry then
           (let e = bump now (ob_LastTS obs) entry in ((dup_result e)\<lparr>dr_Absorbed := True\<rparr>, put e))
         else if lapsed then open_new isOpen c now key obs class
         else
           (let e = note_occurrence (dc_window c) now (ob_LastTS obs) class entry
            in (dup_result e, put e)))"

definition observe_present ::
  "open_check \<Rightarrow> DedupCache \<Rightarrow> gotime \<Rightarrow> EventKey \<Rightarrow> Observation \<Rightarrow> string \<Rightarrow> dedupEntry
   \<Rightarrow> DedupResult \<times> DedupCache" where
  "observe_present isOpen c now key obs class entry =
     (if \<not> ob_LastTS obs > de_EventLastTS entry then
        (let e = entry\<lparr>de_Count := de_Count entry + 1\<rparr>
         in (dup_result e, c\<lparr>dc_entries := gput key e (dc_entries c)\<rparr>))
      else
        (case fold_target isOpen (dc_entries c) entry of
           None \<Rightarrow> observe_own isOpen c now key obs class entry
         | Some rootKey \<Rightarrow>
             (let e = bump now (ob_LastTS obs) entry;
                  c1 = c\<lparr>dc_entries := gput key e (dc_entries c)\<rparr>
              in case gget (dc_entries c1) rootKey of
                   None \<Rightarrow> observe_own isOpen c1 now key obs class e
                 | Some rt \<Rightarrow>
                     (case observe_root (dc_window c) now obs class rt of
                        None \<Rightarrow> observe_own isOpen c1 now key obs class e
                      | Some (r, rt') \<Rightarrow>
                          (r, c1\<lparr>dc_entries := gput rootKey rt' (dc_entries c1)\<rparr>)))))"

definition ObserveSignal ::
  "open_check \<Rightarrow> DedupCache \<Rightarrow> gotime \<Rightarrow> EventKey \<Rightarrow> Observation \<Rightarrow> DedupResult \<times> DedupCache" where
  "ObserveSignal isOpen c now key0 obs =
     (let key = canon_key key0;
          cls = repeatClass (ob_Kind obs) (ob_Severity obs) (ob_Message obs);
          c1 = maybeSweep isOpen c now
      in case gget (dc_entries c1) key of
           None \<Rightarrow> observe_absent isOpen c1 now key obs cls
         | Some entry \<Rightarrow> observe_present isOpen c1 now key obs cls entry)"

definition Observe ::
  "open_check \<Rightarrow> DedupCache \<Rightarrow> gotime \<Rightarrow> EventKey \<Rightarrow> gotime \<Rightarrow> DedupResult \<times> DedupCache" where
  "Observe isOpen c now key eventLastTS =
     ObserveSignal isOpen c now key
       \<lparr>ob_LastTS = eventLastTS, ob_Kind = [], ob_Severity = [], ob_Message = [], ob_Repeatable = False,
        ob_Downgraded = False\<rparr>"

subsection \<open>Marks and bindings\<close>

text \<open>The operations that write one entry: no-ops where the key has none.\<close>

definition at_key :: "EventKey \<Rightarrow> (dedupEntry \<Rightarrow> dedupEntry) \<Rightarrow> DedupCache \<Rightarrow> DedupCache" where
  "at_key key f c = c\<lparr>dc_entries := gmod (canon_key key) f (dc_entries c)\<rparr>"

definition MarkUndelivered :: "DedupCache \<Rightarrow> EventKey \<Rightarrow> string \<Rightarrow> DedupCache" where
  "MarkUndelivered c key change = at_key key (markUndelivered change) c"

definition Unbind :: "DedupCache \<Rightarrow> gotime \<Rightarrow> EventKey \<Rightarrow> DedupCache" where
  "Unbind c now key =
     at_key key (\<lambda>e. resetForUnbind now (de_Count e)
                       (e\<lparr>de_SessionID := [], de_Parent := None, de_FirstSeen := now\<rparr>)) c"

definition MarkResolved :: "DedupCache \<Rightarrow> EventKey \<Rightarrow> DedupCache" where
  "MarkResolved c key = at_key key markResolved c"

definition BindSession :: "DedupCache \<Rightarrow> EventKey \<Rightarrow> string \<Rightarrow> DedupCache" where
  "BindSession c key sessionID = at_key key (de_SessionID_update (\<lambda>_. sessionID)) c"

text \<open>A parent that is gone or sits in another session is dropped; the parent is read after the
  session is written, since it may be the entry itself.\<close>

definition drop_stale_parent :: "dedup_entries \<Rightarrow> string \<Rightarrow> dedupEntry \<Rightarrow> dedupEntry" where
  "drop_stale_parent es sessionID e =
     (case de_Parent e of
        None \<Rightarrow> e
      | Some p \<Rightarrow>
          (case gget es p of
             None \<Rightarrow> e\<lparr>de_Parent := None\<rparr>
           | Some parent \<Rightarrow> if de_SessionID parent \<noteq> sessionID then e\<lparr>de_Parent := None\<rparr> else e))"

definition BindIncident :: "DedupCache \<Rightarrow> EventKey \<Rightarrow> string \<Rightarrow> IncidentRef \<Rightarrow> DedupCache" where
  "BindIncident c key sessionID ref =
     (let c1 = at_key key (\<lambda>e. e\<lparr>de_SessionID := sessionID, de_Incident := Some ref\<rparr>) c
      in at_key key (drop_stale_parent (dc_entries c1) sessionID) c1)"

definition AttachToStorm ::
  "DedupCache \<Rightarrow> EventKey \<Rightarrow> string \<Rightarrow> string \<Rightarrow> IncidentRef \<Rightarrow> DedupCache" where
  "AttachToStorm c key sessionID stormFingerprint ref =
     at_key key
       (\<lambda>e. e\<lparr>de_SessionID := sessionID, de_Storm := stormFingerprint, de_Parent := None,
              de_Incident := (if de_Incident e = None then Some ref else de_Incident e)\<rparr>) c"

definition NoteIncidentKind :: "DedupCache \<Rightarrow> EventKey \<Rightarrow> string \<Rightarrow> DedupCache" where
  "NoteIncidentKind c key kind =
     at_key key (\<lambda>e. e\<lparr>de_SourceKind := kind, de_FollowupSources := []\<rparr>) c"

definition NoteAncestors :: "DedupCache \<Rightarrow> EventKey \<Rightarrow> string list \<Rightarrow> DedupCache" where
  "NoteAncestors c key keys =
     (if keys = [] then c else at_key key (\<lambda>e. e\<lparr>de_AncestorKeys := keys\<rparr>) c)"

subsection \<open>Lookups\<close>

definition LookupBinding :: "DedupCache \<Rightarrow> EventKey \<Rightarrow> BoundIncident option" where
  "LookupBinding c key =
     (case gget (dc_entries c) (canon_key key) of
        None \<Rightarrow> None
      | Some e \<Rightarrow>
          (case de_Incident e of
             None \<Rightarrow> None
           | Some ref \<Rightarrow>
               if de_SessionID e = [] then None
               else Some \<lparr>bi_Key = canon_key key, bi_SessionID = de_SessionID e,
                          bi_FirstSeen = de_FirstSeen e, bi_Ref = ref\<rparr>))"

definition LookupSession :: "DedupCache \<Rightarrow> EventKey \<Rightarrow> string option" where
  "LookupSession c key =
     (case gget (dc_entries c) (canon_key key) of
        None \<Rightarrow> None
      | Some e \<Rightarrow> if de_SessionID e = [] then None else Some (de_SessionID e))"

definition ActiveBoundCount :: "open_check \<Rightarrow> DedupCache \<Rightarrow> gotime \<Rightarrow> nat" where
  "ActiveBoundCount isOpen c now =
     length (filter (\<lambda>(k, e). \<not> rs_Resolved e
               \<and> ((dc_window c \<le> 0 \<or> time_Sub now (de_LastSeen e) \<le> dc_window c)
                  \<or> rs_SessionClass e \<and> de_SessionID e \<noteq> [] \<and> de_Incident e \<noteq> None
                    \<and> isGroupOpen isOpen (dc_entries c) k e)) (dc_entries c))"

definition Len :: "DedupCache \<Rightarrow> nat" where
  "Len c = length (dc_entries c)"

subsection \<open>Joins between related incidents\<close>

text \<open>The preference among the matches of one candidate: later activity, then the smaller UID.\<close>

definition more_recent :: "EventKey \<times> dedupEntry \<Rightarrow> EventKey \<times> dedupEntry \<Rightarrow> bool" where
  "more_recent x y =
     (de_LastSeen (snd x) > de_LastSeen (snd y)
      \<or> de_LastSeen (snd x) = de_LastSeen (snd y) \<and> ek_UID (fst x) < ek_UID (fst y))"

definition ancestor_match :: "EventKey \<Rightarrow> string \<Rightarrow> EventKey \<times> dedupEntry \<Rightarrow> bool" where
  "ancestor_match self cand ke =
     (let (k, e) = ke
      in \<not> (k = self \<or> de_SessionID e = [] \<or> de_Storm e \<noteq> []) \<and> cand \<in> set (de_AncestorKeys e))"

fun reattach ::
  "DedupCache \<Rightarrow> EventKey \<Rightarrow> string list \<Rightarrow> string \<Rightarrow> (string \<times> string) option \<times> DedupCache" where
  "reattach c self [] family = (None, c)"
| "reattach c self (cand # cands) family =
     (case scan_best more_recent None (filter (ancestor_match self cand) (dc_entries c)) of
        None \<Rightarrow> reattach c self cands family
      | Some (bestKey, best) \<Rightarrow>
          if family \<in> set (de_FollowupSources best) then (None, c)
          else (Some (de_SessionID best, cand),
                c\<lparr>dc_entries := gmod bestKey
                     (\<lambda>e. e\<lparr>de_FollowupSources := de_FollowupSources e @ [family]\<rparr>) (dc_entries c)\<rparr>))"

definition SessionForAncestors ::
  "DedupCache \<Rightarrow> EventKey \<Rightarrow> string list \<Rightarrow> string \<Rightarrow> (string \<times> string) option \<times> DedupCache" where
  "SessionForAncestors c self candidates family = reattach c (canon_key self) candidates family"

definition sibling_match ::
  "DedupCache \<Rightarrow> gotime \<Rightarrow> EventKey \<Rightarrow> string \<Rightarrow> string \<Rightarrow> EventKey \<times> dedupEntry \<Rightarrow> bool" where
  "sibling_match c now self kind cand ke =
     (let (k, e) = ke
      in \<not> (k = self \<or> ek_Reason k \<noteq> ek_Reason self \<or> de_SourceKind e \<noteq> kind \<or> de_SessionID e = []
            \<or> de_Storm e \<noteq> [] \<or> time_Sub now (de_LastSeen e) > dc_window c)
         \<and> cand \<in> set (de_AncestorKeys e))"

text \<open>Folding \<open>self\<close> under the root of the match: the parent first, then the root's counters.\<close>

definition fold_under :: "EventKey \<Rightarrow> EventKey \<Rightarrow> dedup_entries \<Rightarrow> dedup_entries" where
  "fold_under self rootKey es =
     gmod rootKey (\<lambda>e. e\<lparr>de_Count := de_Count e + 1, rs_InjectCount := rs_InjectCount e + 1\<rparr>)
       (gmod self (\<lambda>e. e\<lparr>de_Parent := Some rootKey\<rparr>) es)"

fun fold_sibling ::
  "DedupCache \<Rightarrow> gotime \<Rightarrow> EventKey \<Rightarrow> string \<Rightarrow> string list \<Rightarrow> (string \<times> string) option \<times> DedupCache" where
  "fold_sibling c now self kind [] = (None, c)"
| "fold_sibling c now self kind (cand # cands) =
     (case scan_best more_recent None (filter (sibling_match c now self kind cand) (dc_entries c)) of
        None \<Rightarrow> fold_sibling c now self kind cands
      | Some (bestKey, best) \<Rightarrow>
          (let rootKey = (case de_Parent best of Some p \<Rightarrow> p | None \<Rightarrow> bestKey)
           in (Some (de_SessionID best, cand),
               c\<lparr>dc_entries := fold_under self rootKey (dc_entries c)\<rparr>)))"

definition SessionForSibling ::
  "DedupCache \<Rightarrow> gotime \<Rightarrow> EventKey \<Rightarrow> string \<Rightarrow> string list \<Rightarrow> (string \<times> string) option \<times> DedupCache" where
  "SessionForSibling c now self kind candidates = fold_sibling c now (canon_key self) kind candidates"

definition SiblingGroup :: "DedupCache \<Rightarrow> EventKey \<Rightarrow> (EventKey \<times> EventKey list) option" where
  "SiblingGroup c key0 =
     (let key = canon_key key0; es = dc_entries c in
      case gget es key of
        None \<Rightarrow> None
      | Some entry \<Rightarrow>
          if de_SessionID entry = [] \<or> de_Storm entry \<noteq> [] then None
          else
            (case (if de_Parent entry = None then Some key
                   else (case resolveParent es entry of
                           None \<Rightarrow> None
                         | Some (rk, r) \<Rightarrow>
                             if de_SessionID r \<noteq> de_SessionID entry \<or> de_Storm r \<noteq> [] then None
                             else Some rk)) of
               None \<Rightarrow> None
             | Some rootKey \<Rightarrow>
                 (let group = rootKey # map fst (filter (\<lambda>(k, e). k \<noteq> rootKey
                                \<and> de_Parent e = Some rootKey \<and> de_SessionID e = de_SessionID entry
                                \<and> de_Storm e = []) es)
                  in if length group < 2 then None else Some (rootKey, group))))"

definition CrossSourceJoin :: "DedupCache \<Rightarrow> EventKey \<Rightarrow> string \<Rightarrow> string option \<times> DedupCache" where
  "CrossSourceJoin c key kind =
     (let family = SourceFamily kind in
      case gget (dc_entries c) (canon_key key) of
        None \<Rightarrow> (None, c)
      | Some e \<Rightarrow>
          if de_SourceKind e = [] \<or> SourceFamily (de_SourceKind e) = family then (None, c)
          else if family \<in> set (de_FollowupSources e) then (None, c)
          else (Some (SourceFamily (de_SourceKind e)),
                at_key key (\<lambda>e. e\<lparr>de_FollowupSources := de_FollowupSources e @ [family]\<rparr>) c))"

subsection \<open>Restart\<close>

text \<open>Seeding the recovery tracker; resolved entries past their window are retired on the way.\<close>

definition binding_step ::
  "gotime \<Rightarrow> BoundIncident list \<times> DedupCache \<Rightarrow> EventKey \<times> dedupEntry \<Rightarrow> BoundIncident list \<times> DedupCache" where
  "binding_step now acc ke =
     (let (out, c) = acc; (key, e) = ke in
      if rs_Resolved e then
        (if dc_window c > 0 \<and> time_Sub now (de_LastSeen e) > dc_window c then (out, retire c key e)
         else (out, c))
      else
        (case de_Incident e of
           None \<Rightarrow> (out, c)
         | Some ref \<Rightarrow>
             if de_SessionID e = [] then (out, c)
             else (out @ [\<lparr>bi_Key = key, bi_SessionID = de_SessionID e, bi_FirstSeen = de_FirstSeen e,
                           bi_Ref = ref\<rparr>], c)))"

definition Bindings :: "DedupCache \<Rightarrow> gotime \<Rightarrow> BoundIncident list \<times> DedupCache" where
  "Bindings c now = foldl (binding_step now) ([], c) (dc_entries c)"

definition serializeKey :: "EventKey \<Rightarrow> string" where
  "serializeKey k = ek_UID k @ ''|'' @ ek_Reason k"

definition deserializeKey :: "string \<Rightarrow> EventKey option" where
  "deserializeKey s =
     (case strings_IndexByte s CHR ''|'' of
        None \<Rightarrow> None
      | Some i \<Rightarrow> Some \<lparr>ek_UID = take i s, ek_Reason = drop (Suc i) s\<rparr>)"

text \<open>
  The map that \<^verbatim>\<open>Snapshot\<close> encodes and the entries that \<^verbatim>\<open>restore\<close> hydrates from it. The JSON
  encoding and the file in between are not modelled.
\<close>

definition snapshot_map :: "DedupCache \<Rightarrow> (string, dedupEntry) gomap" where
  "snapshot_map c = foldl (\<lambda>m (k, v). gput (serializeKey k) v m) [] (dc_entries c)"

definition restore_map :: "DedupCache \<Rightarrow> (string, dedupEntry) gomap \<Rightarrow> DedupCache" where
  "restore_map c snapshot =
     c\<lparr>dc_entries :=
         foldl (\<lambda>es (s, e). case deserializeKey s of None \<Rightarrow> es | Some k \<Rightarrow> gput k e es)
           (dc_entries c) snapshot\<rparr>"

end
