(* ===== verification/DedupBounds.thy ===== *)
theory DedupBounds
  imports Dedup
begin

section \<open>The dedup cache: operations, invariant and eviction\<close>

text \<open>
  The operations of the cache as one datatype, so that a history is a list of them, and what
  every history keeps: distinct keys, both maps within the cap, and classes in order. The two
  eviction steps are instances of \<open>bounded_store\<close>.
\<close>

datatype cache_op =
    OpObserve EventKey Observation
  | OpMarkUndelivered EventKey string
  | OpUnbind EventKey
  | OpMarkResolved EventKey
  | OpBindSession EventKey string
  | OpBindIncident EventKey string IncidentRef
  | OpAttachToStorm EventKey string string IncidentRef
  | OpNoteIncidentKind EventKey string
  | OpNoteAncestors EventKey "string list"
  | OpSessionForAncestors EventKey "string list" string
  | OpSessionForSibling EventKey string "string list"
  | OpCrossSourceJoin EventKey string
  | OpBindings
  | OpSweep

fun cache_exec :: "open_check \<Rightarrow> gotime \<Rightarrow> cache_op \<Rightarrow> DedupCache \<Rightarrow> DedupCache" where
  "cache_exec isOpen now (OpObserve key obs) c = snd (ObserveSignal isOpen c now key obs)"
| "cache_exec isOpen now (OpMarkUndelivered key change) c = MarkUndelivered c key change"
| "cache_exec isOpen now (OpUnbind key) c = Unbind c now key"
| "cache_exec isOpen now (OpMarkResolved key) c = MarkResolved c key"
| "cache_exec isOpen now (OpBindSession key sid) c = BindSession c key sid"
| "cache_exec isOpen now (OpBindIncident key sid ref) c = BindIncident c key sid ref"
| "cache_exec isOpen now (OpAttachToStorm key sid fp ref) c = AttachToStorm c key sid fp ref"
| "cache_exec isOpen now (OpNoteIncidentKind key kind) c = NoteIncidentKind c key kind"
| "cache_exec isOpen now (OpNoteAncestors key keys) c = NoteAncestors c key keys"
| "cache_exec isOpen now (OpSessionForAncestors self cands family) c = snd (SessionForAncestors c self cands family)"
| "cache_exec isOpen now (OpSessionForSibling self kind cands) c = snd (SessionForSibling c now self kind cands)"
| "cache_exec isOpen now (OpCrossSourceJoin key kind) c = snd (CrossSourceJoin c key kind)"
| "cache_exec isOpen now OpBindings c = snd (Bindings c now)"
| "cache_exec isOpen now OpSweep c = snd (Sweep isOpen c now)"

type_synonym cache_history = "(open_check \<times> gotime \<times> cache_op) list"

fun cache_run :: "DedupCache \<Rightarrow> cache_history \<Rightarrow> DedupCache" where
  "cache_run c [] = c"
| "cache_run c ((isOpen, now, op) # h) = cache_run (cache_exec isOpen now op c) h"

subsection \<open>The eviction steps\<close>

lemma evict_tombstone_set: "set (evict_tombstone cap ts) \<subseteq> set ts"
  by (auto simp: evict_tombstone_def split: option.splits dest: set_gdel[THEN subsetD])

lemma evict_tombstone_free:
  assumes "0 < cap" and "length ts \<le> cap" shows "length (evict_tombstone cap ts) < cap"
proof (cases "length ts \<ge> cap")
  case True
  let ?scan = "scan_best (\<lambda>x y. tb_LastSeen (snd x) < tb_LastSeen (snd y)) None ts"
  have "ts \<noteq> []" using True assms by auto
  then obtain k t where b: "?scan = Some (k, t)" "(k, t) \<in> set ts" using scan_best_pair by blast
  then have "k \<in> fst ` set ts" by force
  then show ?thesis
    using b True assms length_gdel_less[of k ts] by (simp add: evict_tombstone_def)
qed (simp add: evict_tombstone_def)

interpretation tomb_store: bounded_store cap "evict_tombstone cap"
proof unfold_locales
  fix m :: "(EventKey, tombstone) gomap"
  show "fst ` set (evict_tombstone cap m) \<subseteq> fst ` set m" using evict_tombstone_set by (rule image_mono)
  show "gokeys m \<Longrightarrow> gokeys (evict_tombstone cap m)"
    by (auto simp: evict_tombstone_def split: option.splits)
  show "0 < cap \<Longrightarrow> gokeys m \<Longrightarrow> length m \<le> cap \<Longrightarrow> length (evict_tombstone cap m) < cap"
    by (rule evict_tombstone_free)
qed

definition tombs_ok :: "DedupCache \<Rightarrow> bool" where
  "tombs_ok c = (gokeys (dc_tombstones c) \<and> length (dc_tombstones c) \<le> dc_max c)"

lemma retire_fields [simp]:
  "dc_entries (retire c k e) = gdel k (dc_entries c)"
  "dc_window (retire c k e) = dc_window c"
  "dc_max (retire c k e) = dc_max c"
  "dc_lastSweep (retire c k e) = dc_lastSweep c"
  by (simp_all add: retire_def Let_def)

lemma retire_tombs_ok:
  assumes "tombs_ok c" and "0 < dc_max c" shows "tombs_ok (retire c k e)"
proof (cases "gget (dc_tombstones c) k")
  case None
  then show ?thesis
    using assms tomb_store.store_bounded tomb_store.store_gokeys
    by (simp add: tombs_ok_def retire_def Let_def)
next
  case (Some t)
  then have "k \<in> fst ` set (dc_tombstones c)" using gget_in_keys[of "dc_tombstones c" k] by simp
  then show ?thesis using assms Some by (simp add: tombs_ok_def retire_def Let_def length_gput)
qed

text \<open>What a pass over the entries that only ever removes keeps.\<close>

definition shrinks :: "DedupCache \<Rightarrow> DedupCache \<Rightarrow> bool" where
  "shrinks c c' =
     (set (dc_entries c') \<subseteq> set (dc_entries c) \<and> length (dc_entries c') \<le> length (dc_entries c)
      \<and> (gokeys (dc_entries c) \<longrightarrow> gokeys (dc_entries c'))
      \<and> dc_window c' = dc_window c \<and> dc_max c' = dc_max c
      \<and> (tombs_ok c \<and> 0 < dc_max c \<longrightarrow> tombs_ok c'))"

lemma shrinks_refl [simp]: "shrinks c c"
  by (simp add: shrinks_def)

lemma shrinks_trans: "shrinks c c1 \<Longrightarrow> shrinks c1 c2 \<Longrightarrow> shrinks c c2"
  by (auto simp: shrinks_def)

lemma shrinks_retire [simp]: "shrinks c (retire c k e)"
  by (auto simp: shrinks_def length_delete_le retire_tombs_ok dest: set_gdel[THEN subsetD])

lemma shrinks_delete [simp]: "shrinks c (c\<lparr>dc_entries := gdel k (dc_entries c)\<rparr>)"
  by (auto simp: shrinks_def length_delete_le tombs_ok_def dest: set_gdel[THEN subsetD])

lemma shrinks_sweep_entry: "shrinks (fst acc) (fst (sweep_entry isOpen now acc ke))"
  by (auto simp: sweep_entry_def Let_def split: prod.splits)

lemma shrinks_sweep_fold: "shrinks (fst acc) (fst (foldl (sweep_entry isOpen now) acc xs))"
  by (rule foldl_invariant) (auto intro: shrinks_trans shrinks_sweep_entry)

lemma shrinks_sweepExpired: "shrinks c (snd (sweepExpired isOpen c now))"
proof -
  let ?c = "c\<lparr>dc_lastSweep := now\<rparr>"
  let ?f = "fst (foldl (sweep_entry isOpen now) (?c, 0) (dc_entries c))"
  have 0: "shrinks c ?c" by (simp add: shrinks_def tombs_ok_def)
  have 1: "shrinks c ?f" using shrinks_trans[OF 0] shrinks_sweep_fold[of "(?c, 0)"] by simp
  have "shrinks ?f (?f\<lparr>dc_tombstones := filter P (dc_tombstones ?f)\<rparr>)" for P
    by (auto simp: shrinks_def tombs_ok_def intro: le_trans[OF length_filter_le])
  then show ?thesis
    using 0 shrinks_trans[OF 1] by (auto simp: sweepExpired_def Let_def split: prod.splits)
qed

lemma shrinks_maybeSweep: "shrinks c (maybeSweep isOpen c now)"
  by (simp add: maybeSweep_def shrinks_sweepExpired)

lemma shrinks_evictIfFull: "shrinks c (evictIfFull isOpen c now)"
  using shrinks_sweepExpired[of c isOpen now]
  by (auto simp: evictIfFull_def Let_def split: option.splits intro: shrinks_trans)

lemma evictIfFull_free:
  assumes "0 < dc_max c" shows "length (dc_entries c) \<le> dc_max c \<Longrightarrow> length (dc_entries (evictIfFull isOpen c now)) < dc_max c"
proof (cases "length (dc_entries c) < dc_max c")
  case False
  let ?c = "snd (sweepExpired isOpen c now)"
  let ?scan = "scan_best (evict_before isOpen ?c now) None (dc_entries ?c)"
  assume le: "length (dc_entries c) \<le> dc_max c"
  have s: "dc_max ?c = dc_max c" "length (dc_entries ?c) \<le> dc_max c"
    using shrinks_sweepExpired[of c isOpen now] le by (auto simp: shrinks_def)
  show ?thesis
  proof (cases "length (dc_entries ?c) < dc_max c")
    case True
    then show ?thesis using False s by (simp add: evictIfFull_def Let_def)
  next
    case full: False
    then have "dc_entries ?c \<noteq> []" using assms by auto
    then obtain k e where b: "?scan = Some (k, e)" "(k, e) \<in> set (dc_entries ?c)"
      using scan_best_pair by blast
    then have "k \<in> fst ` set (dc_entries ?c)" by force
    then have "length (gdel k (dc_entries ?c)) < dc_max c"
      using length_gdel_less[of k "dc_entries ?c"] s by simp
    moreover have "dc_entries (evictIfFull isOpen c now) = gdel k (dc_entries ?c)"
      using False full b s by (simp add: evictIfFull_def Let_def)
    ultimately show ?thesis by simp
  qed
qed (simp add: evictIfFull_def)

interpretation entry_store: bounded_store "dc_max c"
  "\<lambda>m. dc_entries (evictIfFull isOpen (c\<lparr>dc_entries := m\<rparr>) now)"
proof unfold_locales
  fix m :: dedup_entries
  let ?c = "c\<lparr>dc_entries := m\<rparr>"
  show "fst ` set (dc_entries (evictIfFull isOpen ?c now)) \<subseteq> fst ` set m"
    using shrinks_evictIfFull[of ?c isOpen now] by (auto simp: shrinks_def)
  show "gokeys m \<Longrightarrow> gokeys (dc_entries (evictIfFull isOpen ?c now))"
    using shrinks_evictIfFull[of ?c isOpen now] by (auto simp: shrinks_def)
  show "0 < dc_max c \<Longrightarrow> gokeys m \<Longrightarrow> length m \<le> dc_max c \<Longrightarrow>
        length (dc_entries (evictIfFull isOpen ?c now)) < dc_max c"
    using evictIfFull_free[of ?c isOpen now] by simp
qed

subsection \<open>The invariant\<close>

definition dedup_ok :: "DedupCache \<Rightarrow> bool" where
  "dedup_ok c =
     (0 < dc_max c \<and> gokeys (dc_entries c) \<and> length (dc_entries c) \<le> dc_max c \<and> tombs_ok c
      \<and> (\<forall>(k, e) \<in> set (dc_entries c). classes_ok e))"

lemma ok_shrinks: "dedup_ok c \<Longrightarrow> shrinks c c' \<Longrightarrow> dedup_ok c'"
  by (auto simp: dedup_ok_def shrinks_def)

lemma ok_entry: "dedup_ok c \<Longrightarrow> gget (dc_entries c) k = Some e \<Longrightarrow> classes_ok e"
  by (auto simp: dedup_ok_def dest!: map_of_SomeD)

lemma ok_put:
  assumes "dedup_ok c" and "classes_ok e" and "gget (dc_entries c) k \<noteq> None"
  shows "dedup_ok (c\<lparr>dc_entries := gput k e (dc_entries c)\<rparr>)"
  using assms gget_in_keys[of "dc_entries c" k]
  by (auto simp: dedup_ok_def tombs_ok_def length_gput dest!: set_gput[THEN subsetD])

lemma ok_gmod:
  assumes "dedup_ok c" and "\<And>e. classes_ok e \<Longrightarrow> classes_ok (f e)"
  shows "dedup_ok (c\<lparr>dc_entries := gmod k f (dc_entries c)\<rparr>)"
proof (cases "gget (dc_entries c) k")
  case None
  then show ?thesis using assms(1) by (simp add: gmod_def)
next
  case (Some e)
  then show ?thesis
    using assms ok_put[OF assms(1), of "f e" k] ok_entry[OF assms(1) Some] by (simp add: gmod_def)
qed

lemma ok_at_key: "dedup_ok c \<Longrightarrow> (\<And>e. classes_ok e \<Longrightarrow> classes_ok (f e)) \<Longrightarrow> dedup_ok (at_key key f c)"
  unfolding at_key_def by (rule ok_gmod)

lemma ok_tombs: "dedup_ok c \<Longrightarrow> dedup_ok (c\<lparr>dc_tombstones := gdel k (dc_tombstones c)\<rparr>)"
  using length_delete_le[of k "dc_tombstones c"] by (auto simp: dedup_ok_def tombs_ok_def)

lemma newDedupEntry_classes: "classes_ok (newDedupEntry now obs cl)"
  by (simp add: newDedupEntry_def newRepeatState_def repeatState.defs classes_ok_def maxRepeatClasses_def)

lemma ok_open_new: "dedup_ok c \<Longrightarrow> dedup_ok (snd (open_new isOpen c now key obs cl))"
proof -
  assume ok: "dedup_ok c"
  let ?c = "evictIfFull isOpen c now"
  have ok': "dedup_ok ?c" by (rule ok_shrinks[OF ok shrinks_evictIfFull])
  have "length (gput key v (dc_entries ?c)) \<le> dc_max ?c" for v
    using entry_store.store_bounded[of c "dc_entries c" key v isOpen now] ok ok'
      shrinks_evictIfFull[of c isOpen now]
    by (simp add: dedup_ok_def shrinks_def)
  then show ?thesis
    using ok' newDedupEntry_classes
    by (auto simp: open_new_def Let_def dedup_ok_def tombs_ok_def dest!: set_gput[THEN subsetD])
qed

lemma bump_classes: "classes_ok e \<Longrightarrow> classes_ok (bump now ts e)"
  by (simp add: bump_def classes_ok_def)

lemma observe_root_classes:
  assumes "observe_root w now obs cl rt = Some (r, rt')" and "classes_ok rt" shows "classes_ok rt'"
proof (cases "ob_Repeatable obs")
  case True
  have 1: "classes_ok (snd (repeat w rt now (ob_LastTS obs) cl l))" for l
    using repeat_classes assms(2) by blast
  have 2: "classes_ok (note_occurrence w now (ob_LastTS obs) cl (rt\<lparr>rs_InjectCount := n\<rparr>))" for n
    using assms(2) by (intro note_occurrence_classes) (simp add: classes_ok_def)
  show ?thesis
    using assms(1) 1 2 True by (auto simp: observe_root_def Let_def split: if_splits) (metis snd_conv)+
next
  case False
  then show ?thesis
    using assms by (auto simp: observe_root_def Let_def bump_def classes_ok_def split: if_splits)
qed

lemma ok_observe_own:
  assumes "dedup_ok c" and "gget (dc_entries c) key \<noteq> None" and "classes_ok e"
  shows "dedup_ok (snd (observe_own isOpen c now key obs cl e))"
proof -
  have "classes_ok (snd (repeat w e now ts cl l))" for w ts l by (rule repeat_classes[OF assms(3)])
  then show ?thesis
    using assms(1,3) ok_put[OF assms(1) _ assms(2)] ok_open_new note_occurrence_classes bump_classes
    by (simp add: observe_own_def Let_def case_prod_beta)
qed

text \<open>The four ways an observation of a known key goes; \<open>c1\<close> has the entry bumped.\<close>

lemma observe_present_cases:
  assumes c1: "c1 = c\<lparr>dc_entries := gput key (bump now (ob_LastTS obs) e) (dc_entries c)\<rparr>"
  obtains
    (replay) "ob_LastTS obs \<le> de_EventLastTS e"
      "observe_present isOpen c now key obs cl e =
         (dup_result (e\<lparr>de_Count := de_Count e + 1\<rparr>),
          c\<lparr>dc_entries := gput key (e\<lparr>de_Count := de_Count e + 1\<rparr>) (dc_entries c)\<rparr>)"
  | (own) "de_EventLastTS e < ob_LastTS obs" "fold_target isOpen (dc_entries c) e = None"
      "observe_present isOpen c now key obs cl e = observe_own isOpen c now key obs cl e"
  | (delegated) k rt r rt' where "de_EventLastTS e < ob_LastTS obs"
      "fold_target isOpen (dc_entries c) e = Some k" "gget (dc_entries c1) k = Some rt"
      "observe_root (dc_window c) now obs cl rt = Some (r, rt')"
      "observe_present isOpen c now key obs cl e = (r, c1\<lparr>dc_entries := gput k rt' (dc_entries c1)\<rparr>)"
  | (fallthrough) k where "de_EventLastTS e < ob_LastTS obs"
      "fold_target isOpen (dc_entries c) e = Some k"
      "observe_present isOpen c now key obs cl e =
         observe_own isOpen c1 now key obs cl (bump now (ob_LastTS obs) e)"
proof (cases "ob_LastTS obs \<le> de_EventLastTS e")
  case True
  then show ?thesis using replay by (simp add: observe_present_def Let_def)
next
  case False
  then have ts: "de_EventLastTS e < ob_LastTS obs" by simp
  note unf = observe_present_def[of isOpen c now key obs cl e, unfolded Let_def, folded c1]
  show ?thesis
  proof (cases "fold_target isOpen (dc_entries c) e")
    case None
    then show ?thesis using own ts unf by simp
  next
    case (Some k)
    show ?thesis
    proof (cases "gget (dc_entries c1) k")
      case None
      then show ?thesis using fallthrough[OF ts Some] ts Some unf by simp
    next
      case get: (Some rt)
      show ?thesis
      proof (cases "observe_root (dc_window c) now obs cl rt")
        case None
        then show ?thesis using fallthrough[OF ts Some] ts Some get unf by simp
      next
        case (Some p)
        then show ?thesis
          using delegated[OF ts _ get] \<open>fold_target isOpen (dc_entries c) e = Some k\<close> ts get unf
          by (cases p) simp
      qed
    qed
  qed
qed

lemma ok_observe_present:
  assumes ok: "dedup_ok c" and get: "gget (dc_entries c) key = Some e"
  shows "dedup_ok (snd (observe_present isOpen c now key obs cl e))"
proof -
  define c1 where "c1 = c\<lparr>dc_entries := gput key (bump now (ob_LastTS obs) e) (dc_entries c)\<rparr>"
  have ce: "classes_ok e" using ok_entry[OF ok get] .
  have ok1: "dedup_ok c1" unfolding c1_def using ok_put[OF ok bump_classes[OF ce]] get by simp
  have in1: "gget (dc_entries c1) key \<noteq> None" by (simp add: c1_def)
  from c1_def show ?thesis
  proof (cases rule: observe_present_cases[where isOpen = isOpen and cl = cl])
    case replay
    then show ?thesis using ok_put[OF ok] ce get by (simp add: classes_ok_def)
  next
    case own
    then show ?thesis using ok_observe_own[OF ok _ ce] get by simp
  next
    case (delegated k rt r rt')
    then show ?thesis
      using ok_put[OF ok1 observe_root_classes[OF delegated(4) ok_entry[OF ok1 delegated(3)]]] by simp
  next
    case fallthrough
    then show ?thesis using ok_observe_own[OF ok1 in1 bump_classes[OF ce]] by simp
  qed
qed

lemma ok_ObserveSignal: "dedup_ok c \<Longrightarrow> dedup_ok (snd (ObserveSignal isOpen c now key obs))"
  using ok_shrinks[OF _ shrinks_maybeSweep, of c isOpen now] ok_open_new ok_tombs ok_observe_present
  by (auto simp: ObserveSignal_def observe_absent_def Let_def split: option.split)

lemma ok_reattach: "dedup_ok c \<Longrightarrow> dedup_ok (snd (reattach c self cands family))"
  by (induction c self cands family rule: reattach.induct)
     (auto simp: classes_ok_def split: option.split intro!: ok_gmod)

lemma ok_fold_under:
  assumes "dedup_ok c" shows "dedup_ok (c\<lparr>dc_entries := fold_under self rk (dc_entries c)\<rparr>)"
proof -
  have "dedup_ok (c\<lparr>dc_entries := gmod self (\<lambda>e. e\<lparr>de_Parent := Some rk\<rparr>) (dc_entries c)\<rparr>)" (is "dedup_ok ?c")
    by (rule ok_gmod[OF assms]) (simp add: classes_ok_def)
  then have "dedup_ok (?c\<lparr>dc_entries := gmod rk (\<lambda>e. e\<lparr>de_Count := de_Count e + 1,
      rs_InjectCount := rs_InjectCount e + 1\<rparr>) (dc_entries ?c)\<rparr>)"
    by (rule ok_gmod) (simp add: classes_ok_def)
  then show ?thesis by (simp add: fold_under_def)
qed

lemma ok_fold_sibling: "dedup_ok c \<Longrightarrow> dedup_ok (snd (fold_sibling c now self kind cands))"
  by (induction c now self kind cands rule: fold_sibling.induct)
     (auto simp: Let_def ok_fold_under split: option.split)

lemma shrinks_Bindings: "shrinks c (snd (Bindings c now))"
proof -
  have step: "shrinks (snd acc) (snd (binding_step now acc ke))" for acc ke
    by (auto simp: binding_step_def Let_def split: prod.splits option.splits)
  show ?thesis
    unfolding Bindings_def
    by (rule foldl_invariant[where I = "\<lambda>acc. shrinks c (snd acc)"]) (auto intro: shrinks_trans step)
qed

lemma ok_exec: "dedup_ok c \<Longrightarrow> dedup_ok (cache_exec isOpen now op c)"
proof (induction op)
  case OpSweep
  then show ?case by (simp add: Sweep_def ok_shrinks[OF _ shrinks_sweepExpired])
next
  case OpBindings
  then show ?case by (simp add: ok_shrinks[OF _ shrinks_Bindings])
next
  case (OpBindIncident key sid ref)
  then show ?case
    by (auto simp: BindIncident_def Let_def drop_stale_parent_def classes_ok_def split: option.split
        intro!: ok_at_key)
next
  case (OpCrossSourceJoin key kind)
  then show ?case
    by (auto simp: CrossSourceJoin_def Let_def classes_ok_def split: option.split intro!: ok_at_key)
qed (auto simp: ok_ObserveSignal SessionForAncestors_def ok_reattach SessionForSibling_def
      ok_fold_sibling MarkUndelivered_def Unbind_def MarkResolved_def BindSession_def AttachToStorm_def
      NoteIncidentKind_def NoteAncestors_def markUndelivered_def markResolved_def resetForUnbind_def
      classes_ok_def intro!: ok_at_key)

lemma ok_run: "dedup_ok c \<Longrightarrow> dedup_ok (cache_run c h)"
  by (induction c h rule: cache_run.induct) (auto intro: ok_exec)

lemma shrinks_cfg: "shrinks c c' \<Longrightarrow> dc_max c' = dc_max c \<and> dc_window c' = dc_window c"
  by (simp add: shrinks_def)

lemma open_new_cfg: "dc_max (snd (open_new isOpen c now key obs cl)) = dc_max c
  \<and> dc_window (snd (open_new isOpen c now key obs cl)) = dc_window c"
  using shrinks_cfg[OF shrinks_evictIfFull[of c isOpen now]] by (simp add: open_new_def Let_def)

lemma observe_own_cfg: "dc_max (snd (observe_own isOpen c now key obs cl e)) = dc_max c
  \<and> dc_window (snd (observe_own isOpen c now key obs cl e)) = dc_window c"
  using open_new_cfg by (simp add: observe_own_def Let_def case_prod_beta)

lemma observe_present_cfg: "dc_max (snd (observe_present isOpen c now key obs cl e)) = dc_max c
  \<and> dc_window (snd (observe_present isOpen c now key obs cl e)) = dc_window c"
  using observe_own_cfg by (auto simp: observe_present_def Let_def split: option.split)

lemma ObserveSignal_cfg: "dc_max (snd (ObserveSignal isOpen c now key obs)) = dc_max c
  \<and> dc_window (snd (ObserveSignal isOpen c now key obs)) = dc_window c"
  using observe_present_cfg open_new_cfg shrinks_cfg[OF shrinks_maybeSweep[of c isOpen now]]
  by (auto simp: ObserveSignal_def observe_absent_def Let_def split: option.split)

lemma reattach_cfg: "dc_max (snd (reattach c self cands family)) = dc_max c
  \<and> dc_window (snd (reattach c self cands family)) = dc_window c"
  by (induction c self cands family rule: reattach.induct) (auto split: option.split)

lemma fold_sibling_cfg: "dc_max (snd (fold_sibling c now self kind cands)) = dc_max c
  \<and> dc_window (snd (fold_sibling c now self kind cands)) = dc_window c"
  by (induction c now self kind cands rule: fold_sibling.induct) (auto simp: Let_def split: option.split)

lemma exec_cfg [simp]:
  "dc_max (cache_exec isOpen now op c) = dc_max c"
  "dc_window (cache_exec isOpen now op c) = dc_window c"
  using ObserveSignal_cfg reattach_cfg fold_sibling_cfg shrinks_cfg[OF shrinks_Bindings[of c now]]
    shrinks_cfg[OF shrinks_sweepExpired[of c isOpen now]]
  by (cases op; simp add: SessionForAncestors_def SessionForSibling_def MarkUndelivered_def Unbind_def
      MarkResolved_def BindSession_def BindIncident_def AttachToStorm_def NoteIncidentKind_def
      NoteAncestors_def CrossSourceJoin_def Let_def at_key_def Sweep_def split: option.split)+

lemma run_cfg [simp]: "dc_max (cache_run c h) = dc_max c" "dc_window (cache_run c h) = dc_window c"
  by (induction c h rule: cache_run.induct) auto

text \<open>
  C16: the dedup cache is bounded. Whatever the history of operations on a new cache, in whatever
  order, at whatever times and whatever the open check answers, the cache holds at most
  \<open>maxDedupEntries\<close> entries and as many tombstones, each key at most once in either map, and no
  entry remembers more than sixteen classes or one class twice.
\<close>

theorem dedup_cache_bounded:
  assumes "NewDedupCache window = Inr c"
  shows "Len (cache_run c h) \<le> maxDedupEntries
       \<and> length (dc_tombstones (cache_run c h)) \<le> maxDedupEntries
       \<and> gokeys (dc_entries (cache_run c h)) \<and> gokeys (dc_tombstones (cache_run c h))
       \<and> (\<forall>(k, e) \<in> set (dc_entries (cache_run c h)).
             distinct (rs_Classes e) \<and> length (rs_Classes e) \<le> maxRepeatClasses)"
proof -
  have max: "dc_max c = maxDedupEntries" and ok: "dedup_ok c"
    using assms by (auto simp: NewDedupCache_def dedup_ok_def tombs_ok_def maxDedupEntries_def split: if_splits)
  from ok_run[OF ok, of h] max show ?thesis
    by (auto simp: dedup_ok_def tombs_ok_def classes_ok_def Len_def)
qed

theorem dedup_cache_bounded_witness:
  "\<exists>c. NewDedupCache (5 * Minute) = Inr c
     \<and> Len (cache_run c [(None, 1000, OpObserve \<lparr>ek_UID = ''u'', ek_Reason = ''OOMKilled''\<rparr>
              \<lparr>ob_LastTS = 900, ob_Kind = [], ob_Severity = [], ob_Message = [], ob_Repeatable = True,
               ob_Downgraded = False\<rparr>)]) \<le> maxDedupEntries"
proof -
  obtain c where "NewDedupCache (5 * Minute) = Inr c" by (simp add: NewDedupCache_def dur_defs)
  with dedup_cache_bounded[OF this] show ?thesis by blast
qed

subsection \<open>Who is evicted\<close>

interpretation eviction: preference "evict_before isOpen c now"
  by unfold_locales (auto simp: evict_before_def Let_def)

lemma evictionTier_window: "dc_window c' = dc_window c \<Longrightarrow> evictionTier isOpen c' k e now = evictionTier isOpen c k e now"
  by (simp add: evictionTier_def)

text \<open>
  Eviction takes the least valuable entry. When the sweep has not made room, the entry that
  goes is of the lowest tier present (resolved or expired, then unbound, then closed, then open)
  and, within its tier, has the oldest activity; so a live incident the tracker holds open is
  evicted only from a cache full of such incidents.
\<close>

theorem eviction_takes_least:
  assumes "gokeys (dc_entries c)"
    and "(k, e) \<in> set (dc_entries (snd (sweepExpired isOpen c now)))"
    and "k \<notin> fst ` set (dc_entries (evictIfFull isOpen c now))"
    and "(k', e') \<in> set (dc_entries (evictIfFull isOpen c now))"
  shows "evictionTier isOpen c k e now \<le> evictionTier isOpen c k' e' now
       \<and> (evictionTier isOpen c k e now = evictionTier isOpen c k' e' now \<longrightarrow> de_LastSeen e \<le> de_LastSeen e')"
proof -
  let ?c = "snd (sweepExpired isOpen c now)"
  have sh: "gokeys (dc_entries ?c)" "dc_window ?c = dc_window c" "dc_max ?c = dc_max c"
    "set (dc_entries ?c) \<subseteq> set (dc_entries c)"
    using shrinks_sweepExpired[of c isOpen now] assms(1) by (auto simp: shrinks_def)
  have full: "\<not> length (dc_entries c) < dc_max c" "\<not> length (dc_entries ?c) < dc_max c"
    using assms(2,3) sh by (force simp: evictIfFull_def Let_def split: if_splits)+
  obtain vk v where b: "scan_best (evict_before isOpen ?c now) None (dc_entries ?c) = Some (vk, v)"
      "(vk, v) \<in> set (dc_entries ?c)"
    using assms(2) scan_best_pair[of "dc_entries ?c"] by (metis list.distinct(1) list.set_cases)
  have ev: "dc_entries (evictIfFull isOpen c now) = gdel vk (dc_entries ?c)"
    using full b sh by (simp add: evictIfFull_def Let_def)
  then have "vk = k" using assms(2,3) by (force simp: keys_gdel)
  then have "v = e" using b(2) assms(2) sh(1) by (metis map_of_is_SomeI option.inject)
  have "(k', e') \<in> set (dc_entries ?c)" using assms(4) ev set_gdel by fastforce
  then have "\<not> evict_before isOpen ?c now (k', e') (vk, v)"
    using eviction.scan_optimal[OF b(1), where x = "(k', e')"] by blast
  then show ?thesis
    using \<open>vk = k\<close> \<open>v = e\<close> evictionTier_window[OF sh(2)] by (auto simp: evict_before_def Let_def)
qed

text \<open>A cache of two, full: an unbound entry and a bound one the tracker holds open.\<close>

definition small_cache :: DedupCache where
  "small_cache =
     \<lparr>dc_entries = [(\<lparr>ek_UID = ''a'', ek_Reason = ''OOMKilled''\<rparr>, open_entry),
                    (\<lparr>ek_UID = ''b'', ek_Reason = ''OOMKilled''\<rparr>, open_entry\<lparr>de_SessionID := []\<rparr>)],
      dc_window = 5 * Minute, dc_max = 2, dc_lastSweep = 0, dc_tombstones = []\<rparr>"

theorem eviction_takes_least_witness:
  "evictionTier (Some (\<lambda>_. True)) small_cache \<lparr>ek_UID = ''b'', ek_Reason = ''OOMKilled''\<rparr>
      (open_entry\<lparr>de_SessionID := []\<rparr>) 2000
   \<le> evictionTier (Some (\<lambda>_. True)) small_cache \<lparr>ek_UID = ''a'', ek_Reason = ''OOMKilled''\<rparr> open_entry 2000"
proof -
  let ?a = "\<lparr>ek_UID = ''a'', ek_Reason = ''OOMKilled''\<rparr>" and ?b = "\<lparr>ek_UID = ''b'', ek_Reason = ''OOMKilled''\<rparr>"
  have "gokeys (dc_entries small_cache)" by code_simp
  moreover have "(?b, open_entry\<lparr>de_SessionID := []\<rparr>)
      \<in> set (dc_entries (snd (sweepExpired (Some (\<lambda>_. True)) small_cache 2000)))" by code_simp
  moreover have "?b \<notin> fst ` set (dc_entries (evictIfFull (Some (\<lambda>_. True)) small_cache 2000))" by code_simp
  moreover have "(?a, open_entry) \<in> set (dc_entries (evictIfFull (Some (\<lambda>_. True)) small_cache 2000))"
    by code_simp
  ultimately show ?thesis using eviction_takes_least by blast
qed

end
