(* ===== verification/DedupHistory.thy ===== *)
theory DedupHistory
  imports DedupBounds
begin

section \<open>The dedup cache: what a history of operations cannot do\<close>

text \<open>
  Two safety properties over arbitrary interleavings of the cache's operations: an Event that a
  resolved incident already handled never opens it again when it is delivered again, and an
  incident the recovery tracker holds open never opens a second session. The passes over the
  entries (the sweep and \<open>Bindings\<close>) share the contract \<open>entry_pass\<close>.
\<close>

fun verdicts :: "DedupCache \<Rightarrow> cache_history \<Rightarrow> (EventKey \<times> DedupResult) list" where
  "verdicts c [] = []"
| "verdicts c ((isOpen, now, op) # h) =
     (case op of
        OpObserve key obs \<Rightarrow> [(canon_key key, fst (ObserveSignal isOpen c now key obs))]
      | _ \<Rightarrow> [])
     @ verdicts (cache_exec isOpen now op c) h"

subsection \<open>Passes over the entries\<close>

text \<open>A resolved entry whose activity reaches \<open>T\<close> and \<open>dl\<close>, or the tombstone it left.\<close>

definition settled_entry :: "gotime \<Rightarrow> gotime \<Rightarrow> dedupEntry \<Rightarrow> bool" where
  "settled_entry T dl e = (rs_Resolved e \<and> T \<le> de_EventLastTS e \<and> dl \<le> de_LastSeen e)"

definition settled_tomb :: "gotime \<Rightarrow> gotime \<Rightarrow> tombstone \<Rightarrow> bool" where
  "settled_tomb T dl t = (T \<le> tb_EventLastTS t \<and> dl \<le> tb_LastSeen t)"

definition settled :: "EventKey \<Rightarrow> gotime \<Rightarrow> gotime \<Rightarrow> DedupCache \<Rightarrow> bool" where
  "settled k T dl c =
     (case gget (dc_entries c) k of
        Some e \<Rightarrow> settled_entry T dl e
      | None \<Rightarrow> (case gget (dc_tombstones c) k of None \<Rightarrow> False | Some t \<Rightarrow> settled_tomb T dl t))"

text \<open>Room for a tombstone of every entry.\<close>

definition tomb_room :: "DedupCache \<Rightarrow> bool" where
  "tomb_room c = (length (dc_tombstones c) + length (dc_entries c) \<le> dc_max c)"

lemma retire_room:
  assumes "gget (dc_entries c) k = Some e'" and "gokeys (dc_entries c)" and "tomb_room c"
  shows "dc_tombstones (retire c k e) =
           gput k \<lparr>tb_EventLastTS = de_EventLastTS e, tb_LastSeen = de_LastSeen e\<rparr> (dc_tombstones c)
       \<and> tomb_room (retire c k e)"
proof -
  have k: "k \<in> fst ` set (dc_entries c)" using assms(1) gget_in_keys[of "dc_entries c" k] by simp
  then have len: "Suc (length (gdel k (dc_entries c))) = length (dc_entries c)"
    using length_gdel[OF assms(2)] by simp
  then have "length (dc_tombstones c) < dc_max c" using assms(3) by (simp add: tomb_room_def)
  then have "dc_tombstones (retire c k e) =
      gput k \<lparr>tb_EventLastTS = de_EventLastTS e, tb_LastSeen = de_LastSeen e\<rparr> (dc_tombstones c)"
    by (simp add: retire_def Let_def evict_tombstone_def)
  then show ?thesis
    using len assms(3) by (auto simp: tomb_room_def length_gput)
qed

lemma settled_retire:
  assumes "gget (dc_entries c) k' = Some e'" and "gokeys (dc_entries c)" and "tomb_room c" and "settled k T dl c"
  shows "settled k T dl (retire c k' e')"
  using retire_room[OF assms(1-3), of e'] assms(1,4)
  by (auto simp: settled_def settled_entry_def settled_tomb_def gget_gdel split: option.splits)

lemma settled_delete:
  assumes "gget (dc_entries c) k' = Some e'" and "\<not> rs_Resolved e'" and "settled k T dl c"
  shows "settled k T dl (c\<lparr>dc_entries := gdel k' (dc_entries c)\<rparr>)"
  using assms by (auto simp: settled_def settled_entry_def gget_gdel split: option.splits)

lemma room_delete: "tomb_room c \<Longrightarrow> tomb_room (c\<lparr>dc_entries := gdel k (dc_entries c)\<rparr>)"
  using length_delete_le[of k "dc_entries c"] by (simp add: tomb_room_def)

lemma room_filter: "tomb_room c \<Longrightarrow> tomb_room (c\<lparr>dc_tombstones := filter P (dc_tombstones c)\<rparr>)"
  unfolding tomb_room_def by (simp, rule le_trans[OF add_right_mono[OF length_filter_le]])

text \<open>
  A pass visits every entry once and, at each, leaves the cache alone, retires the entry (only a
  resolved one) or drops it (neither a resolved nor a spared one).
\<close>

locale entry_pass =
  fixes cache :: "'s \<Rightarrow> DedupCache"
    and step :: "'s \<Rightarrow> EventKey \<times> dedupEntry \<Rightarrow> 's"
    and spared :: "EventKey \<Rightarrow> dedupEntry \<Rightarrow> bool"
  assumes pass_cases:
    "cache (step s (k, e)) = cache s
     \<or> rs_Resolved e \<and> cache (step s (k, e)) = retire (cache s) k e
     \<or> \<not> rs_Resolved e \<and> \<not> spared k e
       \<and> cache (step s (k, e)) = (cache s)\<lparr>dc_entries := gdel k (dc_entries (cache s))\<rparr>"
begin

text \<open>What is left to visit is still there.\<close>

lemma step_rest:
  assumes "gokeys (dc_entries (cache s))" and "distinct (map fst ((k, e) # xs))"
    and "set ((k, e) # xs) \<subseteq> set (dc_entries (cache s))"
  shows "gokeys (dc_entries (cache (step s (k, e)))) \<and> set xs \<subseteq> set (dc_entries (cache (step s (k, e))))"
proof -
  have "set xs \<subseteq> set (gdel k (dc_entries (cache s)))"
  proof
    fix x assume x: "x \<in> set xs"
    then have "fst x \<noteq> k" using assms(2) by force
    then show "x \<in> set (gdel k (dc_entries (cache s)))"
      using x assms(3) by (auto simp: AList.delete_eq)
  qed
  then show ?thesis using pass_cases[of s k e] assms(1,3) by auto
qed

lemma pass_settled:
  assumes "gokeys (dc_entries (cache s))" and "distinct (map fst xs)"
    and "set xs \<subseteq> set (dc_entries (cache s))" and "tomb_room (cache s)" and "settled k T dl (cache s)"
  shows "settled k T dl (cache (foldl step s xs)) \<and> tomb_room (cache (foldl step s xs))"
  using assms
proof (induction xs arbitrary: s)
  case (Cons x xs)
  obtain k' e' where x: "x = (k', e')" by (cases x)
  have get: "gget (dc_entries (cache s)) k' = Some e'"
    using Cons.prems(1,3) x by (simp add: map_of_is_SomeI)
  have st: "settled k T dl (cache (step s x)) \<and> tomb_room (cache (step s x))"
    using pass_cases[of s k' e'] Cons.prems(1,4,5) x get
      settled_retire[OF get] retire_room[OF get, of e'] settled_delete[OF get] room_delete
    by auto
  have rest: "gokeys (dc_entries (cache (step s x))) \<and> set xs \<subseteq> set (dc_entries (cache (step s x)))"
    unfolding x by (rule step_rest) (use Cons.prems x in auto)
  show ?case using Cons.IH[of "step s x"] st rest Cons.prems(2) by simp
qed simp

lemma pass_spared:
  assumes "gokeys (dc_entries (cache s))" and "distinct (map fst xs)"
    and "set xs \<subseteq> set (dc_entries (cache s))"
    and "gget (dc_entries (cache s)) k = Some e" and "\<not> rs_Resolved e" and "spared k e"
  shows "gget (dc_entries (cache (foldl step s xs))) k = Some e"
  using assms(1-4)
proof (induction xs arbitrary: s)
  case (Cons x xs)
  obtain k' e' where x: "x = (k', e')" by (cases x)
  have get: "gget (dc_entries (cache s)) k' = Some e'"
    using Cons.prems(1,3) x by (simp add: map_of_is_SomeI)
  have st: "gget (dc_entries (cache (step s x))) k = Some e"
    using pass_cases[of s k' e'] Cons.prems(4) x get assms(5,6) by (auto simp: gget_gdel)
  have rest: "gokeys (dc_entries (cache (step s x))) \<and> set xs \<subseteq> set (dc_entries (cache (step s x)))"
    unfolding x by (rule step_rest) (use Cons.prems x in auto)
  show ?case using Cons.IH[of "step s x"] st rest Cons.prems(2) by simp
qed simp

end

definition held_open :: "open_check \<Rightarrow> EventKey \<Rightarrow> dedupEntry \<Rightarrow> bool" where
  "held_open isOpen k e =
     (rs_SessionClass e \<and> de_SessionID e \<noteq> [] \<and> de_Incident e \<noteq> None
      \<and> (case isOpen of None \<Rightarrow> False | Some is_open \<Rightarrow> is_open k))"

interpretation sweep_pass: entry_pass fst "sweep_entry isOpen now" "held_open isOpen"
proof unfold_locales
  fix s :: "DedupCache \<times> nat" and k e
  show "fst (sweep_entry isOpen now s (k, e)) = fst s
     \<or> rs_Resolved e \<and> fst (sweep_entry isOpen now s (k, e)) = retire (fst s) k e
     \<or> \<not> rs_Resolved e \<and> \<not> held_open isOpen k e
       \<and> fst (sweep_entry isOpen now s (k, e)) = (fst s)\<lparr>dc_entries := gdel k (dc_entries (fst s))\<rparr>"
    by (cases s) (auto simp: sweep_entry_def Let_def held_open_def isGroupOpen_def split: option.splits)
qed

interpretation binding_pass: entry_pass snd "binding_step now" "\<lambda>_ _. True"
proof unfold_locales
  fix s :: "BoundIncident list \<times> DedupCache" and k e
  show "snd (binding_step now s (k, e)) = snd s
     \<or> rs_Resolved e \<and> snd (binding_step now s (k, e)) = retire (snd s) k e
     \<or> \<not> rs_Resolved e \<and> \<not> True
       \<and> snd (binding_step now s (k, e)) = (snd s)\<lparr>dc_entries := gdel k (dc_entries (snd s))\<rparr>"
    by (cases s) (auto simp: binding_step_def Let_def split: option.splits)
qed

subsection \<open>Replays of a resolved incident\<close>

lemma replayTTL_nonneg: "0 \<le> replayTTL c"
  by (simp add: replayTTL_def dur_defs)

lemma settled_tomb_filter:
  assumes "settled k T dl c" and "now \<le> dl + ttl" and "0 \<le> ttl"
  shows "settled k T dl (c\<lparr>dc_tombstones := filter (\<lambda>(k, t). \<not> time_Sub now (tb_LastSeen t) > ttl) (dc_tombstones c)\<rparr>)"
proof (cases "gget (dc_entries c) k")
  case None
  then obtain t where t: "gget (dc_tombstones c) k = Some t" "settled_tomb T dl t"
    using assms(1) by (auto simp: settled_def split: option.splits)
  then have "\<not> time_Sub now (tb_LastSeen t) > ttl"
    using assms(2,3) time_Sub_gtD[of ttl now "tb_LastSeen t"] by (auto simp: settled_tomb_def)
  then have "gget (filter (\<lambda>(k, t). \<not> time_Sub now (tb_LastSeen t) > ttl) (dc_tombstones c)) k = Some t"
    using t(1) by (intro map_of_filter_in) simp_all
  then show ?thesis using None t by (simp add: settled_def)
qed (use assms in \<open>simp add: settled_def\<close>)

lemma settled_lastSweep [simp]: "settled k T dl (c\<lparr>dc_lastSweep := now\<rparr>) = settled k T dl c"
  by (simp add: settled_def split: option.split)

lemma settled_sweep:
  assumes "dedup_ok c" and "tomb_room c" and "settled k T dl c" and "now \<le> dl + replayTTL c"
  shows "settled k T dl (snd (sweepExpired isOpen c now)) \<and> tomb_room (snd (sweepExpired isOpen c now))"
proof -
  let ?c = "c\<lparr>dc_lastSweep := now\<rparr>"
  let ?f = "fst (foldl (sweep_entry isOpen now) (?c, 0) (dc_entries c))"
  have c: "settled k T dl ?c" "tomb_room ?c" "replayTTL ?c = replayTTL c"
    using assms(2,3) by (simp_all add: tomb_room_def replayTTL_def)
  have f: "settled k T dl ?f \<and> tomb_room ?f"
    using sweep_pass.pass_settled[of "(?c, 0)" "dc_entries c" k T dl isOpen now] assms(1) c
    by (simp add: dedup_ok_def)
  have "tomb_room (?f\<lparr>dc_tombstones := filter P (dc_tombstones ?f)\<rparr>)" for P
    using f room_filter by blast
  then show ?thesis
    using c f settled_tomb_filter[of k T dl ?f now "replayTTL c"] assms(4) replayTTL_nonneg
    by (auto simp: sweepExpired_def Let_def case_prod_beta)
qed

lemma settled_maybeSweep:
  assumes "dedup_ok c" and "tomb_room c" and "settled k T dl c" and "now \<le> dl + replayTTL c"
  shows "settled k T dl (maybeSweep isOpen c now) \<and> tomb_room (maybeSweep isOpen c now)"
  using assms settled_sweep[OF assms] by (simp add: maybeSweep_def)

lemma settled_evictIfFull:
  assumes "dedup_ok c" and "tomb_room c" and "settled k T dl c" and "now \<le> dl + replayTTL c"
  shows "settled k T dl (evictIfFull isOpen c now)"
proof -
  let ?c = "snd (sweepExpired isOpen c now)"
  have s: "settled k T dl ?c" "tomb_room ?c" using settled_sweep[OF assms] by auto
  have ok: "gokeys (dc_entries ?c)" using ok_shrinks[OF assms(1) shrinks_sweepExpired] by (simp add: dedup_ok_def)
  show ?thesis
  proof (cases "scan_best (evict_before isOpen ?c now) None (dc_entries ?c)")
    case None
    then show ?thesis using s assms(3) by (simp add: evictIfFull_def Let_def)
  next
    case (Some v)
    then have "gget (dc_entries ?c) (fst v) = Some (snd v)"
      using scan_best_mem[OF Some] ok by (simp add: map_of_is_SomeI)
    then show ?thesis
      using Some s assms(3) settled_retire[OF _ ok s(2,1)] settled_delete[OF _ _ s(1)]
      by (cases v) (simp add: evictIfFull_def Let_def)
  qed
qed

lemma settled_put_other:
  "k' \<noteq> k \<Longrightarrow> settled k T dl (c\<lparr>dc_entries := gput k' e (dc_entries c)\<rparr>) = settled k T dl c"
  by (simp add: settled_def split: option.split)

lemma settled_open_new:
  assumes "dedup_ok c" and "tomb_room c" and "settled k T dl c" and "now \<le> dl + replayTTL c" and "key \<noteq> k"
  shows "settled k T dl (snd (open_new isOpen c now key obs cl))"
  using settled_evictIfFull[OF assms(1-4)] assms(5) by (simp add: open_new_def Let_def settled_put_other)

lemma settled_drop_tomb:
  "key \<noteq> k \<Longrightarrow> settled k T dl (c\<lparr>dc_tombstones := gdel key (dc_tombstones c)\<rparr>) = settled k T dl c"
  by (simp add: settled_def gget_gdel split: option.split)

lemma settled_observe_own:
  assumes "dedup_ok c" and "tomb_room c" and "settled k T dl c" and "now \<le> dl + replayTTL c" and "key \<noteq> k"
  shows "settled k T dl (snd (observe_own isOpen c now key obs cl e))"
  using settled_open_new[OF assms] assms(3,5)
  by (simp add: observe_own_def Let_def case_prod_beta settled_put_other)

lemma resolve_loop_get:
  "gget es k = Some e \<Longrightarrow> resolve_loop n es k e = (k', e') \<Longrightarrow> gget es k' = Some e'"
  by (induction n es k e rule: resolve_loop.induct) (auto split: option.splits)

lemma fold_target_root:
  assumes "fold_target isOpen es e = Some k"
  shows "\<exists>rt. gget es k = Some rt \<and> \<not> rs_Resolved rt \<and> de_SessionID rt = de_SessionID e"
proof -
  obtain rk rt where rt: "resolveParent es e = Some (rk, rt)"
    using assms by (auto simp: fold_target_def split: option.splits)
  then have k: "k = rk" "\<not> rs_Resolved rt" "de_SessionID rt = de_SessionID e"
    using assms by (auto simp: fold_target_def split: if_splits)
  obtain p c where "gget es p = Some c" "resolve_loop 8 es p c = (rk, rt)"
    using rt by (auto simp: resolveParent_def split: option.splits)
  then show ?thesis using k resolve_loop_get by blast
qed

lemma settled_observe_present:
  assumes "dedup_ok c" and "tomb_room c" and "settled k T dl c" and "now \<le> dl + replayTTL c"
    and "key \<noteq> k" and get: "gget (dc_entries c) key = Some e"
  shows "settled k T dl (snd (observe_present isOpen c now key obs cl e))"
proof -
  define c1 where "c1 = c\<lparr>dc_entries := gput key (bump now (ob_LastTS obs) e) (dc_entries c)\<rparr>"
  have s1: "settled k T dl c1" unfolding c1_def using assms(3,5) by (simp add: settled_put_other)
  have in_keys: "key \<in> fst ` set (dc_entries c)" using get gget_in_keys[of "dc_entries c" key] by simp
  have ok1: "dedup_ok c1" "tomb_room c1" "replayTTL c1 = replayTTL c"
    using assms(1,2) ok_put[OF assms(1) bump_classes[OF ok_entry[OF assms(1) get]]] get in_keys
    by (auto simp: c1_def tomb_room_def length_gput replayTTL_def)
  from c1_def show ?thesis
  proof (cases rule: observe_present_cases[where isOpen = isOpen and cl = cl])
    case replay
    then show ?thesis using assms(3,5) by (simp add: settled_put_other)
  next
    case own
    then show ?thesis using settled_observe_own[OF assms(1-5)] by simp
  next
    case (delegated k' rt r rt')
    have "k' \<noteq> k"
      using fold_target_root[OF delegated(2)] assms(3) by (auto simp: settled_def settled_entry_def)
    then show ?thesis using delegated s1 by (simp add: settled_put_other)
  next
    case fallthrough
    then show ?thesis using settled_observe_own[OF ok1(1,2) s1 _ assms(5)] assms(4) ok1(3) by simp
  qed
qed

lemma replayTTL_shrinks: "shrinks c c' \<Longrightarrow> replayTTL c' = replayTTL c"
  by (simp add: shrinks_def replayTTL_def)

text \<open>One observation: of another key, or of the key itself with nothing new.\<close>

lemma settled_ObserveSignal:
  assumes "dedup_ok c" and "tomb_room c" and "settled k T dl c" and "now \<le> dl + replayTTL c"
    and "canon_key key = k \<Longrightarrow> ob_LastTS obs \<le> T"
  shows "settled k T dl (snd (ObserveSignal isOpen c now key obs))
       \<and> (canon_key key = k \<longrightarrow> dr_Kind (fst (ObserveSignal isOpen c now key obs)) = DedupDuplicate)"
proof -
  let ?c = "maybeSweep isOpen c now"
  have c: "dedup_ok ?c" "tomb_room ?c" "settled k T dl ?c" "now \<le> dl + replayTTL ?c"
    using ok_shrinks[OF assms(1) shrinks_maybeSweep] settled_maybeSweep[OF assms(1-4)] assms(4)
      replayTTL_shrinks[OF shrinks_maybeSweep] by auto
  have tomb: "dedup_ok (?c\<lparr>dc_tombstones := gdel x (dc_tombstones ?c)\<rparr>)"
    "tomb_room (?c\<lparr>dc_tombstones := gdel x (dc_tombstones ?c)\<rparr>)"
    "replayTTL (?c\<lparr>dc_tombstones := gdel x (dc_tombstones ?c)\<rparr>) = replayTTL ?c" for x
    using ok_tombs[OF c(1)] c(2) length_delete_le[of x "dc_tombstones ?c"]
    by (auto simp: tomb_room_def replayTTL_def)
  show ?thesis
  proof (cases "canon_key key = k")
    case True
    with assms(5) have ts: "ob_LastTS obs \<le> T" by simp
    show ?thesis
    proof (cases "gget (dc_entries ?c) k")
      case None
      then obtain t where "gget (dc_tombstones ?c) k = Some t" "settled_tomb T dl t"
        using c(3) by (auto simp: settled_def split: option.splits)
      then show ?thesis
        using None True ts c(3) by (simp add: ObserveSignal_def observe_absent_def Let_def settled_tomb_def)
    next
      case (Some e)
      then have "settled_entry T dl e" using c(3) by (simp add: settled_def)
      then show ?thesis
        using Some True ts
        by (auto simp: ObserveSignal_def observe_present_def Let_def settled_def settled_entry_def
            dup_result_def)
    qed
  next
    case False
    show ?thesis
    proof (cases "gget (dc_entries ?c) (canon_key key)")
      case None
      then show ?thesis
        using False c settled_open_new[OF c False] tomb settled_drop_tomb[OF False]
          settled_open_new[OF tomb(1,2) _ _ False]
        by (auto simp: ObserveSignal_def observe_absent_def Let_def split: option.split)
    next
      case (Some e)
      then show ?thesis
        using False settled_observe_present[OF c False Some] by (simp add: ObserveSignal_def Let_def)
    qed
  qed
qed

lemma settled_gmod:
  assumes "settled k T dl c" and "\<And>e. settled_entry T dl e \<Longrightarrow> settled_entry T dl (f e)"
  shows "settled k T dl (c\<lparr>dc_entries := gmod k' f (dc_entries c)\<rparr>)"
  using assms by (auto simp: settled_def split: option.splits)

lemma settled_at_key:
  "settled k T dl c \<Longrightarrow> (\<And>e. settled_entry T dl e \<Longrightarrow> settled_entry T dl (f e)) \<Longrightarrow> settled k T dl (at_key key f c)"
  unfolding at_key_def by (rule settled_gmod)

lemma settled_reattach: "settled k T dl c \<Longrightarrow> settled k T dl (snd (reattach c self cands family))"
  by (induction c self cands family rule: reattach.induct)
     (auto simp: settled_entry_def split: option.split intro!: settled_gmod)

lemma settled_fold_under:
  assumes "settled k T dl c" shows "settled k T dl (c\<lparr>dc_entries := fold_under self rk (dc_entries c)\<rparr>)"
proof -
  have "settled k T dl (c\<lparr>dc_entries := gmod self (\<lambda>e. e\<lparr>de_Parent := Some rk\<rparr>) (dc_entries c)\<rparr>)"
    (is "settled k T dl ?c")
    by (rule settled_gmod[OF assms]) (simp add: settled_entry_def)
  then have "settled k T dl (?c\<lparr>dc_entries := gmod rk (\<lambda>e. e\<lparr>de_Count := de_Count e + 1,
      rs_InjectCount := rs_InjectCount e + 1\<rparr>) (dc_entries ?c)\<rparr>)"
    by (rule settled_gmod) (simp add: settled_entry_def)
  then show ?thesis by (simp add: fold_under_def)
qed

lemma settled_fold_sibling:
  "settled k T dl c \<Longrightarrow> settled k T dl (snd (fold_sibling c now self kind cands))"
  by (induction c now self kind cands rule: fold_sibling.induct)
     (auto simp: Let_def settled_fold_under split: option.split)

text \<open>An operation that brings the key nothing newer than \<open>T\<close>.\<close>

definition stale_for :: "EventKey \<Rightarrow> gotime \<Rightarrow> cache_op \<Rightarrow> bool" where
  "stale_for k T op =
     (case op of OpObserve key obs \<Rightarrow> canon_key key \<noteq> k \<or> ob_LastTS obs \<le> T | _ \<Rightarrow> True)"

lemma settled_exec:
  assumes "dedup_ok c" and "tomb_room c" and "settled k T dl c" and "now \<le> dl + replayTTL c"
    and "stale_for k T op"
  shows "settled k T dl (cache_exec isOpen now op c)"
proof (cases op)
  case (OpObserve key obs)
  then show ?thesis using settled_ObserveSignal[OF assms(1-4)] assms(5) by (auto simp: stale_for_def)
next
  case OpBindings
  then show ?thesis
    using binding_pass.pass_settled[of "([], c)" "dc_entries c" k T dl now] assms(1-3)
    by (simp add: Bindings_def dedup_ok_def)
next
  case OpSweep
  then show ?thesis using settled_sweep[OF assms(1-4)] by (simp add: Sweep_def)
next
  case (OpBindIncident key sid ref)
  then show ?thesis
    using assms(3)
    by (auto simp: BindIncident_def Let_def drop_stale_parent_def settled_entry_def split: option.split
        intro!: settled_at_key)
next
  case (OpCrossSourceJoin key kind)
  then show ?thesis
    using assms(3)
    by (auto simp: CrossSourceJoin_def Let_def settled_entry_def split: option.split intro!: settled_at_key)
qed (use assms(3) in \<open>auto simp: SessionForAncestors_def settled_reattach SessionForSibling_def
      settled_fold_sibling MarkUndelivered_def Unbind_def MarkResolved_def BindSession_def
      AttachToStorm_def NoteIncidentKind_def NoteAncestors_def markUndelivered_def markResolved_def
      resetForUnbind_def settled_entry_def intro!: settled_at_key\<close>)

text \<open>
  The histories of the next property: while there is room for tombstones and no more than
  \<open>replayTTL\<close> has passed since \<open>dl\<close>, any operations, as long as every delivery for the key
  carries a timestamp no later than \<open>T\<close>.
\<close>

fun relists :: "EventKey \<Rightarrow> gotime \<Rightarrow> gotime \<Rightarrow> DedupCache \<Rightarrow> cache_history \<Rightarrow> bool" where
  "relists k T dl c [] = True"
| "relists k T dl c ((isOpen, now, op) # h) =
     (tomb_room c \<and> now \<le> dl + replayTTL c \<and> stale_for k T op
      \<and> relists k T dl (cache_exec isOpen now op c) h)"

text \<open>
  C3: a re-delivered Event never reopens a resolved incident. Once the incident of a key is
  resolved with its Event processed up to \<open>T\<close>, no history of operations, sweeps, retirements
  and evictions included, makes a delivery of that Event (a timestamp no later than \<open>T\<close>) anything
  but a suppressed duplicate, for as long as a tombstone lives: \<open>replayTTL\<close> from the entry's
  last activity, with room for the tombstones.
\<close>

theorem replay_never_reopens:
  assumes "dedup_ok c" and "settled k T dl c" and "relists k T dl c h"
  shows "\<forall>(k', r) \<in> set (verdicts c h). k' = k \<longrightarrow> dr_Kind r = DedupDuplicate"
  using assms
proof (induction c h rule: cache_run.induct)
  case (2 c isOpen now op h)
  have g: "tomb_room c" "now \<le> dl + replayTTL c" "stale_for k T op"
    "relists k T dl (cache_exec isOpen now op c) h"
    using 2(4) by auto
  have "\<forall>(k', r) \<in> set (verdicts (cache_exec isOpen now op c) h). k' = k \<longrightarrow> dr_Kind r = DedupDuplicate"
    using 2(1)[OF ok_exec[OF 2(2)] settled_exec[OF 2(2) g(1) 2(3) g(2,3)] g(4)] .
  moreover have "dr_Kind (fst (ObserveSignal isOpen c now key obs)) = DedupDuplicate"
    if "op = OpObserve key obs" "canon_key key = k" for key obs
    using settled_ObserveSignal[OF 2(2) g(1) 2(3) g(2), of key obs isOpen] g(3) that
    by (simp add: stale_for_def)
  ultimately show ?case by (cases op) auto
qed simp

definition relist_obs :: Observation where
  "relist_obs = \<lparr>ob_LastTS = 1000, ob_Kind = ''k8s-event'', ob_Severity = ''critical'', ob_Message = ''m'',
     ob_Repeatable = True, ob_Downgraded = False\<rparr>"

definition resolved_cache :: DedupCache where
  "resolved_cache = small_cache\<lparr>dc_entries := [(\<lparr>ek_UID = ''a'', ek_Reason = ''OOMKilled''\<rparr>, open_entry\<lparr>rs_Resolved := True\<rparr>)]\<rparr>"

text \<open>The Event is listed again ten minutes later, when the sweep has retired the entry.\<close>

theorem replay_never_reopens_witness:
  "let k = \<lparr>ek_UID = ''a'', ek_Reason = ''OOMKilled''\<rparr>;
       h = [(None, 10 * Minute, OpSweep), (None, 11 * Minute, OpObserve k relist_obs)]
   in map (dr_Kind \<circ> snd) (verdicts resolved_cache h) = [DedupDuplicate]
      \<and> gget (dc_entries (cache_run resolved_cache h)) k = None"
proof -
  let ?k = "\<lparr>ek_UID = ''a'', ek_Reason = ''OOMKilled''\<rparr>"
  let ?h = "[(None, 10 * Minute, OpSweep), (None, 11 * Minute, OpObserve ?k relist_obs)]"
  have ok: "dedup_ok resolved_cache" by code_simp
  have "settled ?k 1000 1000 resolved_cache" by code_simp
  moreover have "relists ?k 1000 1000 resolved_cache ?h" by code_simp
  ultimately have "\<forall>(k', r) \<in> set (verdicts resolved_cache ?h). k' = ?k \<longrightarrow> dr_Kind r = DedupDuplicate"
    by (rule replay_never_reopens[OF ok])
  moreover have "canon_key ?k = ?k" by code_simp
  moreover have "gget (dc_entries (cache_run resolved_cache ?h)) ?k = None" by code_simp
  ultimately show ?thesis by (simp add: Let_def)
qed

subsection \<open>An open incident keeps its session\<close>

definition bound_entry :: "string \<Rightarrow> dedupEntry \<Rightarrow> bool" where
  "bound_entry sid e =
     (rs_SessionClass e \<and> \<not> rs_Resolved e \<and> de_SessionID e = sid \<and> sid \<noteq> [] \<and> de_Incident e \<noteq> None)"

definition bound :: "EventKey \<Rightarrow> string \<Rightarrow> DedupCache \<Rightarrow> bool" where
  "bound k sid c = (case gget (dc_entries c) k of None \<Rightarrow> False | Some e \<Rightarrow> bound_entry sid e)"

lemma bound_note [simp]: "bound_entry sid (note_occurrence w now ts cl e) = bound_entry sid e"
  using note_occurrence_fields[of w now ts cl e] by (auto simp: bound_entry_def)

lemma bound_simple [simp]:
  "bound_entry sid (bump now ts e) = bound_entry sid e"
  "bound_entry sid (legacy_inject e) = bound_entry sid e"
  "bound_entry sid (fix_step e) = bound_entry sid e"
  "bound_entry sid (markInject now e) = bound_entry sid e"
  "bound_entry sid (e\<lparr>rs_InjectCount := n\<rparr>) = bound_entry sid e"
  "bound_entry sid (e\<lparr>de_Count := m\<rparr>) = bound_entry sid e"
  by (simp_all add: bound_entry_def bump_def legacy_inject_def fix_step_def markInject_def)

lemma bump_SessionID [simp]: "de_SessionID (bump now ts e) = de_SessionID e"
  by (simp add: bump_def)

lemma bound_resend: "bound_entry sid e \<Longrightarrow>
  bound_entry sid (snd (resend now e)) \<and> dr_SessionID (fst (resend now e)) = sid"
  by (auto simp: resend_def Let_def bound_entry_def markInject_def repeat_result_def)

lemma bound_schedule: "bound_entry sid e \<Longrightarrow>
  bound_entry sid (snd (schedule w now ir l e)) \<and> dr_SessionID (fst (schedule w now ir l e)) = sid
  \<and> dr_Kind (fst (schedule w now ir l e)) \<noteq> DedupNewIncident"
  using bound_simple(3)[of sid e]
  by (auto simp: schedule_def Let_def bound_entry_def markInject_def repeat_result_def dup_result_def)

lemma bound_repeat:
  assumes "bound_entry sid e"
  shows "bound_entry sid (snd (repeat w e now ts cl l)) \<and> dr_SessionID (fst (repeat w e now ts cl l)) = sid
       \<and> dr_Kind (fst (repeat w e now ts cl l)) \<noteq> DedupNewIncident"
proof -
  have "bound_entry sid (note_occurrence w now ts cl (legacy_inject e))" using assms by simp
  then show ?thesis
    using bound_resend bound_schedule resend_result[OF prod.collapse[symmetric]]
    by (auto simp: repeat_def Let_def)
qed

lemma observe_root_session:
  assumes "observe_root w now obs cl rt = Some (r, rt')"
  shows "dr_SessionID r = de_SessionID rt \<and> dr_Kind r \<noteq> DedupNewIncident"
proof -
  have rep: "dr_SessionID (fst (repeat w rt now ts cl l)) = de_SessionID rt
      \<and> dr_Kind (fst (repeat w rt now ts cl l)) \<noteq> DedupNewIncident" for ts l
    using note_occurrence_fields[of w now ts cl "legacy_inject rt"]
    by (auto simp: repeat_def Let_def resend_def schedule_def repeat_result_def dup_result_def
        legacy_inject_def fix_step_def)
  show ?thesis
  proof (cases "\<exists>l. repeat w rt now (ob_LastTS obs) cl l = (r, rt')")
    case True
    then show ?thesis using rep by (metis fst_conv)
  next
    case False
    then show ?thesis
      using assms by (auto simp: observe_root_def Let_def dup_result_def bump_def split: if_splits)
  qed
qed

lemma bound_observe_root:
  assumes "observe_root w now obs cl rt = Some (r, rt')" and "bound_entry sid rt"
  shows "bound_entry sid rt'"
proof (cases "\<exists>l. repeat w rt now (ob_LastTS obs) cl l = (r, rt')")
  case True
  then show ?thesis using bound_repeat[OF assms(2)] by (metis snd_conv)
next
  case False
  then show ?thesis using assms by (auto simp: observe_root_def Let_def split: if_splits)
qed

lemma bound_put_other: "k' \<noteq> k \<Longrightarrow> bound k sid (c\<lparr>dc_entries := gput k' e (dc_entries c)\<rparr>) = bound k sid c"
  by (simp add: bound_def)

lemma bound_put_same: "bound k sid (c\<lparr>dc_entries := gput k e (dc_entries c)\<rparr>) = bound_entry sid e"
  by (simp add: bound_def)

text \<open>The tracker's word protects the entry from every pass.\<close>

lemma bound_sweep:
  assumes "gokeys (dc_entries c)" and "bound k sid c" and "is_open k"
  shows "bound k sid (snd (sweepExpired (Some is_open) c now))"
proof -
  let ?c = "c\<lparr>dc_lastSweep := now\<rparr>"
  obtain e where e: "gget (dc_entries c) k = Some e" "bound_entry sid e"
    using assms(2) by (auto simp: bound_def split: option.splits)
  then have "gget (dc_entries (fst (foldl (sweep_entry (Some is_open) now) (?c, 0) (dc_entries c)))) k = Some e"
    using sweep_pass.pass_spared[of "(?c, 0)" "dc_entries c" k e "Some is_open" now] assms(1,3)
    by (auto simp: bound_entry_def held_open_def)
  then show ?thesis
    using e by (auto simp: sweepExpired_def Let_def case_prod_beta bound_def)
qed

lemma bound_maybeSweep:
  "gokeys (dc_entries c) \<Longrightarrow> bound k sid c \<Longrightarrow> is_open k \<Longrightarrow> bound k sid (maybeSweep (Some is_open) c now)"
  by (simp add: maybeSweep_def bound_sweep)

lemma bound_open_new:
  assumes "length (dc_entries c) < dc_max c" and "bound k sid c" and "key \<noteq> k"
  shows "bound k sid (snd (open_new isOpen c now key obs cl))"
  using assms by (simp add: open_new_def Let_def evictIfFull_def bound_put_other)

lemma bound_observe_own_other:
  assumes "length (dc_entries c) < dc_max c" and "bound k sid c" and "key \<noteq> k"
  shows "bound k sid (snd (observe_own isOpen c now key obs cl e))"
  using bound_open_new[OF assms] assms(2,3)
  by (simp add: observe_own_def Let_def case_prod_beta bound_put_other)

lemma bound_observe_own_self:
  assumes "bound_entry sid e" and "is_open k" and "ob_Repeatable obs"
  shows "bound k sid (snd (observe_own (Some is_open) c now k obs cl e))
       \<and> dr_SessionID (fst (observe_own (Some is_open) c now k obs cl e)) = sid
       \<and> dr_Kind (fst (observe_own (Some is_open) c now k obs cl e)) \<noteq> DedupNewIncident"
proof -
  have "case2 (Some is_open) (dc_entries c) k e"
    using assms(1,2) by (auto simp: case2_def bound_entry_def isGroupOpen_def)
  then show ?thesis
    using assms(3) bound_repeat[OF assms(1)]
    by (simp add: observe_own_def Let_def case_prod_beta bound_put_same)
qed

lemma bound_observe_present:
  assumes "bound k sid c" and "length (dc_entries c) < dc_max c" and "gget (dc_entries c) key = Some e"
    and "is_open k" and "key = k \<Longrightarrow> ob_Repeatable obs"
  shows "bound k sid (snd (observe_present (Some is_open) c now key obs cl e))
       \<and> (key = k \<longrightarrow> dr_SessionID (fst (observe_present (Some is_open) c now key obs cl e)) = sid
            \<and> dr_Kind (fst (observe_present (Some is_open) c now key obs cl e)) \<noteq> DedupNewIncident)"
proof -
  define c1 where "c1 = c\<lparr>dc_entries := gput key (bump now (ob_LastTS obs) e) (dc_entries c)\<rparr>"
  have self: "key = k \<Longrightarrow> bound_entry sid e" using assms(1,3) by (auto simp: bound_def)
  have in_keys: "key \<in> fst ` set (dc_entries c)" using assms(3) gget_in_keys[of "dc_entries c" key] by simp
  have b1: "bound k sid c1"
    using assms(1) self by (cases "key = k") (auto simp: c1_def bound_put_other bound_put_same)
  have len1: "length (dc_entries c1) < dc_max c1"
    using assms(2) in_keys by (simp add: c1_def length_gput)
  from c1_def show ?thesis
  proof (cases rule: observe_present_cases[where isOpen = "Some is_open" and cl = cl])
    case replay
    then show ?thesis
      using assms(1) self by (cases "key = k") (auto simp: bound_put_other bound_put_same dup_result_def bound_entry_def)
  next
    case own
    then show ?thesis
      using bound_observe_own_other[OF assms(2,1)] bound_observe_own_self[of sid e is_open k obs]
        self assms(4,5)
      by (cases "key = k") auto
  next
    case (delegated k' rt r rt')
    obtain rt0 where rt0: "gget (dc_entries c) k' = Some rt0" "de_SessionID rt0 = de_SessionID e"
      using fold_target_root[OF delegated(2)] by blast
    have sess: "de_SessionID rt = de_SessionID e"
      using delegated(3) rt0 assms(3) by (cases "k' = key") (auto simp: c1_def)
    have "bound k sid (c1\<lparr>dc_entries := gput k' rt' (dc_entries c1)\<rparr>)"
      using b1 bound_observe_root[OF delegated(4)] delegated(3)
      by (cases "k' = k") (auto simp: bound_put_other bound_put_same bound_def)
    then show ?thesis
      using delegated observe_root_session[OF delegated(4)] sess self by (auto simp: bound_entry_def)
  next
    case fallthrough
    then show ?thesis
      using bound_observe_own_other[OF len1 b1] bound_observe_own_self[of sid "bump now (ob_LastTS obs) e" is_open k obs]
        self assms(4,5)
      by (cases "key = k") auto
  qed
qed

lemma bound_ObserveSignal:
  assumes "dedup_ok c" and "bound k sid c" and "length (dc_entries c) < dc_max c" and "is_open k"
    and "canon_key key = k \<Longrightarrow> ob_Repeatable obs"
  shows "bound k sid (snd (ObserveSignal (Some is_open) c now key obs))
       \<and> (canon_key key = k \<longrightarrow> dr_SessionID (fst (ObserveSignal (Some is_open) c now key obs)) = sid
            \<and> dr_Kind (fst (ObserveSignal (Some is_open) c now key obs)) \<noteq> DedupNewIncident)"
proof -
  let ?c = "maybeSweep (Some is_open) c now"
  have sh: "shrinks c ?c" by (rule shrinks_maybeSweep)
  have b: "bound k sid ?c" using bound_maybeSweep assms(1,2,4) by (simp add: dedup_ok_def)
  have len: "length (dc_entries ?c) < dc_max ?c" using sh assms(3) by (auto simp: shrinks_def)
  show ?thesis
  proof (cases "gget (dc_entries ?c) (canon_key key)")
    case None
    then have ne: "canon_key key \<noteq> k" using b by (auto simp: bound_def)
    have t: "bound k sid (?c\<lparr>dc_tombstones := ts\<rparr>)" for ts using b by (simp add: bound_def)
    show ?thesis
      using None ne bound_open_new[OF len b ne] bound_open_new[OF _ t ne] len b
      by (auto simp: ObserveSignal_def observe_absent_def Let_def split: option.split)
  next
    case (Some e)
    let ?cl = "repeatClass (ob_Kind obs) (ob_Severity obs) (ob_Message obs)"
    have eq: "ObserveSignal (Some is_open) c now key obs =
        observe_present (Some is_open) ?c now (canon_key key) obs ?cl e"
      using Some by (simp add: ObserveSignal_def Let_def)
    show ?thesis
      unfolding eq
      by (rule bound_observe_present[OF b len Some]) (use assms(4,5) in auto)
  qed
qed

lemma bound_gmod:
  assumes "bound k sid c" and "k' = k \<Longrightarrow> (\<And>e. bound_entry sid e \<Longrightarrow> bound_entry sid (f e))"
  shows "bound k sid (c\<lparr>dc_entries := gmod k' f (dc_entries c)\<rparr>)"
  using assms by (auto simp: bound_def split: option.splits)

lemma bound_at_key:
  "bound k sid c \<Longrightarrow> (\<And>e. canon_key key = k \<Longrightarrow> bound_entry sid e \<Longrightarrow> bound_entry sid (f e))
   \<Longrightarrow> bound k sid (at_key key f c)"
  unfolding at_key_def by (rule bound_gmod)

lemma bound_reattach: "bound k sid c \<Longrightarrow> bound k sid (snd (reattach c self cands family))"
  by (induction c self cands family rule: reattach.induct)
     (auto simp: bound_entry_def split: option.split intro!: bound_gmod)

lemma bound_fold_under:
  assumes "bound k sid c" shows "bound k sid (c\<lparr>dc_entries := fold_under self rk (dc_entries c)\<rparr>)"
proof -
  have "bound k sid (c\<lparr>dc_entries := gmod self (\<lambda>e. e\<lparr>de_Parent := Some rk\<rparr>) (dc_entries c)\<rparr>)"
    (is "bound k sid ?c")
    by (rule bound_gmod[OF assms]) (simp add: bound_entry_def)
  then have "bound k sid (?c\<lparr>dc_entries := gmod rk (\<lambda>e. e\<lparr>de_Count := de_Count e + 1,
      rs_InjectCount := rs_InjectCount e + 1\<rparr>) (dc_entries ?c)\<rparr>)"
    by (rule bound_gmod) (simp add: bound_entry_def)
  then show ?thesis by (simp add: fold_under_def)
qed

lemma bound_fold_sibling: "bound k sid c \<Longrightarrow> bound k sid (snd (fold_sibling c now self kind cands))"
  by (induction c now self kind cands rule: fold_sibling.induct)
     (auto simp: Let_def bound_fold_under split: option.split)

lemma bound_Bindings:
  assumes "gokeys (dc_entries c)" and "bound k sid c" shows "bound k sid (snd (Bindings c now))"
proof -
  obtain e where e: "gget (dc_entries c) k = Some e" "bound_entry sid e"
    using assms(2) by (auto simp: bound_def split: option.splits)
  then show ?thesis
    using binding_pass.pass_spared[of "([], c)" "dc_entries c" k e now] assms(1)
    by (auto simp: bound_def Bindings_def bound_entry_def)
qed

text \<open>The operations that end an incident or move it to another session, and its downgrades.\<close>

definition rebinds :: "EventKey \<Rightarrow> cache_op \<Rightarrow> bool" where
  "rebinds k op =
     (case op of
        OpObserve key obs \<Rightarrow> canon_key key = k \<and> \<not> ob_Repeatable obs
      | OpMarkResolved key \<Rightarrow> canon_key key = k
      | OpUnbind key \<Rightarrow> canon_key key = k
      | OpBindSession key _ \<Rightarrow> canon_key key = k
      | OpBindIncident key _ _ \<Rightarrow> canon_key key = k
      | OpAttachToStorm key _ _ _ \<Rightarrow> canon_key key = k
      | _ \<Rightarrow> False)"

lemma bound_exec:
  assumes "dedup_ok c" and "bound k sid c" and "length (dc_entries c) < dc_max c" and "is_open k"
    and "\<not> rebinds k op"
  shows "bound k sid (cache_exec (Some is_open) now op c)"
proof (cases op)
  case (OpObserve key obs)
  then show ?thesis
    using bound_ObserveSignal[OF assms(1-3), where is_open = is_open and obs = obs and key = key] assms(4,5)
    by (auto simp: rebinds_def)
next
  case OpBindings
  then show ?thesis using bound_Bindings assms(1,2) by (simp add: dedup_ok_def)
next
  case OpSweep
  then show ?thesis using bound_sweep assms(1,2,4) by (simp add: Sweep_def dedup_ok_def)
next
  case (OpCrossSourceJoin key kind)
  then show ?thesis
    using assms(2)
    by (auto simp: CrossSourceJoin_def Let_def bound_entry_def split: option.split intro!: bound_at_key)
qed (use assms(2,5) in \<open>auto simp: rebinds_def SessionForAncestors_def bound_reattach SessionForSibling_def
      bound_fold_sibling MarkUndelivered_def Unbind_def MarkResolved_def BindSession_def BindIncident_def
      AttachToStorm_def NoteIncidentKind_def NoteAncestors_def markUndelivered_def bound_entry_def Let_def
      intro!: bound_at_key\<close>)

text \<open>
  The histories of the next property: the cap is not reached, the tracker holds the incident
  open throughout, and no operation resolves, unbinds, rebinds or downgrades it.
\<close>

fun stays_open :: "EventKey \<Rightarrow> DedupCache \<Rightarrow> cache_history \<Rightarrow> bool" where
  "stays_open k c [] = True"
| "stays_open k c ((isOpen, now, op) # h) =
     ((case isOpen of None \<Rightarrow> False | Some is_open \<Rightarrow> is_open k)
      \<and> length (dc_entries c) < dc_max c \<and> \<not> rebinds k op
      \<and> stays_open k (cache_exec isOpen now op c) h)"

text \<open>
  C2: an open incident has one session. Take a history during which the recovery tracker holds a
  bound incident open, the cache is below its cap, no operation binds, unbinds, resolves or attaches
  the incident's key, and every observation of it is of the session class. Then, however long the
  window has lapsed, every verdict on it is a duplicate or a repeat and names the session the
  incident is bound to, and at the end it is still bound there. A downgraded observation is
  outside: past the window it is a new incident even while the tracker holds the old one open.
\<close>

theorem open_incident_keeps_session:
  assumes "dedup_ok c" and "bound k sid c" and "stays_open k c h"
  shows "(\<forall>(k', r) \<in> set (verdicts c h). k' = k \<longrightarrow> dr_Kind r \<noteq> DedupNewIncident \<and> dr_SessionID r = sid)
       \<and> bound k sid (cache_run c h)"
  using assms
proof (induction c h rule: cache_run.induct)
  case (2 c isOpen now op h)
  obtain is_open where g: "isOpen = Some is_open" "is_open k" "length (dc_entries c) < dc_max c"
    "\<not> rebinds k op" "stays_open k (cache_exec isOpen now op c) h"
    using 2(4) by (cases isOpen) auto
  have IH: "(\<forall>(k', r) \<in> set (verdicts (cache_exec isOpen now op c) h).
        k' = k \<longrightarrow> dr_Kind r \<noteq> DedupNewIncident \<and> dr_SessionID r = sid)
      \<and> bound k sid (cache_run (cache_exec isOpen now op c) h)"
    using 2(1)[OF ok_exec[OF 2(2)] _ g(5)] bound_exec[OF 2(2,3) g(3), of is_open op now] g by simp
  have "dr_Kind (fst (ObserveSignal isOpen c now key obs)) \<noteq> DedupNewIncident
      \<and> dr_SessionID (fst (ObserveSignal isOpen c now key obs)) = sid"
    if "op = OpObserve key obs" "canon_key key = k" for key obs
    using bound_ObserveSignal[OF 2(2,3) g(3), where is_open = is_open and obs = obs and key = key] g that
    by (simp add: rebinds_def)
  then show ?case using IH by (cases op) auto
qed simp

definition bound_cache :: DedupCache where
  "bound_cache = small_cache\<lparr>dc_entries := [(\<lparr>ek_UID = ''a'', ek_Reason = ''OOMKilled''\<rparr>,
      open_entry\<lparr>de_Incident := Some (IncidentRef_of zero_signal)\<rparr>)]\<rparr>"

text \<open>Seven minutes after the open, past the window: a reminder into session \<open>s1\<close>.\<close>

theorem open_incident_keeps_session_witness:
  "let k = \<lparr>ek_UID = ''a'', ek_Reason = ''OOMKilled''\<rparr>;
       h = [(Some (\<lambda>_. True), 6 * Minute, OpSweep),
            (Some (\<lambda>_. True), 7 * Minute, OpObserve k (relist_obs\<lparr>ob_LastTS := 5 * Minute\<rparr>))]
   in map (\<lambda>(k, r). dr_SessionID r) (verdicts bound_cache h) = [''s1''] \<and> bound k ''s1'' (cache_run bound_cache h)"
proof -
  let ?k = "\<lparr>ek_UID = ''a'', ek_Reason = ''OOMKilled''\<rparr>"
  let ?h = "[(Some (\<lambda>_. True), 6 * Minute, OpSweep),
             (Some (\<lambda>_. True), 7 * Minute, OpObserve ?k (relist_obs\<lparr>ob_LastTS := 5 * Minute\<rparr>))]"
  have ok: "dedup_ok bound_cache" by code_simp
  have "bound ?k ''s1'' bound_cache" by code_simp
  moreover have "stays_open ?k bound_cache ?h" by code_simp
  ultimately have "(\<forall>(k', r) \<in> set (verdicts bound_cache ?h). k' = ?k \<longrightarrow> dr_Kind r \<noteq> DedupNewIncident \<and> dr_SessionID r = ''s1'')
       \<and> bound ?k ''s1'' (cache_run bound_cache ?h)"
    by (rule open_incident_keeps_session[OF ok])
  moreover have "canon_key ?k = ?k" by code_simp
  ultimately show ?thesis by (simp add: Let_def)
qed

end
