(* ===== verification/RecoveryWatch.thy ===== *)
theory RecoveryWatch
  imports Signal
begin

section \<open>The recovery tracker\<close>

text \<open>
  \<^verbatim>\<open>pkg/engine/recovery.go\<close>: the state machine that watches bound incidents for clearance. The
  observers are code of the sources; an observer is a function from the incident to its verdict at
  this tick (\<^const>\<open>None\<close> where it cannot judge it), so a tick takes the list of observers as they
  answer now. The signals a tick emits are returned in the order the code emits them.
\<close>

record Incident =
  in_Key :: EventKey
  in_SessionID :: string
  in_FirstSeen :: gotime
  in_Ref :: IncidentRef

record Clearance =
  cl_Cleared :: bool
  cl_StableSince :: gotime
  cl_Resolution :: Resolution

type_synonym observer = "Incident \<Rightarrow> Clearance option"

datatype recoveryState = stateSymptomatic | stateClearing | stateResolved

record trackedIncident =
  ti_inc :: Incident
  ti_state :: recoveryState
  ti_stabilityStart :: gotime
  ti_resolvedAt :: gotime
  ti_recovery :: Recovery
  ti_trackedAt :: gotime
  ti_judged :: bool

record RecoveryTracker =
  rt_incidents :: "(EventKey, trackedIncident) gomap"
  rt_stableFor :: duration
  rt_revertWindow :: duration
  rt_uncoveredTTL :: duration

definition defaultUncoveredTTL :: duration where "defaultUncoveredTTL = Hour"
definition maxTrackedIncidents :: nat where "maxTrackedIncidents = 10000"

definition NewRecoveryTracker :: "duration \<Rightarrow> RecoveryTracker" where
  "NewRecoveryTracker stableFor =
     \<lparr>rt_incidents = [], rt_stableFor = stableFor, rt_revertWindow = stableFor,
      rt_uncoveredTTL = defaultUncoveredTTL\<rparr>"

definition zero_recovery :: Recovery where
  "zero_recovery =
     \<lparr>rc_ClearedAfter = 0, rc_ObservedStableFor = 0, rc_Resolution = [], rc_ResolvedAt = 0, rc_RevertedAfter = 0\<rparr>"

subsection \<open>Tracking\<close>

definition eviction_tier :: "RecoveryTracker \<Rightarrow> gotime \<Rightarrow> trackedIncident \<Rightarrow> nat" where
  "eviction_tier t now ti =
     (if ti_state ti = stateResolved then 0
      else if \<not> ti_judged ti \<and> time_Sub now (ti_trackedAt ti) > rt_uncoveredTTL t then 0
      else if ti_state ti = stateClearing then 1
      else 2)"

definition tracked_before ::
  "RecoveryTracker \<Rightarrow> gotime \<Rightarrow> EventKey \<times> trackedIncident \<Rightarrow> EventKey \<times> trackedIncident \<Rightarrow> bool" where
  "tracked_before t now x y =
     (eviction_tier t now (snd x) < eviction_tier t now (snd y)
      \<or> eviction_tier t now (snd x) = eviction_tier t now (snd y)
        \<and> ti_trackedAt (snd x) < ti_trackedAt (snd y))"

definition evictOne ::
  "RecoveryTracker \<Rightarrow> gotime \<Rightarrow> (EventKey, trackedIncident) gomap \<Rightarrow> (EventKey, trackedIncident) gomap" where
  "evictOne t now m =
     (case scan_best (tracked_before t now) None m of
        None \<Rightarrow> m
      | Some (victimKey, _) \<Rightarrow> gdel victimKey m)"

definition Track :: "RecoveryTracker \<Rightarrow> gotime \<Rightarrow> Incident \<Rightarrow> RecoveryTracker" where
  "Track t now inc0 =
     (let key = canon_key (in_Key inc0);
          inc = inc0\<lparr>in_Key := key, in_FirstSeen := (if IsZero (in_FirstSeen inc0) then now else in_FirstSeen inc0)\<rparr>;
          m = (if gget (rt_incidents t) key = None \<and> length (rt_incidents t) \<ge> maxTrackedIncidents
               then evictOne t now (rt_incidents t) else rt_incidents t)
      in t\<lparr>rt_incidents := gput key
             \<lparr>ti_inc = inc, ti_state = stateSymptomatic, ti_stabilityStart = 0, ti_resolvedAt = 0,
              ti_recovery = zero_recovery, ti_trackedAt = now, ti_judged = False\<rparr> m\<rparr>)"

definition tracker_Len :: "RecoveryTracker \<Rightarrow> nat" where
  "tracker_Len t = length (rt_incidents t)"

definition Open :: "RecoveryTracker \<Rightarrow> EventKey \<Rightarrow> bool" where
  "Open t key =
     (case gget (rt_incidents t) (canon_key key) of None \<Rightarrow> False | Some ti \<Rightarrow> ti_state ti \<noteq> stateResolved)"

definition RequeueResolved :: "RecoveryTracker \<Rightarrow> EventKey \<Rightarrow> RecoveryTracker" where
  "RequeueResolved t key =
     t\<lparr>rt_incidents := gmod (canon_key key)
         (\<lambda>ti. if ti_state ti = stateResolved then ti\<lparr>ti_state := stateClearing\<rparr> else ti) (rt_incidents t)\<rparr>"

subsection \<open>A tick\<close>

fun judge :: "observer list \<Rightarrow> Incident \<Rightarrow> Clearance option" where
  "judge [] inc = None"
| "judge (ob # obs) inc = (case ob inc of Some v \<Rightarrow> Some v | None \<Rightarrow> judge obs inc)"

definition stabilityStart :: "Incident \<Rightarrow> Clearance \<Rightarrow> gotime \<Rightarrow> gotime" where
  "stabilityStart inc verdict now =
     (let s = (if IsZero (cl_StableSince verdict) \<or> cl_StableSince verdict > now
               then now else cl_StableSince verdict)
      in if s < in_FirstSeen inc then in_FirstSeen inc else s)"

definition resolvedSignal :: "string \<Rightarrow> Incident \<Rightarrow> Recovery \<Rightarrow> Signal" where
  "resolvedSignal kind inc rec =
     zero_signal\<lparr>te_Key := in_Key inc, te_Namespace := ir_Namespace (in_Ref inc),
       te_KindOfObject := ir_KindOfObject (in_Ref inc), te_Name := ir_Name (in_Ref inc),
       te_Container := ir_Container (in_Ref inc), te_ControllerRef := ir_ControllerRef (in_Ref inc),
       te_FirstSeen := in_FirstSeen inc, sg_Kind := kind, sg_Source := SourceSentinel,
       sg_Severity := SeverityInfo, sg_Fingerprint := ir_Fingerprint (in_Ref inc),
       sg_Cluster := ir_Cluster (in_Ref inc), sg_Recovery := Some rec\<rparr>"

text \<open>The \<^verbatim>\<open>stateClearing\<close> case for a cleared verdict.\<close>

definition clearing_step ::
  "RecoveryTracker \<Rightarrow> gotime \<Rightarrow> Clearance \<Rightarrow> trackedIncident \<Rightarrow> trackedIncident option \<times> Signal list" where
  "clearing_step t now verdict ti =
     (let s = stabilityStart (ti_inc ti) verdict now;
          start = (if \<not> IsZero (cl_StableSince verdict) \<and> s > ti_stabilityStart ti then s
                   else ti_stabilityStart ti);
          ti1 = ti\<lparr>ti_stabilityStart := start\<rparr>
      in if time_Sub now start \<ge> rt_stableFor t then
           (let rec = \<lparr>rc_ClearedAfter = time_Sub start (in_FirstSeen (ti_inc ti)),
                       rc_ObservedStableFor = time_Sub now start,
                       rc_Resolution = cl_Resolution verdict, rc_ResolvedAt = now, rc_RevertedAfter = 0\<rparr>
            in (Some (ti1\<lparr>ti_state := stateResolved, ti_resolvedAt := now, ti_recovery := rec\<rparr>),
                [resolvedSignal KindResolved (ti_inc ti) rec]))
         else (Some ti1, []))"

text \<open>The body of the loop for one incident and its verdict; \<^const>\<open>None\<close> is a deletion.\<close>

definition tick_verdict ::
  "RecoveryTracker \<Rightarrow> gotime \<Rightarrow> Clearance option \<Rightarrow> trackedIncident \<Rightarrow> trackedIncident option \<times> Signal list" where
  "tick_verdict t now v ti0 =
     (case v of
        None \<Rightarrow>
          (if \<not> ti_judged ti0 \<and> time_Sub now (ti_trackedAt ti0) > rt_uncoveredTTL t
           then (None, []) else (Some ti0, []))
      | Some verdict \<Rightarrow>
          (let ti = ti0\<lparr>ti_judged := True\<rparr> in
           case ti_state ti of
             stateSymptomatic \<Rightarrow>
               (if cl_Cleared verdict
                then (Some (ti\<lparr>ti_state := stateClearing,
                               ti_stabilityStart := stabilityStart (ti_inc ti) verdict now\<rparr>), [])
                else (Some ti, []))
           | stateClearing \<Rightarrow>
               (if \<not> cl_Cleared verdict then (Some (ti\<lparr>ti_state := stateSymptomatic\<rparr>), [])
                else clearing_step t now verdict ti)
           | stateResolved \<Rightarrow>
               (let since = time_Sub now (ti_resolvedAt ti) in
                if \<not> cl_Cleared verdict \<and> since \<le> rt_revertWindow t
                then (Some (ti\<lparr>ti_state := stateSymptomatic\<rparr>),
                      [resolvedSignal KindResolvedReverted (ti_inc ti)
                         ((ti_recovery ti)\<lparr>rc_RevertedAfter := since\<rparr>)])
                else if since > rt_revertWindow t then (None, [])
                else (Some ti, []))))"

definition Tick :: "RecoveryTracker \<Rightarrow> observer list \<Rightarrow> gotime \<Rightarrow> RecoveryTracker \<times> Signal list" where
  "Tick t obs now =
     (let res = map (\<lambda>(k, ti). (k, tick_verdict t now (judge obs (ti_inc ti)) ti)) (rt_incidents t)
      in (t\<lparr>rt_incidents := List.map_filter (\<lambda>(k, r). map_option (Pair k) (fst r)) res\<rparr>,
          concat (map (\<lambda>(k, r). snd r) res)))"

subsection \<open>The documented state machine\<close>

text \<open>
  The machine drawn in the comment on \<^verbatim>\<open>recoveryState\<close>. At a tick the observers say nothing of an
  incident, that its symptom is present, or that it is clear, since an instant they name or just now.
  A clear reading vouches from that instant, but from no earlier than the first sighting of the
  incident and no later than now; a later instant in a streak of clear readings moves its start.
  \<open>uncovered\<close> says that no observer has ever judged the incident and its time to live is over.
\<close>

datatype phase = Symptomatic | Clearing gotime | Resolved gotime | Untracked

datatype reading = Unjudged | Present | Clear "gotime option" Resolution

datatype outcome = NoOutcome | OutcomeResolved duration duration Resolution | OutcomeReverted duration

definition vouched :: "gotime \<Rightarrow> gotime \<Rightarrow> gotime option \<Rightarrow> gotime" where
  "vouched firstSeen now since = max firstSeen (case since of None \<Rightarrow> now | Some s \<Rightarrow> min now s)"

definition streak_start :: "gotime \<Rightarrow> gotime \<Rightarrow> gotime option \<Rightarrow> gotime \<Rightarrow> gotime" where
  "streak_start firstSeen now since s = (case since of None \<Rightarrow> s | Some _ \<Rightarrow> max s (vouched firstSeen now since))"

inductive phase_step ::
  "duration \<Rightarrow> duration \<Rightarrow> gotime \<Rightarrow> bool \<Rightarrow> gotime \<Rightarrow> reading \<Rightarrow> phase \<Rightarrow> phase \<Rightarrow> outcome \<Rightarrow> bool"
  for stableFor revertWindow :: duration and firstSeen :: gotime and uncovered :: bool and now :: gotime where
  symptomatic: "phase_step stableFor revertWindow firstSeen uncovered now Present Symptomatic Symptomatic NoOutcome"
| clears: "phase_step stableFor revertWindow firstSeen uncovered now (Clear since res)
    Symptomatic (Clearing (vouched firstSeen now since)) NoOutcome"
| flaps: "phase_step stableFor revertWindow firstSeen uncovered now Present (Clearing s) Symptomatic NoOutcome"
| waits: "s' = streak_start firstSeen now since s \<Longrightarrow> time_Sub now s' < stableFor \<Longrightarrow>
    phase_step stableFor revertWindow firstSeen uncovered now (Clear since res) (Clearing s) (Clearing s') NoOutcome"
| resolves: "s' = streak_start firstSeen now since s \<Longrightarrow> stableFor \<le> time_Sub now s' \<Longrightarrow>
    phase_step stableFor revertWindow firstSeen uncovered now (Clear since res) (Clearing s) (Resolved now)
      (OutcomeResolved (time_Sub s' firstSeen) (time_Sub now s') res)"
| reverts: "time_Sub now r \<le> revertWindow \<Longrightarrow>
    phase_step stableFor revertWindow firstSeen uncovered now Present (Resolved r) Symptomatic (OutcomeReverted (time_Sub now r))"
| holds: "time_Sub now r \<le> revertWindow \<Longrightarrow>
    phase_step stableFor revertWindow firstSeen uncovered now (Clear since res) (Resolved r) (Resolved r) NoOutcome"
| final: "revertWindow < time_Sub now r \<Longrightarrow>
    phase_step stableFor revertWindow firstSeen uncovered now v (Resolved r) Untracked NoOutcome"
| unjudged: "\<not> uncovered \<Longrightarrow> (\<And>r. p = Resolved r \<Longrightarrow> time_Sub now r \<le> revertWindow) \<Longrightarrow>
    phase_step stableFor revertWindow firstSeen uncovered now Unjudged p p NoOutcome"
| gives_up: "uncovered \<Longrightarrow> phase_step stableFor revertWindow firstSeen uncovered now Unjudged p Untracked NoOutcome"

inductive_simps phase_step_Symptomatic: "phase_step sf rw fs u now v Symptomatic p' out"
inductive_simps phase_step_Clearing: "phase_step sf rw fs u now v (Clearing s) p' out"
inductive_simps phase_step_Resolved: "phase_step sf rw fs u now v (Resolved r) p' out"

lemmas phase_step_simps = phase_step_Symptomatic phase_step_Clearing phase_step_Resolved

definition reading_of :: "Clearance option \<Rightarrow> reading" where
  "reading_of v =
     (case v of
        None \<Rightarrow> Unjudged
      | Some c \<Rightarrow>
          if cl_Cleared c then Clear (if cl_StableSince c = 0 then None else Some (cl_StableSince c)) (cl_Resolution c)
          else Present)"

definition phase_of :: "trackedIncident option \<Rightarrow> phase" where
  "phase_of x =
     (case x of
        None \<Rightarrow> Untracked
      | Some ti \<Rightarrow>
          (case ti_state ti of
             stateSymptomatic \<Rightarrow> Symptomatic
           | stateClearing \<Rightarrow> Clearing (ti_stabilityStart ti)
           | stateResolved \<Rightarrow> Resolved (ti_resolvedAt ti)))"

definition outcome_of :: "Signal list \<Rightarrow> outcome" where
  "outcome_of sigs =
     (case sigs of
        [sig] \<Rightarrow>
          (case sg_Recovery sig of
             None \<Rightarrow> NoOutcome
           | Some rec \<Rightarrow>
               if sg_Kind sig = KindResolved
               then OutcomeResolved (rc_ClearedAfter rec) (rc_ObservedStableFor rec) (rc_Resolution rec)
               else OutcomeReverted (rc_RevertedAfter rec))
      | _ \<Rightarrow> NoOutcome)"

text \<open>The one reading of the comment the code does not follow: a resolved incident nobody can judge any more.\<close>

definition overlooked :: "RecoveryTracker \<Rightarrow> gotime \<Rightarrow> Clearance option \<Rightarrow> trackedIncident \<Rightarrow> bool" where
  "overlooked t now v ti =
     (v = None \<and> ti_state ti = stateResolved \<and> rt_revertWindow t < time_Sub now (ti_resolvedAt ti)
      \<and> \<not> (\<not> ti_judged ti \<and> time_Sub now (ti_trackedAt ti) > rt_uncoveredTTL t))"

lemma resolvedSignal_sel [simp]:
  "sg_Kind (resolvedSignal kind inc rec) = kind"
  "sg_Recovery (resolvedSignal kind inc rec) = Some rec"
  "te_Key (resolvedSignal kind inc rec) = in_Key inc"
  "sg_Fingerprint (resolvedSignal kind inc rec) = ir_Fingerprint (in_Ref inc)"
  "te_FirstSeen (resolvedSignal kind inc rec) = in_FirstSeen inc"
  by (simp_all add: resolvedSignal_def)

lemma stabilityStart_vouched:
  "stabilityStart inc c now =
     vouched (in_FirstSeen inc) now (if cl_StableSince c = 0 then None else Some (cl_StableSince c))"
  by (auto simp: stabilityStart_def vouched_def Let_def)

text \<open>
  C4: a tick takes exactly the steps of the documented state machine. Whatever the state of a tracked
  incident, the time and what the observers say, the phase the tick leaves it in and the outcome it
  emits, with its durations and resolution, are the one step the machine has. The exception is a
  resolved incident that no observer can judge any more: the machine untracks it when its revert
  window is over, the tick leaves it as it is and emits nothing.
\<close>

theorem tick_refines_machine:
  "if overlooked t now v ti then tick_verdict t now v ti = (Some ti, [])
   else \<forall>p out.
     phase_step (rt_stableFor t) (rt_revertWindow t) (in_FirstSeen (ti_inc ti))
       (\<not> ti_judged ti \<and> time_Sub now (ti_trackedAt ti) > rt_uncoveredTTL t)
       now (reading_of v) (phase_of (Some ti)) p out
     \<longleftrightarrow> p = phase_of (fst (tick_verdict t now v ti)) \<and> out = outcome_of (snd (tick_verdict t now v ti))"
proof (cases v)
  case None
  then show ?thesis
    by (cases "ti_state ti")
       (auto simp: overlooked_def tick_verdict_def phase_of_def outcome_of_def reading_of_def phase_step_simps)
next
  case (Some c)
  then have o: "\<not> overlooked t now v ti" by (simp add: overlooked_def)
  show ?thesis
  proof (cases "ti_state ti")
    case stateSymptomatic
    then show ?thesis using Some o
      by (auto simp: tick_verdict_def Let_def phase_of_def outcome_of_def reading_of_def phase_step_simps stabilityStart_vouched)
  next
    case stateClearing
    then show ?thesis using Some o
      by (auto simp: tick_verdict_def clearing_step_def Let_def phase_of_def outcome_of_def reading_of_def
        phase_step_simps stabilityStart_vouched streak_start_def kind_defs max_def not_le)
  next
    case stateResolved
    then show ?thesis using Some o
      by (auto simp: tick_verdict_def Let_def phase_of_def outcome_of_def reading_of_def phase_step_simps kind_defs)
  qed
qed

subsection \<open>The life of one incident\<close>

text \<open>
  The ticks of one incident, each with its time and the verdict the observers gave; \<^const>\<open>None\<close>
  once the incident is no longer tracked.
\<close>

definition tick_run ::
  "RecoveryTracker \<Rightarrow> trackedIncident \<Rightarrow> (gotime \<times> Clearance option) list \<Rightarrow> trackedIncident option" where
  "tick_run t ti h =
     foldl (\<lambda>x (now, v). case x of None \<Rightarrow> None | Some ti \<Rightarrow> fst (tick_verdict t now v ti)) (Some ti) h"

lemma tick_run_snoc:
  "tick_run t ti (h @ [(now, v)]) =
     (case tick_run t ti h of None \<Rightarrow> None | Some ti' \<Rightarrow> fst (tick_verdict t now v ti'))"
  by (simp add: tick_run_def)

lemma tick_verdict_inc: "fst (tick_verdict t now v ti) = Some ti' \<Longrightarrow> ti_inc ti' = ti_inc ti"
  by (auto simp: tick_verdict_def clearing_step_def Let_def split: option.splits recoveryState.splits if_splits)

text \<open>How an incident comes to be clearing: it was clearing already, or its symptom just cleared.\<close>

lemma tick_to_clearing:
  assumes "fst (tick_verdict t now v ti) = Some ti'" and "ti_state ti' = stateClearing"
  shows "v = None \<and> ti' = ti
       \<or> (\<exists>v'. v = Some v' \<and> cl_Cleared v' \<and>
            (ti_state ti = stateSymptomatic \<and> ti_stabilityStart ti' = stabilityStart (ti_inc ti) v' now
             \<or> ti_state ti = stateClearing \<and> ti_stabilityStart ti \<le> ti_stabilityStart ti'
               \<and> (cl_StableSince v' \<noteq> 0 \<longrightarrow> stabilityStart (ti_inc ti) v' now \<le> ti_stabilityStart ti')))"
  using assms
  by (cases "ti_state ti")
     (auto simp: tick_verdict_def clearing_step_def Let_def split: option.splits if_splits)

text \<open>An unbroken run of cleared verdicts behind every clearing incident.\<close>

definition clear_streak ::
  "Incident \<Rightarrow> gotime \<Rightarrow> (gotime \<times> Clearance option) list \<Rightarrow> bool" where
  "clear_streak inc start h =
     (\<exists>h1 t0 v0 h2. h = h1 @ (t0, Some v0) # h2 \<and> cl_Cleared v0 \<and> stabilityStart inc v0 t0 \<le> start
        \<and> (\<forall>(t, v) \<in> set h2. \<forall>v'. v = Some v' \<longrightarrow>
              cl_Cleared v' \<and> (cl_StableSince v' \<noteq> 0 \<longrightarrow> stabilityStart inc v' t \<le> start)))"

lemma clear_streak_start:
  "cl_Cleared v' \<Longrightarrow> clear_streak inc (stabilityStart inc v' now) (h @ [(now, Some v')])"
  unfolding clear_streak_def by (rule exI[of _ h], rule exI[of _ now], rule exI[of _ v'], rule exI[of _ "[]"]) simp

lemma clear_streak_snoc:
  assumes "clear_streak inc s h" and "s \<le> s'"
    and "\<And>v'. v = Some v' \<Longrightarrow> cl_Cleared v' \<and> (cl_StableSince v' \<noteq> 0 \<longrightarrow> stabilityStart inc v' now \<le> s')"
  shows "clear_streak inc s' (h @ [(now, v)])"
proof -
  obtain h1 t0 v0 h2 where h: "h = h1 @ (t0, Some v0) # h2" "cl_Cleared v0" "stabilityStart inc v0 t0 \<le> s"
    "\<forall>(t, v) \<in> set h2. \<forall>v'. v = Some v' \<longrightarrow> cl_Cleared v' \<and> (cl_StableSince v' \<noteq> 0 \<longrightarrow> stabilityStart inc v' t \<le> s)"
    using assms(1) by (auto simp: clear_streak_def)
  have "\<forall>(t, v) \<in> set (h2 @ [(now, v)]). \<forall>v'. v = Some v' \<longrightarrow>
      cl_Cleared v' \<and> (cl_StableSince v' \<noteq> 0 \<longrightarrow> stabilityStart inc v' t \<le> s')"
    using h(4) assms(2,3) by force
  then show ?thesis
    unfolding clear_streak_def using h(1-3) assms(2)
    by (intro exI[of _ h1] exI[of _ t0] exI[of _ v0] exI[of _ "h2 @ [(now, v)]"]) simp
qed

lemma clearing_has_streak:
  assumes "ti_state ti0 = stateSymptomatic"
  shows "tick_run t ti0 h = Some ti \<Longrightarrow>
    ti_inc ti = ti_inc ti0 \<and> (ti_state ti = stateClearing \<longrightarrow> clear_streak (ti_inc ti0) (ti_stabilityStart ti) h)"
proof (induction h arbitrary: ti rule: rev_induct)
  case Nil
  then show ?case using assms by (simp add: tick_run_def)
next
  case (snoc x h)
  obtain now v where x: "x = (now, v)" by (cases x)
  obtain ti' where ti': "tick_run t ti0 h = Some ti'" "fst (tick_verdict t now v ti') = Some ti"
    using snoc.prems x by (auto simp: tick_run_snoc split: option.splits)
  have inc: "ti_inc ti' = ti_inc ti0" "ti_inc ti = ti_inc ti0"
    using snoc.IH[OF ti'(1)] tick_verdict_inc[OF ti'(2)] by auto
  have "clear_streak (ti_inc ti0) (ti_stabilityStart ti) (h @ [x])" if st: "ti_state ti = stateClearing"
    using tick_to_clearing[OF ti'(2) st]
  proof (elim disjE exE conjE)
    assume v: "v = None" "ti = ti'"
    then have "clear_streak (ti_inc ti0) (ti_stabilityStart ti) h" using snoc.IH[OF ti'(1)] st by simp
    then show ?thesis unfolding x by (rule clear_streak_snoc) (use v in auto)
  next
    fix v' assume "v = Some v'" "cl_Cleared v'" "ti_state ti' = stateSymptomatic"
      "ti_stabilityStart ti = stabilityStart (ti_inc ti') v' now"
    then show ?thesis using x inc clear_streak_start by simp
  next
    fix v' assume v': "v = Some v'" "cl_Cleared v'" "ti_state ti' = stateClearing"
      "ti_stabilityStart ti' \<le> ti_stabilityStart ti"
      "cl_StableSince v' \<noteq> 0 \<longrightarrow> stabilityStart (ti_inc ti') v' now \<le> ti_stabilityStart ti"
    then have "clear_streak (ti_inc ti0) (ti_stabilityStart ti') h" using snoc.IH[OF ti'(1)] by simp
    then show ?thesis unfolding x by (rule clear_streak_snoc) (use v' inc in auto)
  qed
  then show ?case using inc by blast
qed

lemma tick_resolves:
  assumes "sig \<in> set (snd (tick_verdict t now v ti))" and "sg_Kind sig = KindResolved"
  shows "\<exists>v' s rec. v = Some v' \<and> cl_Cleared v' \<and> ti_state ti = stateClearing \<and> ti_stabilityStart ti \<le> s
           \<and> rt_stableFor t \<le> time_Sub now s \<and> sg_Recovery sig = Some rec
           \<and> rc_ObservedStableFor rec = time_Sub now s \<and> rc_ResolvedAt rec = now
           \<and> rc_Resolution rec = cl_Resolution v'
           \<and> te_Key sig = in_Key (ti_inc ti) \<and> sg_Fingerprint sig = ir_Fingerprint (in_Ref (ti_inc ti))"
  using assms
  by (cases "ti_state ti")
     (auto simp: tick_verdict_def clearing_step_def Let_def kind_defs split: option.splits if_splits,
      metis less_imp_le)

lemma time_Sub_antimono: "s \<le> s' \<Longrightarrow> time_Sub now s' \<le> time_Sub now s"
  by (auto simp: time_Sub_def)

text \<open>
  C5: an incident is called resolved only after a full, unbroken stability window. Take an
  incident from the moment it is tracked, through any ticks with any verdicts. If a tick emits
  \<open>resolved\<close> for it, then the ticks end in a run that begins with a cleared verdict and holds no
  verdict of a present symptom, the emitting tick's own verdict is cleared, and the streak that run
  vouches for began at least the stability window ago, from its first reading and from every later
  reading that carries a time of its own. The outcome carries the incident's key and fingerprint.
\<close>

theorem resolved_after_stable_window:
  assumes "ti_state ti0 = stateSymptomatic" and "tick_run t ti0 h = Some ti"
    and "sig \<in> set (snd (tick_verdict t now v ti))" and "sg_Kind sig = KindResolved"
  shows "\<exists>h1 t0 v0 h2 v1 rec. h = h1 @ (t0, Some v0) # h2 \<and> cl_Cleared v0 \<and> v = Some v1 \<and> cl_Cleared v1
     \<and> (\<forall>(t', v') \<in> set h2. \<forall>w. v' = Some w \<longrightarrow> cl_Cleared w
            \<and> (cl_StableSince w \<noteq> 0 \<longrightarrow> rt_stableFor t \<le> time_Sub now (stabilityStart (ti_inc ti0) w t')))
     \<and> rt_stableFor t \<le> time_Sub now (stabilityStart (ti_inc ti0) v0 t0)
     \<and> sg_Recovery sig = Some rec \<and> rt_stableFor t \<le> rc_ObservedStableFor rec \<and> rc_ResolvedAt rec = now
     \<and> te_Key sig = in_Key (ti_inc ti0) \<and> sg_Fingerprint sig = ir_Fingerprint (in_Ref (ti_inc ti0))"
proof -
  obtain v1 s rec where r: "v = Some v1" "cl_Cleared v1" "ti_state ti = stateClearing"
    "ti_stabilityStart ti \<le> s" "rt_stableFor t \<le> time_Sub now s" "sg_Recovery sig = Some rec"
    "rc_ObservedStableFor rec = time_Sub now s" "rc_ResolvedAt rec = now"
    "te_Key sig = in_Key (ti_inc ti)" "sg_Fingerprint sig = ir_Fingerprint (in_Ref (ti_inc ti))"
    using tick_resolves[OF assms(3,4)] by blast
  have inc: "ti_inc ti = ti_inc ti0" and "clear_streak (ti_inc ti0) (ti_stabilityStart ti) h"
    using clearing_has_streak[OF assms(1,2)] r(3) by auto
  then obtain h1 t0 v0 h2 where h: "h = h1 @ (t0, Some v0) # h2" "cl_Cleared v0"
    "stabilityStart (ti_inc ti0) v0 t0 \<le> ti_stabilityStart ti"
    "\<forall>(t', v') \<in> set h2. \<forall>w. v' = Some w \<longrightarrow>
        cl_Cleared w \<and> (cl_StableSince w \<noteq> 0 \<longrightarrow> stabilityStart (ti_inc ti0) w t' \<le> ti_stabilityStart ti)"
    unfolding clear_streak_def by blast
  have vouch: "rt_stableFor t \<le> time_Sub now s'" if "s' \<le> ti_stabilityStart ti" for s'
    using that r(4,5) time_Sub_antimono[of s' s now] by linarith
  have "\<forall>(t', v') \<in> set h2. \<forall>w. v' = Some w \<longrightarrow> cl_Cleared w
      \<and> (cl_StableSince w \<noteq> 0 \<longrightarrow> rt_stableFor t \<le> time_Sub now (stabilityStart (ti_inc ti0) w t'))"
    using h(4) vouch by fast
  then show ?thesis
    using r h(1,2) vouch[OF h(3)] inc
    by (intro exI[of _ h1] exI[of _ t0] exI[of _ v0] exI[of _ h2] exI[of _ v1] exI[of _ rec]) simp
qed

definition pod_incident :: Incident where
  "pod_incident = \<lparr>in_Key = \<lparr>ek_UID = ''p'', ek_Reason = ''OOMKilled''\<rparr>, in_SessionID = ''s1'', in_FirstSeen = 1000,
     in_Ref = (IncidentRef_of zero_signal)\<lparr>ir_Fingerprint := ''fp''\<rparr>\<rparr>"

definition tracked_pod :: trackedIncident where
  "tracked_pod = \<lparr>ti_inc = pod_incident, ti_state = stateSymptomatic, ti_stabilityStart = 0, ti_resolvedAt = 0,
     ti_recovery = zero_recovery, ti_trackedAt = 1000, ti_judged = False\<rparr>"

definition ready_since :: "gotime \<Rightarrow> Clearance" where
  "ready_since s = \<lparr>cl_Cleared = True, cl_StableSince = s, cl_Resolution = ResolutionRecovered\<rparr>"

theorem resolved_after_stable_window_witness:
  "let t = NewRecoveryTracker (5 * Minute);
       h = [(2 * Minute, Some (ready_since (90 * Second))), (4 * Minute, None)];
       sigs = snd (tick_verdict t (7 * Minute) (Some (ready_since (90 * Second))) (the (tick_run t tracked_pod h)))
   in map te_Key sigs = [in_Key pod_incident]
      \<and> (\<exists>h1 t0 v0 h2. h = h1 @ (t0, Some v0) # h2 \<and> 5 * Minute \<le> time_Sub (7 * Minute) (stabilityStart pod_incident v0 t0))"
proof -
  let ?t = "NewRecoveryTracker (5 * Minute)"
  let ?h = "[(2 * Minute, Some (ready_since (90 * Second))), (4 * Minute, None)]"
  let ?ti = "the (tick_run ?t tracked_pod ?h)"
  let ?sig = "hd (snd (tick_verdict ?t (7 * Minute) (Some (ready_since (90 * Second))) ?ti))"
  have sym: "ti_state tracked_pod = stateSymptomatic" by code_simp
  have run: "tick_run ?t tracked_pod ?h = Some ?ti" by code_simp
  have one: "snd (tick_verdict ?t (7 * Minute) (Some (ready_since (90 * Second))) ?ti) = [?sig]" by code_simp
  then have mem: "?sig \<in> set (snd (tick_verdict ?t (7 * Minute) (Some (ready_since (90 * Second))) ?ti))"
    by (metis list.set_intros(1))
  have kind: "sg_Kind ?sig = KindResolved" by code_simp
  have inc: "ti_inc tracked_pod = pod_incident" "rt_stableFor ?t = 5 * Minute"
    by (simp_all add: tracked_pod_def NewRecoveryTracker_def)
  have key: "map te_Key (snd (tick_verdict ?t (7 * Minute) (Some (ready_since (90 * Second))) ?ti)) = [in_Key pod_incident]"
    by code_simp
  show ?thesis
    unfolding Let_def
    using resolved_after_stable_window[OF sym run mem kind] key unfolding inc by blast
qed

subsection \<open>Clearance is eventually announced\<close>

fun tick_emits :: "RecoveryTracker \<Rightarrow> trackedIncident \<Rightarrow> (gotime \<times> Clearance option) list \<Rightarrow> Signal list" where
  "tick_emits t ti [] = []"
| "tick_emits t ti ((now, v) # h) =
     snd (tick_verdict t now v ti)
     @ (case fst (tick_verdict t now v ti) of None \<Rightarrow> [] | Some ti' \<Rightarrow> tick_emits t ti' h)"

text \<open>A verdict that does not move the start of the streak.\<close>

definition keeps_clear :: "Incident \<Rightarrow> gotime \<Rightarrow> gotime \<times> Clearance option \<Rightarrow> bool" where
  "keeps_clear inc start tick =
     (case snd tick of
        None \<Rightarrow> True
      | Some w \<Rightarrow> cl_Cleared w \<and> (cl_StableSince w = 0 \<or> stabilityStart inc w (fst tick) \<le> start))"

lemma clearing_tick:
  assumes "ti_state ti = stateClearing" and "ti_stabilityStart ti = s" and "cl_Cleared w"
    and "cl_StableSince w = 0 \<or> stabilityStart (ti_inc ti) w now \<le> s"
  shows "if rt_stableFor t \<le> time_Sub now s
         then \<exists>sig. snd (tick_verdict t now (Some w) ti) = [sig] \<and> sg_Kind sig = KindResolved
                \<and> te_Key sig = in_Key (ti_inc ti)
         else tick_verdict t now (Some w) ti = (Some (ti\<lparr>ti_judged := True\<rparr>), [])"
  using assms by (cases ti) (auto simp: tick_verdict_def clearing_step_def Let_def)

lemma clearing_resolves:
  assumes "ti_state ti = stateClearing" and "ti_stabilityStart ti = s" and "ti_judged ti"
    and "\<forall>x \<in> set h. keeps_clear (ti_inc ti) s x"
    and "(tn, Some vn) \<in> set h" and "rt_stableFor t \<le> time_Sub tn s"
  shows "\<exists>sig \<in> set (tick_emits t ti h). sg_Kind sig = KindResolved \<and> te_Key sig = in_Key (ti_inc ti)"
  using assms(1-5)
proof (induction h arbitrary: ti)
  case (Cons x h)
  obtain now v where x: "x = (now, v)" by (cases x)
  show ?case
  proof (cases v)
    case None
    then have "tick_verdict t now v ti = (Some ti, [])" using Cons.prems(3) by (simp add: tick_verdict_def)
    then show ?thesis using Cons.IH[of ti] Cons.prems x None by auto
  next
    case (Some w)
    have w: "cl_Cleared w" "cl_StableSince w = 0 \<or> stabilityStart (ti_inc ti) w now \<le> s"
      using Cons.prems(4) x Some by (auto simp: keeps_clear_def)
    note step = clearing_tick[OF Cons.prems(1,2) w, of t]
    show ?thesis
    proof (cases "rt_stableFor t \<le> time_Sub now s")
      case True
      then show ?thesis using step x Some by (fastforce split: option.split)
    next
      case False
      then have ne: "(tn, Some vn) \<in> set h" using Cons.prems(5) x Some assms(6) by auto
      have "tick_emits t ti (x # h) = tick_emits t (ti\<lparr>ti_judged := True\<rparr>) h"
        using step False x Some by simp
      then show ?thesis using Cons.IH[of "ti\<lparr>ti_judged := True\<rparr>"] Cons.prems ne by simp
    qed
  qed
qed simp

text \<open>
  C6: a symptom that stays clear is announced. Once a verdict reads cleared and later ticks keep
  reading cleared without moving the start of the streak forward (an observer that vouches for the
  present instant only gives no start and moves nothing), the first judged tick at or after the
  stability window emits \<open>resolved\<close>, or an earlier one has; ticks at which no observer can judge
  the incident in between do not matter.
\<close>

theorem steady_clear_is_announced:
  assumes "ti_state ti = stateSymptomatic" and "cl_Cleared v1"
    and "\<forall>x \<in> set h. keeps_clear (ti_inc ti) (stabilityStart (ti_inc ti) v1 t1) x"
    and "(tn, Some vn) \<in> set h"
    and "rt_stableFor t \<le> time_Sub tn (stabilityStart (ti_inc ti) v1 t1)"
  shows "\<exists>sig \<in> set (tick_emits t ti ((t1, Some v1) # h)). sg_Kind sig = KindResolved \<and> te_Key sig = in_Key (ti_inc ti)"
proof -
  let ?ti = "ti\<lparr>ti_judged := True, ti_state := stateClearing,
                ti_stabilityStart := stabilityStart (ti_inc ti) v1 t1\<rparr>"
  have "tick_verdict t t1 (Some v1) ti = (Some ?ti, [])"
    using assms(1,2) by (simp add: tick_verdict_def Let_def)
  then have "tick_emits t ti ((t1, Some v1) # h) = tick_emits t ?ti h" by simp
  then show ?thesis
    using clearing_resolves[of ?ti "stabilityStart (ti_inc ti) v1 t1" h tn vn t] assms by simp
qed

text \<open>The object is gone: the observer has no time to give, only that the symptom is absent now.\<close>

definition gone :: Clearance where
  "gone = \<lparr>cl_Cleared = True, cl_StableSince = 0, cl_Resolution = ResolutionObjectDeleted\<rparr>"

theorem steady_clear_is_announced_witness:
  "\<exists>sig \<in> set (tick_emits (NewRecoveryTracker (5 * Minute)) tracked_pod
      [(2 * Minute, Some gone), (4 * Minute, Some gone), (6 * Minute, None), (8 * Minute, Some gone)]).
     sg_Kind sig = KindResolved \<and> te_Key sig = in_Key (ti_inc tracked_pod)"
proof (rule steady_clear_is_announced)
  show "ti_state tracked_pod = stateSymptomatic" by code_simp
  show "cl_Cleared gone" by code_simp
  show "\<forall>x \<in> set [(4 * Minute, Some gone), (6 * Minute, None), (8 * Minute, Some gone)].
      keeps_clear (ti_inc tracked_pod) (stabilityStart (ti_inc tracked_pod) gone (2 * Minute)) x" by code_simp
  show "(8 * Minute, Some gone) \<in> set [(4 * Minute, Some gone), (6 * Minute, None), (8 * Minute, Some gone)]" by simp
  show "rt_stableFor (NewRecoveryTracker (5 * Minute))
      \<le> time_Sub (8 * Minute) (stabilityStart (ti_inc tracked_pod) gone (2 * Minute))" by code_simp
qed

subsection \<open>The tracker as a whole\<close>

lemma evictOne_free:
  assumes "0 < length m" shows "length (evictOne t now m) < length m"
proof -
  obtain k ti where b: "scan_best (tracked_before t now) None m = Some (k, ti)" "(k, ti) \<in> set m"
    using scan_best_pair[of m "tracked_before t now"] assms by auto
  then have "k \<in> fst ` set m" by force
  then show ?thesis using b(1) length_gdel_less[of k m] by (simp add: evictOne_def)
qed

interpretation incident_store: bounded_store maxTrackedIncidents
  "\<lambda>m. if length m \<ge> maxTrackedIncidents then evictOne t now m else m"
proof unfold_locales
  fix m :: "(EventKey, trackedIncident) gomap"
  show "fst ` set (if length m \<ge> maxTrackedIncidents then evictOne t now m else m) \<subseteq> fst ` set m"
    by (auto simp: evictOne_def keys_gdel split: option.splits dest!: set_gdel[THEN subsetD] intro: rev_image_eqI)
  show "gokeys m \<Longrightarrow> gokeys (if length m \<ge> maxTrackedIncidents then evictOne t now m else m)"
    by (auto simp: evictOne_def split: option.splits)
  show "0 < maxTrackedIncidents \<Longrightarrow> gokeys m \<Longrightarrow> length m \<le> maxTrackedIncidents \<Longrightarrow>
        length (if length m \<ge> maxTrackedIncidents then evictOne t now m else m) < maxTrackedIncidents"
    using evictOne_free[of m t now] by (cases "m = []") auto
qed

definition tracker_ok :: "RecoveryTracker \<Rightarrow> bool" where
  "tracker_ok t = (gokeys (rt_incidents t) \<and> length (rt_incidents t) \<le> maxTrackedIncidents)"

lemma Track_ok: "tracker_ok t \<Longrightarrow> tracker_ok (Track t now inc)"
proof -
  assume ok: "tracker_ok t"
  let ?k = "canon_key (in_Key inc)" and ?m = "rt_incidents t"
  have pos: "0 < maxTrackedIncidents" by (simp add: maxTrackedIncidents_def)
  show ?thesis
  proof (cases "gget ?m ?k")
    case None
    then show ?thesis
      using ok incident_store.store_bounded[OF pos, of ?m ?k _ t now] incident_store.store_gokeys[of ?m ?k _ t now]
      by (simp add: tracker_ok_def Track_def Let_def)
  next
    case (Some ti)
    then have "?k \<in> fst ` set ?m" using gget_in_keys[of ?m ?k] by simp
    then show ?thesis using ok Some by (simp add: tracker_ok_def Track_def Let_def length_gput)
  qed
qed

lemma Requeue_ok: "tracker_ok t \<Longrightarrow> tracker_ok (RequeueResolved t key)"
  by (simp add: tracker_ok_def RequeueResolved_def)

text \<open>A tick treats every incident on its own.\<close>

lemma tick_pass_keys:
  "fst ` set (List.map_filter (\<lambda>(k, r). map_option (Pair k) (fst r)) (map (\<lambda>(k, v). (k, f v)) m)) \<subseteq> fst ` set m"
  by (induction m) (auto simp: List.map_filter_simps split: option.splits)

lemma tick_pass_ok:
  "gokeys m \<Longrightarrow>
     gokeys (List.map_filter (\<lambda>(k, r). map_option (Pair k) (fst r)) (map (\<lambda>(k, v). (k, f v)) m))"
proof (induction m)
  case (Cons x m)
  then show ?case
    using tick_pass_keys[of f m] by (cases x) (auto simp: List.map_filter_simps split: option.splits)
qed (simp add: List.map_filter_simps)

lemma tick_pass_length:
  "length (List.map_filter (\<lambda>(k, r). map_option (Pair k) (fst r)) (map (\<lambda>(k, v). (k, f v)) m)) \<le> length m"
  by (induction m) (auto simp: List.map_filter_simps split: option.split)

lemma tick_pass_get:
  "gokeys m \<Longrightarrow>
     gget (List.map_filter (\<lambda>(k, r). map_option (Pair k) (fst r)) (map (\<lambda>(k, v). (k, f v)) m)) k
     = Option.bind (gget m k) (fst \<circ> f)"
proof (induction m)
  case (Cons x m)
  obtain k' v where x: "x = (k', v)" by (cases x)
  have "k' \<notin> fst ` set (List.map_filter (\<lambda>(k, r). map_option (Pair k) (fst r)) (map (\<lambda>(k, v). (k, f v)) m))"
    using Cons.prems x tick_pass_keys[of f m] by auto
  then show ?case
    using Cons x by (auto simp: List.map_filter_simps map_of_eq_None_iff split: option.split)
qed (simp add: List.map_filter_simps)

lemma Tick_get:
  "gokeys (rt_incidents t) \<Longrightarrow>
     gget (rt_incidents (fst (Tick t obs now))) k =
       Option.bind (gget (rt_incidents t) k) (\<lambda>ti. fst (tick_verdict t now (judge obs (ti_inc ti)) ti))"
  by (simp add: Tick_def Let_def tick_pass_get comp_def)

lemma Tick_ok: "tracker_ok t \<Longrightarrow> tracker_ok (fst (Tick t obs now))"
  using tick_pass_length[of "\<lambda>ti. tick_verdict t now (judge obs (ti_inc ti)) ti" "rt_incidents t"]
  by (simp add: tracker_ok_def Tick_def Let_def tick_pass_ok)

end
