(* ===== verification/IncidentLoop.thy ===== *)
theory IncidentLoop
  imports DedupHistory RecoveryWatch
begin

section \<open>The dedup cache and the recovery tracker together\<close>

text \<open>
  \<^verbatim>\<open>internal/watch/wiring.go\<close> installs the recovery tracker's \<^verbatim>\<open>Open\<close> as the dedup cache's open
  check. The two components then share a history: dispatched signals operate on the cache, opens
  are tracked, and the recovery loop ticks the tracker. Each operation holds its component's lock,
  so a history is a sequence of whole operations.
\<close>

datatype loop_op =
    CacheOp cache_op
  | TrackOp Incident
  | TickOp "observer list"
  | RequeueOp EventKey

type_synonym loop_state = "DedupCache \<times> RecoveryTracker"

fun loop_exec :: "gotime \<Rightarrow> loop_op \<Rightarrow> loop_state \<Rightarrow> loop_state" where
  "loop_exec now (CacheOp op) (c, t) = (cache_exec (Some (Open t)) now op c, t)"
| "loop_exec now (TrackOp inc) (c, t) = (c, Track t now inc)"
| "loop_exec now (TickOp obs) (c, t) = (c, fst (Tick t obs now))"
| "loop_exec now (RequeueOp key) (c, t) = (c, RequeueResolved t key)"

type_synonym loop_history = "(gotime \<times> loop_op) list"

fun loop_run :: "loop_state \<Rightarrow> loop_history \<Rightarrow> loop_state" where
  "loop_run s [] = s"
| "loop_run s ((now, op) # h) = loop_run (loop_exec now op s) h"

fun loop_verdicts :: "loop_state \<Rightarrow> loop_history \<Rightarrow> (EventKey \<times> DedupResult) list" where
  "loop_verdicts s [] = []"
| "loop_verdicts s ((now, op) # h) =
     (case op of
        CacheOp (OpObserve key obs) \<Rightarrow> [(canon_key key, fst (ObserveSignal (Some (Open (snd s))) (fst s) now key obs))]
      | _ \<Rightarrow> [])
     @ loop_verdicts (loop_exec now op s) h"

subsection \<open>What keeps an incident open\<close>

definition keyed :: "RecoveryTracker \<Rightarrow> bool" where
  "keyed t = (gokeys (rt_incidents t) \<and> (\<forall>(k, ti) \<in> set (rt_incidents t). in_Key (ti_inc ti) = k \<and> canon_key k = k))"

text \<open>
  A step that does not end the incident: no tick announces it resolved while some observer judges
  it, the cache and the tracker have room, and no cache operation rebinds or resolves its key.
\<close>

definition undisturbed :: "EventKey \<Rightarrow> gotime \<Rightarrow> loop_op \<Rightarrow> loop_state \<Rightarrow> bool" where
  "undisturbed k now op s =
     (case op of
        CacheOp cop \<Rightarrow> length (dc_entries (fst s)) < dc_max (fst s) \<and> \<not> rebinds k cop
      | TrackOp inc \<Rightarrow> canon_key (in_Key inc) = k \<or> tracker_Len (snd s) < maxTrackedIncidents
      | TickOp obs \<Rightarrow>
          (\<forall>(k', ti) \<in> set (rt_incidents (snd s)). k' = k \<longrightarrow> judge obs (ti_inc ti) \<noteq> None)
          \<and> (\<forall>sig \<in> set (snd (Tick (snd s) obs now)). sg_Kind sig = KindResolved \<longrightarrow> te_Key sig \<noteq> k)
      | RequeueOp key \<Rightarrow> True)"

fun all_undisturbed :: "EventKey \<Rightarrow> loop_state \<Rightarrow> loop_history \<Rightarrow> bool" where
  "all_undisturbed k s [] = True"
| "all_undisturbed k s ((now, op) # h) =
     (undisturbed k now op s \<and> all_undisturbed k (loop_exec now op s) h)"

lemma keyed_gget: "keyed t \<Longrightarrow> gget (rt_incidents t) k = Some ti \<Longrightarrow> in_Key (ti_inc ti) = k \<and> canon_key k = k"
  by (auto simp: keyed_def dest!: map_of_SomeD)

lemma evictOne_keys: "set (evictOne t now m) \<subseteq> set m"
  by (auto simp: evictOne_def split: option.splits dest!: set_gdel[THEN subsetD])

lemma evictOne_gokeys: "gokeys m \<Longrightarrow> gokeys (evictOne t now m)"
  by (auto simp: evictOne_def split: option.split)

lemma keyed_Track: "keyed t \<Longrightarrow> keyed (Track t now inc)"
  using evictOne_keys[of t now "rt_incidents t"] evictOne_gokeys[of "rt_incidents t" t now]
  by (auto simp: keyed_def Track_def Let_def dest!: set_gput[THEN subsetD])

lemma keyed_Requeue: "keyed t \<Longrightarrow> keyed (RequeueResolved t key)"
  by (auto simp: keyed_def RequeueResolved_def gmod_def split: option.split
      dest!: set_gput[THEN subsetD] dest: map_of_SomeD)

lemma keyed_Tick: "keyed t \<Longrightarrow> keyed (fst (Tick t obs now))"
proof -
  assume k: "keyed t"
  let ?t = "fst (Tick t obs now)"
  have go: "gokeys (rt_incidents ?t)" using k by (simp add: keyed_def Tick_def Let_def tick_pass_ok)
  have "in_Key (ti_inc ti) = k' \<and> canon_key k' = k'" if "(k', ti) \<in> set (rt_incidents ?t)" for k' ti
  proof -
    have "gget (rt_incidents ?t) k' = Some ti" using that go by simp
    then obtain ti0 where "gget (rt_incidents t) k' = Some ti0"
      "fst (tick_verdict t now (judge obs (ti_inc ti0)) ti0) = Some ti"
      using Tick_get[of t obs now k'] k by (cases "gget (rt_incidents t) k'") (auto simp: keyed_def)
    then show ?thesis using keyed_gget[OF k] tick_verdict_inc by metis
  qed
  then show ?thesis using go by (auto simp: keyed_def)
qed

lemma keyed_exec: "keyed (snd s) \<Longrightarrow> keyed (snd (loop_exec now op s))"
  by (cases s; cases op) (simp_all add: keyed_Track keyed_Requeue keyed_Tick)

text \<open>An open incident leaves the tracker's open states only by being announced resolved.\<close>

lemma tick_verdict_open:
  assumes "ti_state ti \<noteq> stateResolved" and "v \<noteq> None"
  shows "(\<exists>ti'. fst (tick_verdict t now v ti) = Some ti' \<and> ti_state ti' \<noteq> stateResolved)
       \<or> (\<exists>sig. snd (tick_verdict t now v ti) = [sig] \<and> sg_Kind sig = KindResolved \<and> te_Key sig = in_Key (ti_inc ti))"
  using assms
  by (cases "ti_state ti") (auto simp: tick_verdict_def clearing_step_def Let_def)

lemma Open_Tick:
  assumes k: "keyed t" and o: "Open t k" "canon_key k = k" and u: "undisturbed k now (TickOp obs) (c, t)"
  shows "Open (fst (Tick t obs now)) k"
proof -
  obtain ti where ti: "gget (rt_incidents t) k = Some ti" "ti_state ti \<noteq> stateResolved"
    using o by (auto simp: Open_def split: option.splits)
  have m: "(k, ti) \<in> set (rt_incidents t)" using ti(1) by (rule map_of_SomeD)
  have j: "judge obs (ti_inc ti) \<noteq> None" using u m by (fastforce simp: undisturbed_def)
  have "set (snd (tick_verdict t now (judge obs (ti_inc ti)) ti)) \<subseteq> set (snd (Tick t obs now))"
    using m by (auto simp: Tick_def Let_def intro!: bexI[of _ "(k, ti)"]) (metis prod.collapse)
  moreover have "in_Key (ti_inc ti) = k" using keyed_gget[OF k ti(1)] by simp
  ultimately have "\<exists>ti'. fst (tick_verdict t now (judge obs (ti_inc ti)) ti) = Some ti' \<and> ti_state ti' \<noteq> stateResolved"
    using tick_verdict_open[OF ti(2) j, of t now] u by (fastforce simp: undisturbed_def)
  then show ?thesis using Tick_get[of t obs now k] k ti(1) o(2) by (auto simp: Open_def keyed_def)
qed

lemma Open_exec:
  assumes "keyed (snd s)" and "Open (snd s) k" and "canon_key k = k" and "undisturbed k now op s"
  shows "Open (snd (loop_exec now op s)) k"
proof -
  obtain c t where s: "s = (c, t)" by (cases s)
  show ?thesis
  proof (cases op)
    case (TickOp obs)
    then show ?thesis using Open_Tick assms s by simp
  next
    case (TrackOp inc)
    then show ?thesis
      using assms s by (auto simp: Open_def Track_def Let_def undisturbed_def tracker_Len_def split: option.splits)
  next
    case (RequeueOp key)
    then show ?thesis using assms s by (auto simp: Open_def RequeueResolved_def split: option.splits)
  qed (use assms s in simp)
qed

subsection \<open>One incident, one session\<close>

lemma loop_step:
  assumes "dedup_ok (fst s)" and "keyed (snd s)" and "bound k sid (fst s)" and "Open (snd s) k"
    and "canon_key k = k" and "undisturbed k now op s"
  shows "dedup_ok (fst (loop_exec now op s)) \<and> bound k sid (fst (loop_exec now op s))"
proof -
  obtain c t where s: "s = (c, t)" by (cases s)
  show ?thesis
  proof (cases op)
    case (CacheOp cop)
    then show ?thesis
      using assms s ok_exec[of c "Some (Open t)" now cop] bound_exec[of c k sid "Open t" cop now]
      by (simp add: undisturbed_def)
  qed (use assms s in simp_all)
qed

lemma loop_verdict:
  assumes "dedup_ok (fst s)" and "bound k sid (fst s)" and "Open (snd s) k" and "undisturbed k now op s"
    and "op = CacheOp (OpObserve key obs)" and "canon_key key = k"
  shows "dr_Kind (fst (ObserveSignal (Some (Open (snd s))) (fst s) now key obs)) \<noteq> DedupNewIncident
       \<and> dr_SessionID (fst (ObserveSignal (Some (Open (snd s))) (fst s) now key obs)) = sid"
  using bound_ObserveSignal[of "fst s" k sid "Open (snd s)" key obs now] assms
  by (simp add: undisturbed_def rebinds_def)

text \<open>
  C1: the cache and the tracker together keep one session per incident until it is announced
  resolved. Take an incident that is bound to a session in the cache and open in the tracker, and
  any interleaving of dispatched signals, new incidents being tracked, recovery ticks and requeues,
  in which some observer can judge the incident at every tick, no tick emits \<open>resolved\<close> for it,
  neither store is full when another entry could displace it, no operation binds, unbinds, resolves
  or attaches its key, and every observation of it is of the session class. Then each of these
  observations is a duplicate or a reminder into that very session, however long the failure
  lasts and however often the dedup window lapses or the symptom flaps, and the incident is still
  bound and open at the end. An incident that no observer covers is outside: the tracker drops it
  after its own deadline without a word, and the next occurrence opens a new one.
\<close>

theorem one_session_until_resolved:
  assumes "dedup_ok (fst s)" and "keyed (snd s)" and "bound k sid (fst s)" and "Open (snd s) k"
    and "canon_key k = k" and "all_undisturbed k s h"
  shows "(\<forall>(k', r) \<in> set (loop_verdicts s h). k' = k \<longrightarrow> dr_Kind r \<noteq> DedupNewIncident \<and> dr_SessionID r = sid)
       \<and> bound k sid (fst (loop_run s h)) \<and> Open (snd (loop_run s h)) k"
  using assms
proof (induction s h rule: loop_run.induct)
  case (2 s now op h)
  have u: "undisturbed k now op s" "all_undisturbed k (loop_exec now op s) h" using 2(7) by simp_all
  note step = loop_step[OF 2(2-6) u(1)] and open_step = Open_exec[OF 2(3,5,6) u(1)]
  have IH: "(\<forall>(k', r) \<in> set (loop_verdicts (loop_exec now op s) h).
        k' = k \<longrightarrow> dr_Kind r \<noteq> DedupNewIncident \<and> dr_SessionID r = sid)
      \<and> bound k sid (fst (loop_run (loop_exec now op s) h)) \<and> Open (snd (loop_run (loop_exec now op s) h)) k"
    using 2(1)[OF _ keyed_exec[OF 2(3)] _ open_step 2(6) u(2)] step by simp
  show ?case
    using IH loop_verdict[OF 2(2,4,5) u(1)] by (auto split: loop_op.split cache_op.split)
qed simp

text \<open>
  A pod that keeps failing, its window lapsing twice; it once clears for a minute and relapses.
\<close>

definition loop_key :: EventKey where "loop_key = \<lparr>ek_UID = ''a'', ek_Reason = ''OOMKilled''\<rparr>"

definition loop_start :: loop_state where
  "loop_start = (bound_cache, Track (NewRecoveryTracker (5 * Minute)) Minute (pod_incident\<lparr>in_Key := loop_key\<rparr>))"

definition says :: "bool \<Rightarrow> observer" where
  "says b = (\<lambda>inc. Some \<lparr>cl_Cleared = b, cl_StableSince = 0, cl_Resolution = ResolutionRecovered\<rparr>)"

definition loop_story :: loop_history where
  "loop_story =
     [(6 * Minute, TickOp [says True]), (7 * Minute, TickOp [says False]),
      (8 * Minute, CacheOp (OpObserve loop_key (relist_obs\<lparr>ob_LastTS := 7 * Minute\<rparr>))),
      (20 * Minute, CacheOp (OpObserve loop_key (relist_obs\<lparr>ob_LastTS := 19 * Minute\<rparr>)))]"

theorem one_session_until_resolved_witness:
  "list_all (\<lambda>(k, r). dr_Kind r \<noteq> DedupNewIncident \<and> dr_SessionID r = ''s1'')
     (filter (\<lambda>(k, r). k = loop_key) (loop_verdicts loop_start loop_story))
   \<and> bound loop_key ''s1'' (fst (loop_run loop_start loop_story)) \<and> Open (snd (loop_run loop_start loop_story)) loop_key"
proof -
  have ok: "dedup_ok (fst loop_start)" "keyed (snd loop_start)" "bound loop_key ''s1'' (fst loop_start)"
    "Open (snd loop_start) loop_key" "canon_key loop_key = loop_key" "all_undisturbed loop_key loop_start loop_story"
    by code_simp+
  show ?thesis using one_session_until_resolved[OF ok] by (auto simp: list_all_iff)
qed

end
