(* ===== verification/DedupJoins.thy ===== *)
theory DedupJoins
  imports DedupHistory
begin

section \<open>The dedup cache: joins, sibling folds and restart\<close>

text \<open>
  The bound on followups per source family, the independence of the joins from the order in which
  Go visits a map, what sibling folding does to a group's root, and the keys of a snapshot.
\<close>

subsection \<open>One followup per family and window\<close>

text \<open>The family has spoken in the key's window, or the window has no stamped opener.\<close>

definition spent_entry :: "string \<Rightarrow> dedupEntry \<Rightarrow> bool" where
  "spent_entry f e = (de_SourceKind e = [] \<or> f \<in> set (de_FollowupSources e))"

definition spent :: "EventKey \<Rightarrow> string \<Rightarrow> DedupCache \<Rightarrow> bool" where
  "spent k f c = (case gget (dc_entries c) k of None \<Rightarrow> True | Some e \<Rightarrow> spent_entry f e)"

lemma spent_shrinks:
  assumes "gokeys (dc_entries c)" and "shrinks c c'" and "spent k f c" shows "spent k f c'"
proof (cases "gget (dc_entries c') k")
  case (Some e)
  then have "(k, e) \<in> set (dc_entries c)" using assms(2) by (auto simp: shrinks_def dest!: map_of_SomeD)
  then show ?thesis using assms(1,3) Some by (simp add: spent_def map_of_is_SomeI)
qed (simp add: spent_def)

lemma spent_put: "spent k f c \<Longrightarrow> (k' = k \<Longrightarrow> spent_entry f e) \<Longrightarrow> spent k f (c\<lparr>dc_entries := gput k' e (dc_entries c)\<rparr>)"
  by (simp add: spent_def)

lemma spent_gmod:
  assumes "spent k f c" and "\<And>e. k' = k \<Longrightarrow> spent_entry f e \<Longrightarrow> spent_entry f (g e)"
  shows "spent k f (c\<lparr>dc_entries := gmod k' g (dc_entries c)\<rparr>)"
  using assms by (auto simp: spent_def split: option.splits)

lemma spent_at_key:
  "spent k f c \<Longrightarrow> (\<And>e. canon_key key = k \<Longrightarrow> spent_entry f e \<Longrightarrow> spent_entry f (g e)) \<Longrightarrow> spent k f (at_key key g c)"
  unfolding at_key_def by (rule spent_gmod)

lemma spent_note [simp]: "spent_entry f (note_occurrence w now ts cl e) = spent_entry f e"
  using note_occurrence_fields[of w now ts cl e] by (auto simp: spent_entry_def)

lemma spent_simple [simp]:
  "spent_entry f (bump now ts e) = spent_entry f e"
  "spent_entry f (legacy_inject e) = spent_entry f e"
  "spent_entry f (fix_step e) = spent_entry f e"
  "spent_entry f (markInject now e) = spent_entry f e"
  "spent_entry f (e\<lparr>rs_InjectCount := n\<rparr>) = spent_entry f e"
  "spent_entry f (e\<lparr>de_Count := m\<rparr>) = spent_entry f e"
  by (simp_all add: spent_entry_def bump_def legacy_inject_def fix_step_def markInject_def)

lemma spent_resend: "spent_entry f (snd (resend now e)) = spent_entry f e"
  by (auto simp: resend_def Let_def spent_entry_def markInject_def)

lemma spent_schedule: "spent_entry f (snd (schedule w now ir l e)) = spent_entry f e"
  using spent_simple(3)[of f e] by (auto simp: schedule_def Let_def spent_entry_def markInject_def)

lemma spent_repeat [simp]: "spent_entry f (snd (repeat w e now ts cl l)) = spent_entry f e"
  by (simp add: repeat_def Let_def spent_resend spent_schedule)

lemma spent_observe_root:
  assumes "observe_root w now obs cl rt = Some (r, rt')" shows "spent_entry f rt' = spent_entry f rt"
proof (cases "\<exists>l. repeat w rt now (ob_LastTS obs) cl l = (r, rt')")
  case True
  then show ?thesis using spent_repeat by (metis snd_conv)
next
  case False
  then show ?thesis using assms by (auto simp: observe_root_def Let_def split: if_splits)
qed

lemma spent_open_new:
  assumes "dedup_ok c" and "spent k f c" shows "spent k f (snd (open_new isOpen c now key obs cl))"
proof -
  have "spent_entry f (newDedupEntry now obs cl)"
    by (simp add: spent_entry_def newDedupEntry_def repeatState.defs)
  then show ?thesis
    using spent_shrinks[OF _ shrinks_evictIfFull assms(2)] assms(1)
    by (simp add: open_new_def Let_def spent_put dedup_ok_def)
qed

lemma spent_observe_own:
  assumes "dedup_ok c" and "spent k f c" and "key = k \<Longrightarrow> spent_entry f e"
  shows "spent k f (snd (observe_own isOpen c now key obs cl e))"
  using spent_open_new[OF assms(1,2)] assms(2,3)
  by (simp add: observe_own_def Let_def case_prod_beta spent_put)

lemma spent_observe_present:
  assumes "dedup_ok c" and "spent k f c" and "gget (dc_entries c) key = Some e"
  shows "spent k f (snd (observe_present isOpen c now key obs cl e))"
proof -
  define c1 where "c1 = c\<lparr>dc_entries := gput key (bump now (ob_LastTS obs) e) (dc_entries c)\<rparr>"
  have self: "key = k \<Longrightarrow> spent_entry f e" using assms(2,3) by (auto simp: spent_def)
  have s1: "spent k f c1" unfolding c1_def by (rule spent_put[OF assms(2)]) (simp add: self)
  have ok1: "dedup_ok c1"
    unfolding c1_def using ok_put[OF assms(1) bump_classes[OF ok_entry[OF assms(1,3)]]] assms(3) by simp
  from c1_def show ?thesis
  proof (cases rule: observe_present_cases[where isOpen = isOpen and cl = cl])
    case replay
    then show ?thesis using spent_put[OF assms(2)] self by simp
  next
    case own
    then show ?thesis using spent_observe_own[OF assms(1,2)] self by simp
  next
    case (delegated k' rt r rt')
    have "k' = k \<Longrightarrow> spent_entry f rt" using s1 delegated(3) by (auto simp: spent_def)
    then show ?thesis
      using delegated(5) spent_put[OF s1] spent_observe_root[OF delegated(4)] by simp
  next
    case fallthrough
    then show ?thesis using spent_observe_own[OF ok1 s1] self by simp
  qed
qed

lemma spent_ObserveSignal:
  assumes "dedup_ok c" and "spent k f c" shows "spent k f (snd (ObserveSignal isOpen c now key obs))"
proof -
  let ?c = "maybeSweep isOpen c now"
  have c: "dedup_ok ?c" "spent k f ?c"
    using ok_shrinks[OF assms(1) shrinks_maybeSweep] spent_shrinks[OF _ shrinks_maybeSweep assms(2)] assms(1)
    by (auto simp: dedup_ok_def)
  have t: "spent k f (?c\<lparr>dc_tombstones := ts\<rparr>)" for ts using c(2) by (simp add: spent_def)
  show ?thesis
    using spent_observe_present[OF c] spent_open_new[OF c] spent_open_new[OF ok_tombs[OF c(1)] t] c
    by (auto simp: ObserveSignal_def observe_absent_def Let_def split: option.split)
qed

lemma spent_reattach: "spent k f c \<Longrightarrow> spent k f (snd (reattach c self cands family))"
  by (induction c self cands family rule: reattach.induct)
     (auto simp: spent_entry_def split: option.split intro!: spent_gmod)

lemma spent_fold_under:
  assumes "spent k f c" shows "spent k f (c\<lparr>dc_entries := fold_under self rk (dc_entries c)\<rparr>)"
proof -
  have "spent k f (c\<lparr>dc_entries := gmod self (\<lambda>e. e\<lparr>de_Parent := Some rk\<rparr>) (dc_entries c)\<rparr>)"
    (is "spent k f ?c")
    by (rule spent_gmod[OF assms]) (simp add: spent_entry_def)
  then have "spent k f (?c\<lparr>dc_entries := gmod rk (\<lambda>e. e\<lparr>de_Count := de_Count e + 1,
      rs_InjectCount := rs_InjectCount e + 1\<rparr>) (dc_entries ?c)\<rparr>)"
    by (rule spent_gmod) (simp add: spent_entry_def)
  then show ?thesis by (simp add: fold_under_def)
qed

lemma spent_fold_sibling: "spent k f c \<Longrightarrow> spent k f (snd (fold_sibling c now self kind cands))"
  by (induction c now self kind cands rule: fold_sibling.induct)
     (auto simp: Let_def spent_fold_under split: option.split)

definition stamps :: "EventKey \<Rightarrow> cache_op \<Rightarrow> bool" where
  "stamps k op = (case op of OpNoteIncidentKind key _ \<Rightarrow> canon_key key = k | _ \<Rightarrow> False)"

lemma spent_exec:
  assumes "dedup_ok c" and "spent k f c" and "\<not> stamps k op"
  shows "spent k f (cache_exec isOpen now op c)"
proof (cases op)
  case (OpObserve key obs)
  then show ?thesis using spent_ObserveSignal[OF assms(1,2)] by simp
next
  case OpBindings
  then show ?thesis using spent_shrinks[OF _ shrinks_Bindings assms(2)] assms(1) by (simp add: dedup_ok_def)
next
  case OpSweep
  then show ?thesis using spent_shrinks[OF _ shrinks_sweepExpired assms(2)] assms(1) by (simp add: dedup_ok_def Sweep_def)
next
  case (OpBindIncident key sid ref)
  then show ?thesis
    using assms(2)
    by (auto simp: BindIncident_def Let_def drop_stale_parent_def spent_entry_def split: option.split
        intro!: spent_at_key)
next
  case (OpCrossSourceJoin key kind)
  then show ?thesis
    using assms(2)
    by (auto simp: CrossSourceJoin_def Let_def spent_entry_def split: option.split intro!: spent_at_key)
qed (use assms(2,3) in \<open>auto simp: stamps_def SessionForAncestors_def spent_reattach SessionForSibling_def
      spent_fold_sibling MarkUndelivered_def Unbind_def MarkResolved_def BindSession_def AttachToStorm_def
      NoteIncidentKind_def NoteAncestors_def markUndelivered_def markResolved_def resetForUnbind_def
      spent_entry_def intro!: spent_at_key\<close>)

lemma spent_run:
  "dedup_ok c \<Longrightarrow> spent k f c \<Longrightarrow> \<forall>(_, _, op) \<in> set h. \<not> stamps k op \<Longrightarrow> spent k f (cache_run c h)"
  by (induction c h rule: cache_run.induct) (auto intro: spent_exec ok_exec)

lemma spent_no_join: "spent (canon_key key) (SourceFamily kind) c \<Longrightarrow> fst (CrossSourceJoin c key kind) = None"
  by (auto simp: CrossSourceJoin_def Let_def spent_def spent_entry_def split: option.splits)

text \<open>
  A source family joins an incident at most once per window. After a cross-source join has
  been announced into an incident, every later join of the same family on the same key is
  suppressed, through any history of cache operations, until the dispatcher stamps the opener of
  a new window; and a family never joins the incident it opened.
\<close>

theorem join_once_per_window:
  assumes "dedup_ok c" and "CrossSourceJoin c key kind = (Some opener, c1)"
    and "\<forall>(_, _, op) \<in> set h. \<not> stamps (canon_key key) op"
    and "SourceFamily kind' = SourceFamily kind"
  shows "fst (CrossSourceJoin (cache_run c1 h) key kind') = None \<and> opener \<noteq> SourceFamily kind"
proof -
  have "spent (canon_key key) (SourceFamily kind) c1" and op: "opener \<noteq> SourceFamily kind"
    using assms(2)
    by (auto simp: CrossSourceJoin_def Let_def spent_def spent_entry_def at_key_def split: option.splits if_splits)
  moreover have "dedup_ok c1"
    using ok_exec[OF assms(1), of None 0 "OpCrossSourceJoin key kind"] assms(2) by simp
  ultimately have "spent (canon_key key) (SourceFamily kind) (cache_run c1 h)"
    using spent_run assms(3) by blast
  then show ?thesis using spent_no_join[of key kind'] assms(4) op by simp
qed

definition stamped_cache :: DedupCache where
  "stamped_cache = NoteIncidentKind bound_cache \<lparr>ek_UID = ''a'', ek_Reason = ''OOMKilled''\<rparr> ''quota.forecast''"

theorem join_once_per_window_witness:
  "let k = \<lparr>ek_UID = ''a'', ek_Reason = ''OOMKilled''\<rparr>;
       (r, c1) = CrossSourceJoin stamped_cache k ''capacity.quota_blocked''
   in r = Some ''quota''
      \<and> fst (CrossSourceJoin (cache_run c1 [(None, 2000, OpMarkResolved k)]) k ''capacity.pending'') = None"
proof -
  let ?k = "\<lparr>ek_UID = ''a'', ek_Reason = ''OOMKilled''\<rparr>"
  let ?p = "CrossSourceJoin stamped_cache ?k ''capacity.quota_blocked''"
  have ok: "dedup_ok stamped_cache" by code_simp
  have r: "fst ?p = Some ''quota''" by code_simp
  then have p: "?p = (Some ''quota'', snd ?p)" by (metis prod.collapse)
  have st: "\<forall>(_, _, op) \<in> set [(None, 2000, OpMarkResolved ?k)]. \<not> stamps (canon_key ?k) op" by code_simp
  have "SourceFamily ''capacity.pending'' = SourceFamily ''capacity.quota_blocked''" by code_simp
  from conjunct1[OF join_once_per_window[OF ok p st this]]
  have "fst (CrossSourceJoin (cache_run (snd ?p) [(None, 2000, OpMarkResolved ?k)]) ?k ''capacity.pending'') = None" .
  then show ?thesis using r by (simp add: Let_def case_prod_beta)
qed

subsection \<open>Map order\<close>

interpretation recency: preference more_recent
  by unfold_locales (auto simp: more_recent_def)

lemma more_recent_total:
  assumes "gokeys es" and "x \<in> set es" and "y \<in> set es" and "x \<noteq> y" and "ek_Reason (fst x) = ek_Reason (fst y)"
  shows "more_recent x y \<or> more_recent y x"
proof -
  have "fst x \<noteq> fst y" using assms(1-4) by (metis eq_key_imp_eq_value prod.collapse)
  then have "ek_UID (fst x) \<noteq> ek_UID (fst y)" using assms(5) by (metis EventKey.equality old.unit.exhaust)
  then show ?thesis by (auto simp: more_recent_def)
qed

lemma sibling_scan_order_free:
  assumes "gokeys (dc_entries c)" and "set es = set (dc_entries c)"
  shows "scan_best more_recent None (filter (sibling_match c now self kind cand) es) =
         scan_best more_recent None (filter (sibling_match c now self kind cand) (dc_entries c))"
proof (rule recency.scan_order_free)
  fix x y assume "x \<in> set (filter (sibling_match c now self kind cand) (dc_entries c))"
    "y \<in> set (filter (sibling_match c now self kind cand) (dc_entries c))" "x \<noteq> y"
  then show "more_recent x y \<or> more_recent y x"
    using more_recent_total[OF assms(1), of x y] by (auto simp: sibling_match_def)
qed (use assms(2) in auto)

text \<open>
  The sibling fold does not depend on map order. Whatever order Go visits the entries in, the
  fold names the same session and the same matched owner, since the match requires one reason and
  ties are broken by UID.
\<close>

theorem sibling_fold_order_free:
  assumes "gokeys (dc_entries c)" and "set es = set (dc_entries c)"
  shows "fst (SessionForSibling (c\<lparr>dc_entries := es\<rparr>) now self kind cands) = fst (SessionForSibling c now self kind cands)"
proof -
  have m: "sibling_match (c\<lparr>dc_entries := es\<rparr>) = sibling_match c" by (intro ext) (simp add: sibling_match_def)
  have "fst (fold_sibling (c\<lparr>dc_entries := es\<rparr>) now s kind cands) = fst (fold_sibling c now s kind cands)" for s
    by (induction cands) (auto simp: m sibling_scan_order_free[OF assms] Let_def split: option.split)
  then show ?thesis by (simp add: SessionForSibling_def)
qed

definition two_siblings :: DedupCache where
  "two_siblings =
     (let e = open_entry\<lparr>de_SourceKind := ''k8s-event'', de_AncestorKeys := [''Deployment/ns/d'']\<rparr>
      in small_cache\<lparr>dc_entries := [(\<lparr>ek_UID = ''a'', ek_Reason = ''OOMKilled''\<rparr>, e\<lparr>de_SessionID := ''s2''\<rparr>),
                                     (\<lparr>ek_UID = ''b'', ek_Reason = ''OOMKilled''\<rparr>, e)]\<rparr>)"

theorem sibling_fold_order_free_witness:
  "fst (SessionForSibling (two_siblings\<lparr>dc_entries := rev (dc_entries two_siblings)\<rparr>) 2000
      \<lparr>ek_UID = ''c'', ek_Reason = ''OOMKilled''\<rparr> ''k8s-event'' [''Deployment/ns/d'']) = Some (''s2'', ''Deployment/ns/d'')"
proof -
  have "gokeys (dc_entries two_siblings)" by code_simp
  moreover have "fst (SessionForSibling two_siblings 2000 \<lparr>ek_UID = ''c'', ek_Reason = ''OOMKilled''\<rparr> ''k8s-event''
      [''Deployment/ns/d'']) = Some (''s2'', ''Deployment/ns/d'')" by code_simp
  ultimately show ?thesis
    using sibling_fold_order_free[of two_siblings "rev (dc_entries two_siblings)"] by simp
qed

subsection \<open>Folded siblings\<close>

text \<open>
  C39: a downgraded observation of a folded sibling never lapses and is counted twice. The comment
  on \<^verbatim>\<open>Observation.Downgraded\<close> promises the legacy lapse for a downgraded signal on an open
  incident. For a sibling folded under an open root the code first advances the sibling's
  \<open>LastSeen\<close> to now and counts the occurrence, then falls through to the rules of a standalone
  entry, where the window can no longer have lapsed: the verdict is a duplicate at any age, and the
  occurrence is counted a second time.
\<close>

theorem folded_downgrade_never_lapses:
  assumes "maybeSweep isOpen c now = c" and "0 < dc_window c"
    and "gget (dc_entries c) (canon_key key) = Some e"
    and "de_EventLastTS e < ob_LastTS obs"
    and "fold_target isOpen (dc_entries c) e = Some rootKey" and "rootKey \<noteq> canon_key key"
    and "\<not> ob_Repeatable obs" and "ob_Downgraded obs"
  shows "dr_Kind (fst (ObserveSignal isOpen c now key obs)) = DedupDuplicate
       \<and> dr_Count (fst (ObserveSignal isOpen c now key obs)) = de_Count e + 2"
proof -
  let ?k = "canon_key key" and ?e = "bump now (ob_LastTS obs) e"
  let ?c1 = "c\<lparr>dc_entries := gput ?k ?e (dc_entries c)\<rparr>"
  let ?cl = "repeatClass (ob_Kind obs) (ob_Severity obs) (ob_Message obs)"
  have "observe_root w now obs cl rt = None" for w cl rt
    using assms(7,8) by (simp add: observe_root_def)
  then have "ObserveSignal isOpen c now key obs = observe_own isOpen ?c1 now ?k obs ?cl ?e"
    using assms(1,3-5)
    by (simp add: ObserveSignal_def observe_present_def Let_def split: option.split)
  moreover have "\<not> time_Sub now (de_LastSeen ?e) > dc_window ?c1"
    using assms(2) by (simp add: bump_def time_Sub_def dur_defs)
  ultimately show ?thesis
    using assms(7,8) by (simp add: observe_own_def Let_def dup_result_def bump_def)
qed

definition fold_key_a :: EventKey where "fold_key_a = \<lparr>ek_UID = ''a'', ek_Reason = ''CrashLoopBackOff''\<rparr>"
definition fold_key_b :: EventKey where "fold_key_b = \<lparr>ek_UID = ''b'', ek_Reason = ''CrashLoopBackOff''\<rparr>"

definition crash_obs :: "gotime \<Rightarrow> Observation" where
  "crash_obs ts = \<lparr>ob_LastTS = ts, ob_Kind = ''k8s-event'', ob_Severity = ''critical'', ob_Message = ''m'',
     ob_Repeatable = True, ob_Downgraded = False\<rparr>"

text \<open>
  The dispatcher's calls when an incident opens (stamp, bind, index by ancestors) and when one folds
  into a sibling's session (stamp, fold, bind; a folded sibling is not indexed).
\<close>

definition opened :: "EventKey \<Rightarrow> gotime \<Rightarrow> cache_history" where
  "opened k t =
     [(Some (\<lambda>_. True), t, OpObserve k (crash_obs t)),
      (Some (\<lambda>_. True), t, OpNoteIncidentKind k ''k8s-event''),
      (Some (\<lambda>_. True), t, OpSessionForSibling k ''k8s-event'' [''Deployment/ns/d'']),
      (Some (\<lambda>_. True), t, OpBindIncident k ''s1'' (IncidentRef_of zero_signal)),
      (Some (\<lambda>_. True), t, OpNoteAncestors k [''Deployment/ns/d''])]"

definition folded :: "EventKey \<Rightarrow> gotime \<Rightarrow> cache_history" where
  "folded k t =
     [(Some (\<lambda>_. True), t, OpObserve k (crash_obs t)),
      (Some (\<lambda>_. True), t, OpNoteIncidentKind k ''k8s-event''),
      (Some (\<lambda>_. True), t, OpSessionForSibling k ''k8s-event'' [''Deployment/ns/d'']),
      (Some (\<lambda>_. True), t, OpBindIncident k ''s1'' (IncidentRef_of zero_signal))]"

theorem folded_downgrade_never_lapses_witness:
  "let c = cache_run (small_cache\<lparr>dc_entries := []\<rparr>) (opened fold_key_a 1000 @ folded fold_key_b 2000)
             \<lparr>dc_lastSweep := 9 * Minute\<rparr>;
       obs = (crash_obs 3000)\<lparr>ob_Repeatable := False, ob_Downgraded := True\<rparr>
   in dr_Kind (fst (ObserveSignal (Some (\<lambda>_. True)) c (10 * Minute) fold_key_b obs)) = DedupDuplicate
      \<and> 10 * Minute - 2000 > dc_window c"
proof -
  let ?c = "cache_run (small_cache\<lparr>dc_entries := []\<rparr>) (opened fold_key_a 1000 @ folded fold_key_b 2000)\<lparr>dc_lastSweep := 9 * Minute\<rparr>"
  let ?obs = "(crash_obs 3000)\<lparr>ob_Repeatable := False, ob_Downgraded := True\<rparr>"
  let ?e = "the (gget (dc_entries ?c) (canon_key fold_key_b))"
  let ?o = "Some (\<lambda>_. True)"
  have sw: "maybeSweep ?o ?c (10 * Minute) = ?c" by code_simp
  have win: "0 < dc_window ?c" by code_simp
  have get: "gget (dc_entries ?c) (canon_key fold_key_b) = Some ?e" by code_simp
  have ts: "de_EventLastTS ?e < ob_LastTS ?obs" by code_simp
  have fold: "fold_target ?o (dc_entries ?c) ?e = Some fold_key_a" by code_simp
  have ne: "fold_key_a \<noteq> canon_key fold_key_b" by code_simp
  have nr: "\<not> ob_Repeatable ?obs" and dg: "ob_Downgraded ?obs" by code_simp+
  have "10 * Minute - 2000 > dc_window ?c" by code_simp
  with folded_downgrade_never_lapses[OF sw win get ts fold ne nr dg] show ?thesis
    unfolding Let_def by blast
qed

subsection \<open>Snapshot keys\<close>

lemma deserialize_serialize:
  "CHR ''|'' \<notin> set (ek_UID k) \<Longrightarrow> deserializeKey (serializeKey k) = Some k"
  by (cases k) (simp add: deserializeKey_def serializeKey_def strings_IndexByte_append)

lemma serialize_inj:
  "CHR ''|'' \<notin> set (ek_UID k) \<Longrightarrow> CHR ''|'' \<notin> set (ek_UID k') \<Longrightarrow> serializeKey k = serializeKey k' \<Longrightarrow> k = k'"
  using deserialize_serialize by (metis option.inject)

lemma snapshot_map_fold:
  assumes "gokeys (pre @ es)" and "\<forall>(k, e) \<in> set (pre @ es). CHR ''|'' \<notin> set (ek_UID k)"
  shows "foldl (\<lambda>m (k, v). gput (serializeKey k) v m) (map (\<lambda>(k, v). (serializeKey k, v)) pre) es =
         map (\<lambda>(k, v). (serializeKey k, v)) (pre @ es)"
  using assms
proof (induction es arbitrary: pre)
  case (Cons ke es)
  obtain k e where ke: "ke = (k, e)" by (cases ke)
  have "serializeKey k \<notin> fst ` set (map (\<lambda>(k, v). (serializeKey k, v)) pre)"
  proof
    assume "serializeKey k \<in> fst ` set (map (\<lambda>(k, v). (serializeKey k, v)) pre)"
    then obtain k' v where k': "(k', v) \<in> set pre" "serializeKey k = serializeKey k'"
      by (auto simp: image_iff)
    have "\<forall>x \<in> set (pre @ ke # es). CHR ''|'' \<notin> set (ek_UID (fst x))"
      using Cons.prems(2) by (simp add: case_prod_beta)
    then have "CHR ''|'' \<notin> set (ek_UID k)" "CHR ''|'' \<notin> set (ek_UID k')"
      using k'(1) ke by (simp, metis Un_iff fst_conv set_append)
    then have "k = k'" using serialize_inj k'(2) by blast
    then show False using Cons.prems(1) ke k'(1) by force
  qed
  then show ?case using Cons.IH[of "pre @ [ke]"] Cons.prems ke by (simp add: gput_fresh)
qed simp

lemma restore_map_fold:
  assumes "gokeys (pre @ es)" and "\<forall>(k, e) \<in> set es. CHR ''|'' \<notin> set (ek_UID k)"
  shows "foldl (\<lambda>es (s, e). case deserializeKey s of None \<Rightarrow> es | Some k \<Rightarrow> gput k e es) pre
           (map (\<lambda>(k, v). (serializeKey k, v)) es) = pre @ es"
  using assms
proof (induction es arbitrary: pre)
  case (Cons ke es)
  obtain k e where ke: "ke = (k, e)" by (cases ke)
  have "k \<notin> fst ` set pre" using Cons.prems(1) ke by auto
  then show ?case
    using Cons.IH[of "pre @ [ke]"] Cons.prems ke by (simp add: deserialize_serialize gput_fresh)
qed simp

text \<open>
  C34: a restart restores the cache, as long as no UID holds a bar. If no key's UID contains the
  delimiter of the snapshot's keys, restoring the snapshot gives back every entry under its key.
  Under a UID that does contain it the entry does not come back under its key: the snapshot key is
  cut at the first bar.
\<close>

theorem snapshot_restores_keys:
  assumes "gokeys (dc_entries c)" and "dc_entries c0 = []"
    and "\<forall>(k, e) \<in> set (dc_entries c). CHR ''|'' \<notin> set (ek_UID k)"
  shows "dc_entries (restore_map c0 (snapshot_map c)) = dc_entries c
       \<and> (CHR ''|'' \<in> set (ek_UID k) \<longrightarrow> deserializeKey (serializeKey k) \<noteq> Some k)"
proof (intro conjI impI)
  show "dc_entries (restore_map c0 (snapshot_map c)) = dc_entries c"
    using snapshot_map_fold[of "[]" "dc_entries c"] restore_map_fold[of "[]" "dc_entries c"] assms
    by (simp add: restore_map_def snapshot_map_def)
  assume "CHR ''|'' \<in> set (ek_UID k)"
  then obtain a b where "ek_UID k = a @ CHR ''|'' # b" "CHR ''|'' \<notin> set a" by (meson split_list_first)
  then show "deserializeKey (serializeKey k) \<noteq> Some k"
    by (auto simp: deserializeKey_def serializeKey_def strings_IndexByte_append dest: arg_cong[where f = ek_UID])
qed

theorem snapshot_restores_keys_witness:
  "dc_entries (restore_map (bound_cache\<lparr>dc_entries := []\<rparr>) (snapshot_map bound_cache)) = dc_entries bound_cache
   \<and> deserializeKey (serializeKey \<lparr>ek_UID = ''leeway:Deployment/ns/d|zone'', ek_Reason = ''r''\<rparr>)
       \<noteq> Some \<lparr>ek_UID = ''leeway:Deployment/ns/d|zone'', ek_Reason = ''r''\<rparr>"
proof -
  have "gokeys (dc_entries bound_cache)" by code_simp
  moreover have "\<forall>(k, e) \<in> set (dc_entries bound_cache). CHR ''|'' \<notin> set (ek_UID k)" by code_simp
  ultimately show ?thesis
    using snapshot_restores_keys[of bound_cache "bound_cache\<lparr>dc_entries := []\<rparr>"
        "\<lparr>ek_UID = ''leeway:Deployment/ns/d|zone'', ek_Reason = ''r''\<rparr>"] by simp
qed

end
