(* ===== verification/Distribution.thy ===== *)
theory Distribution
  imports Prelude "HOL-Library.Multiset" "HOL-Library.Char_ord" "HOL-Library.List_Lexorder" "HOL-Library.Product_Lexorder"
begin

section \<open>Distributions of objects over topology domains\<close>

text \<open>
  \<^verbatim>\<open>pkg/leeway/topology.go\<close> (counts) and \<^verbatim>\<open>placement.go\<close>: how many objects a subject has in each
  domain, kept by deltas. A domain is a string; the map from domains to counters is a Go map whose
  pointers are looked up again under their key. Go compares strings by bytes, which is the
  lexicographic order of the character lists. \<open>CountState\<close> has the four states the source declares; no
  code outside the tests builds another value of its byte.
\<close>

type_synonym TopologyKey = string
type_synonym Domain = string

definition DomainUnknown :: Domain where "DomainUnknown = ''__unknown__''"

datatype CountState = StateRunning | StatePending | StateUnschedulable | StateTerminating

definition CountState_String :: "CountState \<Rightarrow> string" where
  "CountState_String c =
     (case c of StateRunning \<Rightarrow> ''running'' | StatePending \<Rightarrow> ''pending''
      | StateUnschedulable \<Rightarrow> ''unschedulable'' | StateTerminating \<Rightarrow> ''terminating'')"

record DomainCount =
  dk_Running :: int
  dk_Pending :: int
  dk_Unschedulable :: int
  dk_Terminating :: int
  dk_Pinned :: int

definition zero_count :: DomainCount where
  "zero_count = \<lparr>dk_Running = 0, dk_Pending = 0, dk_Unschedulable = 0, dk_Terminating = 0, dk_Pinned = 0\<rparr>"

definition DomainCount_Add :: "CountState \<Rightarrow> bool \<Rightarrow> DomainCount \<Rightarrow> DomainCount" where
  "DomainCount_Add state pinned d0 =
     (let d = (case state of
                 StateRunning \<Rightarrow> d0\<lparr>dk_Running := dk_Running d0 + 1\<rparr>
               | StatePending \<Rightarrow> d0\<lparr>dk_Pending := dk_Pending d0 + 1\<rparr>
               | StateUnschedulable \<Rightarrow> d0\<lparr>dk_Unschedulable := dk_Unschedulable d0 + 1\<rparr>
               | StateTerminating \<Rightarrow> d0\<lparr>dk_Terminating := dk_Terminating d0 + 1\<rparr>)
      in if pinned then d\<lparr>dk_Pinned := dk_Pinned d + 1\<rparr> else d)"

definition DomainCount_Sub :: "CountState \<Rightarrow> bool \<Rightarrow> DomainCount \<Rightarrow> DomainCount" where
  "DomainCount_Sub state pinned d0 =
     (let d = (case state of
                 StateRunning \<Rightarrow> d0\<lparr>dk_Running := dk_Running d0 - 1\<rparr>
               | StatePending \<Rightarrow> d0\<lparr>dk_Pending := dk_Pending d0 - 1\<rparr>
               | StateUnschedulable \<Rightarrow> d0\<lparr>dk_Unschedulable := dk_Unschedulable d0 - 1\<rparr>
               | StateTerminating \<Rightarrow> d0\<lparr>dk_Terminating := dk_Terminating d0 - 1\<rparr>)
      in if pinned then d\<lparr>dk_Pinned := dk_Pinned d - 1\<rparr> else d)"

definition DomainCount_Total :: "DomainCount \<Rightarrow> int" where
  "DomainCount_Total d = dk_Running d + dk_Pending d + dk_Unschedulable d + dk_Terminating d"

definition DomainCount_IsZero :: "DomainCount \<Rightarrow> bool" where
  "DomainCount_IsZero d = (d = zero_count)"

record Distribution =
  ds_ByDomain :: "(Domain, DomainCount) gomap"
  ds_Total :: int

definition NewDistribution :: Distribution where
  "NewDistribution = \<lparr>ds_ByDomain = [], ds_Total = 0\<rparr>"

definition normal_domain :: "Domain \<Rightarrow> Domain" where
  "normal_domain zn = (if zn = '''' then DomainUnknown else zn)"

definition Distribution_Add :: "Distribution \<Rightarrow> Domain \<Rightarrow> CountState \<Rightarrow> bool \<Rightarrow> Distribution" where
  "Distribution_Add d domain0 state pinned =
     (let domain = normal_domain domain0;
          c = (case gget (ds_ByDomain d) domain of None \<Rightarrow> zero_count | Some c \<Rightarrow> c)
      in d\<lparr>ds_ByDomain := gput domain (DomainCount_Add state pinned c) (ds_ByDomain d), ds_Total := ds_Total d + 1\<rparr>)"

definition Distribution_Remove :: "Distribution \<Rightarrow> Domain \<Rightarrow> CountState \<Rightarrow> bool \<Rightarrow> Distribution" where
  "Distribution_Remove d domain0 state pinned =
     (let domain = normal_domain domain0 in
      case gget (ds_ByDomain d) domain of
        None \<Rightarrow> d
      | Some c0 \<Rightarrow>
          (let c = DomainCount_Sub state pinned c0
           in d\<lparr>ds_ByDomain := (if DomainCount_IsZero c then gdel domain (ds_ByDomain d) else gput domain c (ds_ByDomain d)),
                ds_Total := ds_Total d - 1\<rparr>))"

definition Distribution_Equal :: "Distribution \<Rightarrow> Distribution \<Rightarrow> bool" where
  "Distribution_Equal d other =
     (ds_Total d = ds_Total other \<and> length (ds_ByDomain d) = length (ds_ByDomain other)
      \<and> list_all (\<lambda>(zn, c). gget (ds_ByDomain other) zn = Some c) (ds_ByDomain d))"

fun state_count :: "DomainCount \<Rightarrow> CountState \<Rightarrow> int" where
  "state_count c StateRunning = dk_Running c"
| "state_count c StatePending = dk_Pending c"
| "state_count c StateUnschedulable = dk_Unschedulable c"
| "state_count c StateTerminating = dk_Terminating c"

definition Counts :: "Distribution \<Rightarrow> Domain list \<Rightarrow> CountState list \<Rightarrow> int list" where
  "Counts d domains states =
     map (\<lambda>zn. case gget (ds_ByDomain d) zn of
                  None \<Rightarrow> 0
                | Some c \<Rightarrow> foldl (\<lambda>acc s. acc + state_count c s) 0 states) domains"

definition SortDomains :: "Domain list \<Rightarrow> Domain list" where
  "SortDomains domains = sort_key (\<lambda>d. (d = DomainUnknown, d)) domains"

definition Distribution_Domains :: "Distribution \<Rightarrow> Domain list" where
  "Distribution_Domains d = SortDomains (map fst (ds_ByDomain d))"

subsection \<open>Placements\<close>

record Placement =
  pl_NodeName :: string
  pl_Domains :: "Domain list"
  pl_State :: CountState
  pl_Pinned :: bool

definition Placement_Domain :: "Placement \<Rightarrow> int \<Rightarrow> Domain" where
  "Placement_Domain p ordinal =
     (if ordinal < 0 \<or> ordinal \<ge> int (length (pl_Domains p)) then DomainUnknown else pl_Domains p ! nat ordinal)"

definition Placement_Equal :: "Placement \<Rightarrow> Placement \<Rightarrow> bool" where
  "Placement_Equal p other =
     (pl_NodeName p = pl_NodeName other \<and> pl_State p = pl_State other \<and> pl_Pinned p = pl_Pinned other
      \<and> length (pl_Domains p) = length (pl_Domains other) \<and> list_all2 (=) (pl_Domains p) (pl_Domains other))"

subsection \<open>The objects a distribution stands for\<close>

type_synonym counted = "Domain \<times> CountState \<times> bool"

definition in_state :: "counted multiset \<Rightarrow> Domain \<Rightarrow> CountState \<Rightarrow> int" where
  "in_state M zn st = int (size (filter_mset (\<lambda>(d, s, p). d = zn \<and> s = st) M))"

definition pinned_in :: "counted multiset \<Rightarrow> Domain \<Rightarrow> int" where
  "pinned_in M zn = int (size (filter_mset (\<lambda>(d, s, p). d = zn \<and> p) M))"

definition tally :: "counted multiset \<Rightarrow> Domain \<Rightarrow> DomainCount" where
  "tally M zn =
     \<lparr>dk_Running = in_state M zn StateRunning, dk_Pending = in_state M zn StatePending,
      dk_Unschedulable = in_state M zn StateUnschedulable, dk_Terminating = in_state M zn StateTerminating,
      dk_Pinned = pinned_in M zn\<rparr>"

definition populated :: "counted multiset \<Rightarrow> Domain \<Rightarrow> bool" where
  "populated M zn = (\<exists>st p. (zn, st, p) \<in># M)"

definition counts_objects :: "counted multiset \<Rightarrow> Distribution \<Rightarrow> bool" where
  "counts_objects M d =
     (gokeys (ds_ByDomain d) \<and> ds_Total d = int (size M)
      \<and> (\<forall>zn. gget (ds_ByDomain d) zn = (if populated M zn then Some (tally M zn) else None)))"

lemma tally_add:
  "tally (add_mset (d, st, p) M) zn = (if zn = d then DomainCount_Add st p (tally M zn) else tally M zn)"
  by (cases st) (auto simp: tally_def in_state_def pinned_in_def DomainCount_Add_def Let_def)

lemma Add_Sub: "DomainCount_Sub st p (DomainCount_Add st p c) = c"
  by (cases st) (simp_all add: DomainCount_Sub_def DomainCount_Add_def Let_def)

lemma tally_zero: "tally M zn = zero_count \<longleftrightarrow> \<not> populated M zn"
proof
  assume z: "tally M zn = zero_count"
  show "\<not> populated M zn"
  proof
    assume "populated M zn"
    then obtain st p where m: "(zn, st, p) \<in># M" by (auto simp: populated_def)
    then have "(zn, st, p) \<in># filter_mset (\<lambda>(d, s, p). d = zn \<and> s = st) M" by simp
    then have "0 < in_state M zn st" unfolding in_state_def by (metis gr0I empty_iff of_nat_0_less_iff set_mset_empty size_eq_0_iff_empty)
    then show False using z by (cases st) (auto simp: tally_def zero_count_def)
  qed
next
  assume "\<not> populated M zn"
  then have "filter_mset (\<lambda>(d, s, p). d = zn \<and> Q s p) M = filter_mset (\<lambda>_. False) M" for Q
    by (intro filter_mset_cong0) (auto simp: populated_def)
  from this[of "\<lambda>s p. s = _"] this[of "\<lambda>s p. p"] show "tally M zn = zero_count"
    by (simp add: tally_def zero_count_def in_state_def pinned_in_def)
qed

lemma populated_add [simp]: "populated (add_mset (d, st, p) M) zn \<longleftrightarrow> zn = d \<or> populated M zn"
  by (auto simp: populated_def)

lemma Add_counts:
  assumes "counts_objects M d"
  shows "counts_objects (add_mset (normal_domain zn, st, p) M) (Distribution_Add d zn st p)"
proof -
  have "(case gget (ds_ByDomain d) (normal_domain zn) of None \<Rightarrow> zero_count | Some c \<Rightarrow> c) = tally M (normal_domain zn)"
    using assms tally_zero[of M "normal_domain zn"] by (auto simp: counts_objects_def)
  then show ?thesis
    using assms by (auto simp: counts_objects_def Distribution_Add_def Let_def tally_add)
qed

lemma Remove_counts:
  assumes "counts_objects (add_mset (normal_domain zn, st, p) M) d"
  shows "counts_objects M (Distribution_Remove d zn st p)"
proof -
  let ?n = "normal_domain zn"
  have g: "gget (ds_ByDomain d) ?n = Some (DomainCount_Add st p (tally M ?n))"
    using assms by (simp add: counts_objects_def tally_add)
  have z: "DomainCount_IsZero (tally M ?n) \<longleftrightarrow> \<not> populated M ?n" by (simp add: DomainCount_IsZero_def tally_zero)
  show ?thesis
    using assms g z by (auto simp: counts_objects_def Distribution_Remove_def Let_def Add_Sub tally_add gget_gdel)
qed

subsection \<open>Histories of deltas\<close>

datatype delta = DAdd Domain CountState bool | DRemove Domain CountState bool

fun apply_delta :: "Distribution \<Rightarrow> delta \<Rightarrow> Distribution" where
  "apply_delta d (DAdd zn st p) = Distribution_Add d zn st p"
| "apply_delta d (DRemove zn st p) = Distribution_Remove d zn st p"

text \<open>The objects that are placed after a history, and that no delta removes one that is not.\<close>

fun objects :: "counted multiset \<Rightarrow> delta list \<Rightarrow> counted multiset" where
  "objects M [] = M"
| "objects M (DAdd zn st p # h) = objects (add_mset (normal_domain zn, st, p) M) h"
| "objects M (DRemove zn st p # h) = objects (M - {#(normal_domain zn, st, p)#}) h"

fun matched :: "counted multiset \<Rightarrow> delta list \<Rightarrow> bool" where
  "matched M [] = True"
| "matched M (DAdd zn st p # h) = matched (add_mset (normal_domain zn, st, p) M) h"
| "matched M (DRemove zn st p # h) =
     ((normal_domain zn, st, p) \<in># M \<and> matched (M - {#(normal_domain zn, st, p)#}) h)"

lemma deltas_count:
  "counts_objects M d \<Longrightarrow> matched M h \<Longrightarrow> counts_objects (objects M h) (foldl apply_delta d h)"
proof (induction M h arbitrary: d rule: objects.induct)
  case (3 M zn st p h)
  then have "counts_objects (M - {#(normal_domain zn, st, p)#}) (Distribution_Remove d zn st p)"
    using Remove_counts[of zn st p "M - {#(normal_domain zn, st, p)#}" d] by simp
  then show ?case using 3 by simp
qed (auto intro: Add_counts)

lemma state_count_tally: "state_count (tally M zn) st = in_state M zn st"
  by (cases st) (simp_all add: tally_def)

lemma in_state_absent: "\<not> populated M zn \<Longrightarrow> in_state M zn st = 0"
  using tally_zero[of M zn] state_count_tally[of M zn st] by (cases st) (auto simp: zero_count_def)

lemma Counts_nth:
  assumes "counts_objects M d"
  shows "Counts d zns states = map (\<lambda>zn. \<Sum>st\<leftarrow>states. in_state M zn st) zns"
proof -
  have f: "foldl (\<lambda>acc s. acc + g s) a states = a + (\<Sum>st\<leftarrow>states. g st)" for g :: "CountState \<Rightarrow> int" and a
    by (induction states arbitrary: a) auto
  have z: "(\<Sum>st\<leftarrow>states. in_state M zn st) = 0" if "\<not> populated M zn" for zn
    using in_state_absent[OF that] by (induction states) auto
  show ?thesis
    using assms z by (auto simp: Counts_def counts_objects_def f state_count_tally)
qed

lemma stray_remove:
  assumes "counts_objects M d" and "populated M (normal_domain zn)" and "in_state M (normal_domain zn) st = 0"
  shows "Counts (Distribution_Remove d zn st p) [normal_domain zn] [st] = [-1]"
proof -
  let ?c = "DomainCount_Sub st p (tally M (normal_domain zn))"
  have c: "state_count ?c st = -1"
    using assms(3) state_count_tally[of M "normal_domain zn" st] by (cases st) (simp_all add: DomainCount_Sub_def Let_def)
  then have "\<not> DomainCount_IsZero ?c" by (cases st) (auto simp: DomainCount_IsZero_def zero_count_def)
  then show ?thesis
    using assms c by (simp add: Counts_def Distribution_Remove_def Let_def counts_objects_def)
qed

text \<open>
  C21: the delta-kept counters are exactly the placed objects. After any history of additions and
  removals in which every removal undoes an addition, the total is the number of placed objects,
  the domains with a row are exactly those that hold one, every row is the tally of its domain (each
  state and, apart from them, the pinned objects), and the counts of any states on any list
  of domains are the numbers of objects there, empty domains included. A removal that undoes
  nothing is ignored only where its domain is empty; in a populated domain with no object
  in that state it makes the count negative.
\<close>

theorem distribution_tracks_objects:
  assumes "matched {#} h"
  defines "d \<equiv> foldl apply_delta NewDistribution h" and "M \<equiv> objects {#} h"
  shows "ds_Total d = int (size M) \<and> fst ` set (ds_ByDomain d) = {zn. populated M zn}
       \<and> (\<forall>zn. gget (ds_ByDomain d) zn = (if populated M zn then Some (tally M zn) else None))
       \<and> Counts d zns states = map (\<lambda>zn. \<Sum>st\<leftarrow>states. in_state M zn st) zns
       \<and> (\<not> populated M (normal_domain zn) \<longrightarrow> Distribution_Remove d zn st p = d)
       \<and> (populated M (normal_domain zn) \<and> in_state M (normal_domain zn) st = 0 \<longrightarrow>
            Counts (Distribution_Remove d zn st p) [normal_domain zn] [st] = [-1])"
proof -
  have "counts_objects {#} NewDistribution" by (simp add: counts_objects_def NewDistribution_def populated_def)
  from deltas_count[OF this assms(1)] have c: "counts_objects M d" by (simp add: d_def M_def)
  then have get: "gget (ds_ByDomain d) z = (if populated M z then Some (tally M z) else None)" for z
    by (simp add: counts_objects_def)
  have "z \<in> fst ` set (ds_ByDomain d) \<longleftrightarrow> populated M z" for z
    using gget_in_keys[of "ds_ByDomain d" z] get[of z] by (cases "populated M z") simp_all
  moreover have "Distribution_Remove d zn st p = d" if "\<not> populated M (normal_domain zn)"
    using get[of "normal_domain zn"] that by (simp add: Distribution_Remove_def Let_def)
  ultimately show ?thesis
    using c get Counts_nth[OF c, of zns states] stray_remove[OF c] by (auto simp: counts_objects_def)
qed

theorem distribution_tracks_objects_witness:
  "let h = [DAdd ''a'' StateRunning True, DAdd [] StatePending False, DAdd ''a'' StateRunning False, DRemove ''a'' StateRunning True];
       d = foldl apply_delta NewDistribution h
   in Counts d [''a'', ''b'', DomainUnknown] [StateRunning, StatePending] = [1, 0, 1]
      \<and> map_option dk_Pinned (gget (ds_ByDomain d) ''a'') = Some 0
      \<and> Counts (Distribution_Remove d ''a'' StatePending False) [''a''] [StatePending] = [-1]"
proof -
  let ?h = "[DAdd ''a'' StateRunning True, DAdd [] StatePending False, DAdd ''a'' StateRunning False, DRemove ''a'' StateRunning True]"
  have m: "matched {#} ?h" by (simp add: normal_domain_def)
  have o: "objects {#} ?h = {#(''a'', StateRunning, False), (DomainUnknown, StatePending, False)#}"
    by (simp add: normal_domain_def)
  have a: "populated (objects {#} ?h) (normal_domain ''a'')" "in_state (objects {#} ?h) (normal_domain ''a'') StatePending = 0"
    unfolding o by (auto simp: populated_def in_state_def normal_domain_def DomainUnknown_def)
  have "map (\<lambda>zn. \<Sum>st\<leftarrow>[StateRunning, StatePending]. in_state (objects {#} ?h) zn st) [''a'', ''b'', DomainUnknown] = [1, 0, 1]"
    unfolding o by (simp add: in_state_def DomainUnknown_def)
  moreover have "dk_Pinned (tally (objects {#} ?h) ''a'') = 0"
    unfolding o by (simp add: tally_def pinned_in_def)
  moreover have "normal_domain ''a'' = ''a''" by (simp add: normal_domain_def)
  ultimately show ?thesis
    using distribution_tracks_objects[OF m, where zn = "''a''" and st = StatePending and p = False
        and zns = "[''a'', ''b'', DomainUnknown]" and states = "[StateRunning, StatePending]"] a
    unfolding Let_def by simp
qed

end
