(* ===== verification/FindingUid.thy ===== *)
theory FindingUid
  imports DedupJoins Distribution
begin

section \<open>Finding identities\<close>

text \<open>
  \<^verbatim>\<open>pkg/leeway/topology.go\<close> (subject references) and the synthetic incident UIDs that the
  \<^verbatim>\<open>topologydrift\<close> and \<^verbatim>\<open>computeclass\<close> sources render from them and parse back in their
  clearance observers. \<^verbatim>\<open>SubjectKind\<close>, \<^verbatim>\<open>TopologyKey\<close> and \<^verbatim>\<open>Provider\<close> are string types. The
  functions that two packages give one name carry the package's name here.
\<close>

subsection \<open>Subjects\<close>

type_synonym SubjectKind = string
type_synonym Provider = string

definition SubjectDeployment :: SubjectKind where "SubjectDeployment = ''Deployment''"
definition SubjectStatefulSet :: SubjectKind where "SubjectStatefulSet = ''StatefulSet''"
definition SubjectDaemonSet :: SubjectKind where "SubjectDaemonSet = ''DaemonSet''"
definition SubjectJob :: SubjectKind where "SubjectJob = ''Job''"
definition SubjectNodeGroup :: SubjectKind where "SubjectNodeGroup = ''NodeGroup''"
definition SubjectCustom :: SubjectKind where "SubjectCustom = ''Custom''"
definition SubjectDomain :: SubjectKind where "SubjectDomain = ''Domain''"
definition SubjectPreferenceAxis :: SubjectKind where "SubjectPreferenceAxis = ''PreferenceAxis''"

lemmas subject_kind_defs =
  SubjectDeployment_def SubjectStatefulSet_def SubjectDaemonSet_def SubjectJob_def SubjectNodeGroup_def
  SubjectCustom_def SubjectDomain_def SubjectPreferenceAxis_def

record SubjectRef =
  su_Kind :: SubjectKind
  su_Namespace :: string
  su_Name :: string

definition SubjectRef_String :: "SubjectRef \<Rightarrow> string" where
  "SubjectRef_String s =
     (if su_Namespace s = '''' then su_Kind s @ ''/'' @ su_Name s
      else su_Kind s @ ''/'' @ su_Namespace s @ ''/'' @ su_Name s)"

definition ParseSubjectRef :: "string \<Rightarrow> SubjectRef option" where
  "ParseSubjectRef s =
     (case strings_SplitByte s (CHR ''/'') of
        [kind, name] \<Rightarrow>
          if kind = '''' \<or> name = '''' then None
          else Some \<lparr>su_Kind = kind, su_Namespace = '''', su_Name = name\<rparr>
      | [kind, ns, name] \<Rightarrow>
          if kind = '''' \<or> ns = '''' \<or> name = '''' then None
          else Some \<lparr>su_Kind = kind, su_Namespace = ns, su_Name = name\<rparr>
      | _ \<Rightarrow> None)"

text \<open>The shape \<^verbatim>\<open>ParseSubjectRef\<close> relies on: no segment holds a slash, kind and name are not empty.\<close>

definition subject_ok :: "SubjectRef \<Rightarrow> bool" where
  "subject_ok s =
     (su_Kind s \<noteq> '''' \<and> su_Name s \<noteq> ''''
      \<and> CHR ''/'' \<notin> set (su_Kind s) \<and> CHR ''/'' \<notin> set (su_Namespace s) \<and> CHR ''/'' \<notin> set (su_Name s))"

lemma parse_subject: "subject_ok s \<Longrightarrow> ParseSubjectRef (SubjectRef_String s) = Some s"
  by (cases s)
     (auto simp: subject_ok_def ParseSubjectRef_def SubjectRef_String_def strings_SplitByte_append
        strings_SplitByte_single)

subsection \<open>Topology-drift findings\<close>

definition drift_uidPrefix :: string where "drift_uidPrefix = ''leeway:''"
definition uidAxisSep :: char where "uidAxisSep = CHR ''|''"

definition drift_findingUID :: "SubjectRef \<Rightarrow> TopologyKey \<Rightarrow> string" where
  "drift_findingUID sub key = drift_uidPrefix @ SubjectRef_String sub @ [uidAxisSep] @ key"

definition scoredHere :: "SubjectKind \<Rightarrow> bool" where
  "scoredHere kind =
     (kind \<in> {SubjectDeployment, SubjectStatefulSet, SubjectDaemonSet, SubjectJob, SubjectNodeGroup,
              SubjectCustom, SubjectDomain})"

definition strings_CutPrefix :: "string \<Rightarrow> string \<Rightarrow> string option" where
  "strings_CutPrefix s pre = (if strings_HasPrefix s pre then Some (drop (length pre) s) else None)"

definition drift_parseFindingUID :: "string \<Rightarrow> (SubjectRef \<times> TopologyKey) option" where
  "drift_parseFindingUID uid =
     (case strings_CutPrefix uid drift_uidPrefix of
        None \<Rightarrow> None
      | Some rest \<Rightarrow>
          (case strings_CutByte rest uidAxisSep of
             (subject, key, ok) \<Rightarrow>
               if \<not> ok then None
               else (case ParseSubjectRef subject of
                       None \<Rightarrow> None
                     | Some sub \<Rightarrow> if scoredHere (su_Kind sub) then Some (sub, key) else None)))"

subsection \<open>Compute-class findings\<close>

record AxisKey =
  ax_Provider :: Provider
  ax_Name :: string

record alertKey =
  ak_Axis :: AxisKey
  ak_Rule :: string

definition stateKey :: "alertKey \<Rightarrow> string" where
  "stateKey k = ax_Provider (ak_Axis k) @ ''/'' @ ak_Rule k"

definition parseStateKey :: "string \<Rightarrow> string \<Rightarrow> alertKey option" where
  "parseStateKey sub state =
     (case ParseSubjectRef sub of
        None \<Rightarrow> None
      | Some ref \<Rightarrow>
          if su_Kind ref \<noteq> SubjectPreferenceAxis then None
          else (case strings_CutByte state (CHR ''/'') of
                  (provider, rule, ok) \<Rightarrow>
                    if \<not> ok \<or> provider = '''' \<or> rule = '''' then None
                    else Some \<lparr>ak_Axis = \<lparr>ax_Provider = provider, ax_Name = su_Name ref\<rparr>, ak_Rule = rule\<rparr>))"

definition rank_uidPrefix :: string where "rank_uidPrefix = ''leeway-rank:''"
definition uidRuleSep :: char where "uidRuleSep = CHR ''|''"

definition rank_findingUID :: "alertKey \<Rightarrow> string" where
  "rank_findingUID k =
     rank_uidPrefix
     @ SubjectRef_String \<lparr>su_Kind = SubjectPreferenceAxis, su_Namespace = '''', su_Name = ax_Name (ak_Axis k)\<rparr>
     @ [uidRuleSep] @ stateKey k"

definition rank_parseFindingUID :: "string \<Rightarrow> alertKey option" where
  "rank_parseFindingUID uid =
     (case strings_CutPrefix uid rank_uidPrefix of
        None \<Rightarrow> None
      | Some rest \<Rightarrow>
          (case strings_CutByte rest uidRuleSep of
             (sub, state, ok) \<Rightarrow> if \<not> ok then None else parseStateKey sub state))"

subsection \<open>Reading an identity back\<close>

text \<open>
  What a source needs of the identities it mints: the ones it can mint read back as what they name.
  Then no two of its findings share an incident.
\<close>

locale uid_codec =
  fixes render :: "'f \<Rightarrow> string" and parse :: "string \<Rightarrow> 'f option" and mintable :: "'f \<Rightarrow> bool"
  assumes parse_render: "mintable f \<Longrightarrow> parse (render f) = Some f"
begin

lemma render_inj: "mintable f \<Longrightarrow> mintable g \<Longrightarrow> render f = render g \<longleftrightarrow> f = g"
  using parse_render by (metis option.inject)

end

definition drift_mintable :: "SubjectRef \<times> TopologyKey \<Rightarrow> bool" where
  "drift_mintable x =
     (subject_ok (fst x) \<and> scoredHere (su_Kind (fst x)) \<and> uidAxisSep \<notin> set (SubjectRef_String (fst x)))"

definition rank_mintable :: "alertKey \<Rightarrow> bool" where
  "rank_mintable k =
     (ax_Name (ak_Axis k) \<noteq> '''' \<and> CHR ''/'' \<notin> set (ax_Name (ak_Axis k))
      \<and> uidRuleSep \<notin> set (ax_Name (ak_Axis k))
      \<and> ax_Provider (ak_Axis k) \<noteq> '''' \<and> CHR ''/'' \<notin> set (ax_Provider (ak_Axis k)) \<and> ak_Rule k \<noteq> '''')"

lemma CutByte_append: "c \<notin> set a \<Longrightarrow> strings_CutByte (a @ c # b) c = (a, b, True)"
  by (simp add: strings_CutByte_def strings_IndexByte_append)

lemma CutPrefix_append [simp]: "strings_CutPrefix (pre @ s) pre = Some s"
  by (simp add: strings_CutPrefix_def strings_HasPrefix_def)

interpretation drift: uid_codec "\<lambda>(sub, key). drift_findingUID sub key" drift_parseFindingUID drift_mintable
  by unfold_locales
     (auto simp: drift_mintable_def drift_parseFindingUID_def drift_findingUID_def CutByte_append parse_subject)

interpretation rank: uid_codec rank_findingUID rank_parseFindingUID rank_mintable
proof unfold_locales
  fix k :: alertKey
  assume m: "rank_mintable k"
  let ?s = "\<lparr>su_Kind = SubjectPreferenceAxis, su_Namespace = '''', su_Name = ax_Name (ak_Axis k)\<rparr>"
  have "subject_ok ?s" "uidRuleSep \<notin> set (SubjectRef_String ?s)"
    using m by (auto simp: subject_ok_def rank_mintable_def SubjectPreferenceAxis_def SubjectRef_String_def uidRuleSep_def)
  moreover have "strings_CutByte (stateKey k) (CHR ''/'') = (ax_Provider (ak_Axis k), ak_Rule k, True)"
    using m by (simp add: stateKey_def rank_mintable_def CutByte_append)
  ultimately show "rank_parseFindingUID (rank_findingUID k) = Some k"
    using m by (simp add: rank_parseFindingUID_def rank_findingUID_def CutByte_append parseStateKey_def parse_subject rank_mintable_def)
qed

text \<open>
  C33: every finding has its own incident and only its own source answers for it. Two drift
  findings share an identity only if they have the same subject and axis, two compute-class
  findings only if they have the same axis and rule; each source's observer reads its own
  identities back exactly, and declines every identity of the other source.
\<close>

theorem finding_uids_identify:
  assumes "drift_mintable (sub, key)" and "drift_mintable (sub', key')"
    and "rank_mintable k" and "rank_mintable k'"
  shows "drift_parseFindingUID (drift_findingUID sub key) = Some (sub, key)
       \<and> rank_parseFindingUID (drift_findingUID sub key) = None
       \<and> rank_parseFindingUID (rank_findingUID k) = Some k
       \<and> drift_parseFindingUID (rank_findingUID k) = None
       \<and> (drift_findingUID sub key = drift_findingUID sub' key' \<longleftrightarrow> sub = sub' \<and> key = key')
       \<and> (rank_findingUID k = rank_findingUID k' \<longleftrightarrow> k = k')"
proof (intro conjI)
  show "drift_parseFindingUID (drift_findingUID sub key) = Some (sub, key)"
    using drift.parse_render[OF assms(1)] by simp
  show "rank_parseFindingUID (rank_findingUID k) = Some k" by (rule rank.parse_render[OF assms(3)])
  show "rank_parseFindingUID (drift_findingUID sub key) = None"
    by (simp add: rank_parseFindingUID_def drift_findingUID_def strings_CutPrefix_def strings_HasPrefix_def
        drift_uidPrefix_def rank_uidPrefix_def)
  show "drift_parseFindingUID (rank_findingUID k) = None"
    by (simp add: drift_parseFindingUID_def rank_findingUID_def strings_CutPrefix_def strings_HasPrefix_def
        drift_uidPrefix_def rank_uidPrefix_def)
  show "drift_findingUID sub key = drift_findingUID sub' key' \<longleftrightarrow> sub = sub' \<and> key = key'"
    using drift.render_inj[OF assms(1,2)] by simp
  show "rank_findingUID k = rank_findingUID k' \<longleftrightarrow> k = k'"
    by (rule rank.render_inj[OF assms(3,4)])
qed

definition web_subject :: SubjectRef where
  "web_subject = \<lparr>su_Kind = SubjectDeployment, su_Namespace = ''shop'', su_Name = ''web''\<rparr>"

definition spot_alert :: alertKey where
  "spot_alert = \<lparr>ak_Axis = \<lparr>ax_Provider = ''gke-computeclass'', ax_Name = ''spot''\<rparr>, ak_Rule = ''rank_floor''\<rparr>"

theorem finding_uids_identify_witness:
  "drift_parseFindingUID (drift_findingUID web_subject ''zone'') = Some (web_subject, ''zone'')
   \<and> rank_parseFindingUID (rank_findingUID spot_alert) = Some spot_alert
   \<and> drift_parseFindingUID (rank_findingUID spot_alert) = None
   \<and> drift_findingUID web_subject ''zone'' \<noteq> drift_findingUID web_subject ''region''"
proof -
  have m: "drift_mintable (web_subject, ''zone'')" "drift_mintable (web_subject, ''region'')" "rank_mintable spot_alert"
    by code_simp+
  show ?thesis using finding_uids_identify[OF m m(3)] by simp
qed

subsection \<open>A restart\<close>

lemma restored_keys_cut:
  assumes "dc_entries c0 = []" and "k \<in> fst ` set (dc_entries (restore_map c0 m))"
  shows "CHR ''|'' \<notin> set (ek_UID k)"
proof -
  let ?f = "\<lambda>es (s, e). case deserializeKey s of None \<Rightarrow> es | Some k \<Rightarrow> gput k e es"
  have "\<forall>k \<in> fst ` set (foldl ?f [] m). CHR ''|'' \<notin> set (ek_UID k)"
  proof (rule foldl_invariant)
    fix es :: dedup_entries and x :: "string \<times> dedupEntry"
    assume inv: "\<forall>k \<in> fst ` set es. CHR ''|'' \<notin> set (ek_UID k)"
    obtain s e where x: "x = (s, e)" by (cases x)
    have "CHR ''|'' \<notin> set (ek_UID k)" if "deserializeKey s = Some k" for k
    proof -
      obtain i where i: "strings_IndexByte s (CHR ''|'') = Some i" "ek_UID k = take i s"
        using \<open>deserializeKey s = Some k\<close> by (cases "strings_IndexByte s (CHR ''|'')") (auto simp: deserializeKey_def)
      then show ?thesis unfolding i(2) using iffD1[OF strings_IndexByte_Some i(1)] by blast
    qed
    then show "\<forall>k \<in> fst ` set (?f es x). CHR ''|'' \<notin> set (ek_UID k)"
      using inv x by (cases "deserializeKey s") (simp_all add: keys_gput del: ball_simps(9))
  qed simp
  then show ?thesis using assms by (auto simp: restore_map_def)
qed

text \<open>
  C36: a restart orphans every topology finding. Whatever the cache held, after its snapshot is
  restored no finding of either source is in the cache under its own key, so its next report is a
  new incident; and the key a drift finding's entry comes back under is cut at the axis separator
  (the axis has moved into the reason), which the source's own observer can no longer read, so no
  observer will ever judge the restored incident.
\<close>

theorem restart_orphans_findings:
  assumes "dc_entries c0 = []" and "drift_mintable (sub, key)"
  shows "gget (dc_entries (restore_map c0 (snapshot_map c))) \<lparr>ek_UID = drift_findingUID sub key, ek_Reason = r\<rparr> = None
       \<and> gget (dc_entries (restore_map c0 (snapshot_map c))) \<lparr>ek_UID = rank_findingUID k, ek_Reason = r'\<rparr> = None
       \<and> (\<exists>cut. deserializeKey (serializeKey \<lparr>ek_UID = drift_findingUID sub key, ek_Reason = r\<rparr>) = Some cut
              \<and> ek_Reason cut = key @ ''|'' @ r
              \<and> drift_parseFindingUID (ek_UID cut) = None \<and> rank_parseFindingUID (ek_UID cut) = None)"
proof (intro conjI)
  have gone: "gget (dc_entries (restore_map c0 m)) k' = None" if "CHR ''|'' \<in> set (ek_UID k')" for k' m
    using restored_keys_cut[OF assms(1), of k' m] that gget_in_keys[of "dc_entries (restore_map c0 m)" k'] by blast
  show "gget (dc_entries (restore_map c0 (snapshot_map c))) \<lparr>ek_UID = drift_findingUID sub key, ek_Reason = r\<rparr> = None"
    by (rule gone) (simp add: drift_findingUID_def uidAxisSep_def)
  show "gget (dc_entries (restore_map c0 (snapshot_map c))) \<lparr>ek_UID = rank_findingUID k, ek_Reason = r'\<rparr> = None"
    by (rule gone) (simp add: rank_findingUID_def uidRuleSep_def)
  let ?cut = "\<lparr>ek_UID = drift_uidPrefix @ SubjectRef_String sub, ek_Reason = key @ ''|'' @ r\<rparr>"
  have nb: "CHR ''|'' \<notin> set (drift_uidPrefix @ SubjectRef_String sub)"
    using assms(2) by (simp add: drift_mintable_def uidAxisSep_def drift_uidPrefix_def)
  have "serializeKey \<lparr>ek_UID = drift_findingUID sub key, ek_Reason = r\<rparr>
      = (drift_uidPrefix @ SubjectRef_String sub) @ CHR ''|'' # key @ ''|'' @ r"
    by (simp add: serializeKey_def drift_findingUID_def uidAxisSep_def)
  then have "deserializeKey (serializeKey \<lparr>ek_UID = drift_findingUID sub key, ek_Reason = r\<rparr>) = Some ?cut"
    using strings_IndexByte_append[OF nb] by (simp add: deserializeKey_def)
  moreover have "drift_parseFindingUID (ek_UID ?cut) = None"
    using nb by (simp add: drift_parseFindingUID_def strings_CutByte_def uidAxisSep_def strings_IndexByte_None[THEN iffD2])
  moreover have "rank_parseFindingUID (ek_UID ?cut) = None"
    by (simp add: rank_parseFindingUID_def strings_CutPrefix_def strings_HasPrefix_def
        drift_uidPrefix_def rank_uidPrefix_def)
  ultimately show "\<exists>cut. deserializeKey (serializeKey \<lparr>ek_UID = drift_findingUID sub key, ek_Reason = r\<rparr>) = Some cut
      \<and> ek_Reason cut = key @ ''|'' @ r
      \<and> drift_parseFindingUID (ek_UID cut) = None \<and> rank_parseFindingUID (ek_UID cut) = None"
    by (intro exI[of _ ?cut]) simp
qed

definition drift_cache :: DedupCache where
  "drift_cache = bound_cache\<lparr>dc_entries :=
     [(\<lparr>ek_UID = drift_findingUID web_subject ''zone'', ek_Reason = ''unknown''\<rparr>, open_entry)]\<rparr>"

theorem restart_orphans_findings_witness:
  "gget (dc_entries drift_cache) \<lparr>ek_UID = drift_findingUID web_subject ''zone'', ek_Reason = ''unknown''\<rparr> = Some open_entry
   \<and> gget (dc_entries (restore_map (bound_cache\<lparr>dc_entries := []\<rparr>) (snapshot_map drift_cache)))
         \<lparr>ek_UID = drift_findingUID web_subject ''zone'', ek_Reason = ''unknown''\<rparr> = None"
proof
  show "gget (dc_entries drift_cache) \<lparr>ek_UID = drift_findingUID web_subject ''zone'', ek_Reason = ''unknown''\<rparr> = Some open_entry"
    by (simp add: drift_cache_def)
  have "dc_entries (bound_cache\<lparr>dc_entries := []\<rparr>) = []" by simp
  moreover have "drift_mintable (web_subject, ''zone'')" by code_simp
  ultimately show "gget (dc_entries (restore_map (bound_cache\<lparr>dc_entries := []\<rparr>) (snapshot_map drift_cache)))
         \<lparr>ek_UID = drift_findingUID web_subject ''zone'', ek_Reason = ''unknown''\<rparr> = None"
    using restart_orphans_findings by blast
qed

end
