(* ===== verification/Storm.thy ===== *)
theory Storm
  imports PullFailure
begin

section \<open>Storm correlation\<close>

text \<open>
  \<^verbatim>\<open>pkg/engine/storm.go\<close>, \<^verbatim>\<open>external.go\<close> and \<^verbatim>\<open>mined.go\<close>: the second-level window that groups
  distinct incidents by a shared blast-radius key. The topology resolver is an interface of the
  correlator and an argument here; so is the answer of the installed fleet-size function
  (\<^const>\<open>None\<close> where none is installed). A storm or a windowed incident that the code mutates
  through its pointer is looked up again under its key. The fleet fraction 0.20 is the rational
  1/5: for an integer fleet the ceiling of the float64 product is the same. Checks for nil
  functions and a nil resolver have no counterpart.
\<close>

subsection \<open>Data\<close>

record ObjectRef =
  or_Kind :: string
  or_Namespace :: string
  or_Name :: string

record Ancestor =
  an_Kind :: string
  an_Namespace :: string
  an_Name :: string

definition Ancestor_Key :: "Ancestor \<Rightarrow> string" where
  "Ancestor_Key a = an_Kind a @ ''/'' @ an_Namespace a @ ''/'' @ an_Name a"

definition Ancestor_Display :: "Ancestor \<Rightarrow> string" where
  "Ancestor_Display a =
     (if an_Namespace a = '''' then an_Kind a @ '' '' @ an_Name a
      else an_Kind a @ '' '' @ an_Namespace a @ ''/'' @ an_Name a)"

type_synonym AncestorResolver = "ObjectRef \<Rightarrow> Ancestor list"

record StormMember =
  sm_Key :: EventKey
  sm_Fingerprint :: string
  sm_Namespace :: string
  sm_KindOfObject :: string
  sm_Name :: string
  sm_Reason :: string
  sm_ReasonClass :: string
  sm_SessionID :: string
  sm_FirstSeen :: gotime

record StormInfo =
  si_ID :: string
  si_Ancestor :: Ancestor
  si_Fingerprint :: string
  si_Reason :: string
  si_Severity :: Severity
  si_SessionID :: string
  si_KeySource :: string
  si_AffectedCount :: nat
  si_NamespaceCount :: nat
  si_FirstSeen :: gotime
  si_LastSeen :: gotime
  si_Representatives :: "StormMember list"
  si_MemberFingerprints :: "string list"

record StormSizeUpdate =
  ss_AffectedCount :: nat
  ss_NamespaceCount :: nat
  ss_NewSinceLast :: int

datatype StormVerdict =
    StormNone
  | StormFormed StormInfo "StormMember list" StormMember
  | StormAttached StormInfo StormMember "StormSizeUpdate option"

definition DefaultStormWindow :: duration where "DefaultStormWindow = 60 * Second"
definition DefaultStormMin :: nat where "DefaultStormMin = 3"
definition stormRepresentatives :: nat where "stormRepresentatives = 3"
definition stormEscalateSize :: nat where "stormEscalateSize = 10"
definition stormUpdateGrowth :: nat where "stormUpdateGrowth = 10"
definition stormUpdateMinInterval :: duration where "stormUpdateMinInterval = Minute"
definition stormIdleTTL :: duration where "stormIdleTTL = 30 * Minute"
definition simultaneityWindow :: duration where "simultaneityWindow = 20 * Second"
definition simultaneityIdleTTL :: duration where "simultaneityIdleTTL = 5 * Minute"
definition simultaneityMinMembers :: nat where "simultaneityMinMembers = 3"
definition simultaneityFleetFraction :: rat where "simultaneityFleetFraction = 1 / 5"
definition ClusterAncestorKind :: string where "ClusterAncestorKind = ''Cluster''"
definition KeySourceSimultaneity :: string where "KeySourceSimultaneity = ''simultaneity''"
definition unnamedCluster :: string where "unnamedCluster = ''unnamed''"
definition maxStormMembers :: nat where "maxStormMembers = 1000"

record pendingIncident =
  pi_at :: gotime
  pi_member :: StormMember
  pi_severity :: Severity
  pi_zone :: string
  pi_seen :: gotime
  pi_mined :: "(string, string) gomap"
  pi_keys :: "(string, Ancestor) gomap"
  pi_source :: "(string, string) gomap"
  pi_order :: "string list"

record stormState =
  st_id :: string
  st_ancestor :: Ancestor
  st_fingerprint :: string
  st_reason :: string
  st_keySource :: string
  st_sessionID :: string
  st_maxSeverity :: Severity
  st_firstSeen :: gotime
  st_lastSeen :: gotime
  st_lastActive :: gotime
  st_members :: "StormMember list"
  st_memberCount :: nat
  st_namespaces :: "string list"
  st_fingerprints :: "string list"
  st_resolved :: "(EventKey, bool) gomap"
  st_unresolved :: int
  st_idleTTL :: duration
  st_reportedCount :: nat
  st_reportedAt :: gotime

subsection \<open>External and mined keys\<close>

record ExternalAncestor =
  ea_Name :: string
  ea_Extract :: "Signal \<Rightarrow> Ancestor option"

definition KeySourceTopology :: string where "KeySourceTopology = ''topology''"
definition KeySourceRegistry :: string where "KeySourceRegistry = ''registry-host''"
definition AncestorKindRegistry :: string where "AncestorKindRegistry = ''Registry''"

definition registryAncestor :: "Signal \<Rightarrow> Ancestor option" where
  "registryAncestor sig =
     (if sg_PullClass sig \<noteq> PullClassRetryable then None
      else (let host = RegistryHost (te_Message sig) in
            if host = '''' then None
            else Some \<lparr>an_Kind = AncestorKindRegistry, an_Namespace = '''', an_Name = host\<rparr>))"

definition DefaultExternalAncestors :: "ExternalAncestor list" where
  "DefaultExternalAncestors = [\<lparr>ea_Name = KeySourceRegistry, ea_Extract = registryAncestor\<rparr>]"

fun externalKeys :: "ExternalAncestor list \<Rightarrow> Signal \<Rightarrow> (Ancestor \<times> string) list" where
  "externalKeys [] sig = []"
| "externalKeys (e # es) sig =
     (case ea_Extract e sig of
        None \<Rightarrow> externalKeys es sig
      | Some a \<Rightarrow> (a, ea_Name e) # externalKeys es sig)"

record MinedDimension =
  md_Name :: string
  md_Kind :: string
  md_Value :: "Signal \<Rightarrow> string"

definition DefaultMinedMin :: nat where "DefaultMinedMin = 5"

definition DefaultMinedDimensions :: "MinedDimension list" where
  "DefaultMinedDimensions =
     [\<lparr>md_Name = ''image'', md_Kind = ''Image'',
       md_Value = (\<lambda>sig. case quotedImageRef (te_Message sig) of None \<Rightarrow> '''' | Some ref \<Rightarrow> ref)\<rparr>,
      \<lparr>md_Name = ''node'', md_Kind = ''Node'', md_Value = te_Node\<rparr>,
      \<lparr>md_Name = ''container'', md_Kind = ''Container'', md_Value = te_Container\<rparr>]"

datatype mined_error =
    MinedNameRequired nat | MinedKindRequired string | MinedDuplicate string

fun ValidateMinedDimensions_from :: "nat \<Rightarrow> string list \<Rightarrow> MinedDimension list \<Rightarrow> mined_error option" where
  "ValidateMinedDimensions_from i seen [] = None"
| "ValidateMinedDimensions_from i seen (d # ds) =
     (if md_Name d = '''' then Some (MinedNameRequired i)
      else if md_Kind d = '''' then Some (MinedKindRequired (md_Name d))
      else if md_Name d \<in> set seen then Some (MinedDuplicate (md_Name d))
      else ValidateMinedDimensions_from (Suc i) (md_Name d # seen) ds)"

definition ValidateMinedDimensions :: "MinedDimension list \<Rightarrow> mined_error option" where
  "ValidateMinedDimensions dims = ValidateMinedDimensions_from 0 [] dims"

definition MinedKeySource :: "string \<Rightarrow> string" where
  "MinedKeySource dimension = ''mined:'' @ dimension"

definition minedValues :: "MinedDimension list \<Rightarrow> Signal \<Rightarrow> (string, string) gomap" where
  "minedValues dims sig =
     foldl (\<lambda>out d. if md_Value d sig \<noteq> '''' then gput (md_Name d) (md_Value d sig) out else out) [] dims"

definition minedAncestors :: "MinedDimension list \<Rightarrow> (string, string) gomap \<Rightarrow> Ancestor list" where
  "minedAncestors dims vals =
     List.map_filter
       (\<lambda>d. case gget vals (md_Name d) of
              None \<Rightarrow> None
            | Some v \<Rightarrow>
                if v = '''' then None
                else Some \<lparr>an_Kind = md_Kind d, an_Namespace = '''', an_Name = v\<rparr>) dims"

subsection \<open>The correlator\<close>

record StormCorrelator =
  sc_window :: duration
  sc_min :: nat
  sc_external :: "ExternalAncestor list"
  sc_mined :: "MinedDimension list"
  sc_minedMin :: nat
  sc_pending :: "pendingIncident list"
  sc_storms :: "(string, stormState) gomap"
  sc_byKey :: "(EventKey, string) gomap"

datatype storm_error =
    StormWindowError duration | StormMinError int | MiningNoDimension
  | MiningInvalid mined_error | MiningMinError int

definition NewStormCorrelator :: "duration \<Rightarrow> int \<Rightarrow> storm_error + StormCorrelator" where
  "NewStormCorrelator window minimum =
     (if window \<le> 0 then Inl (StormWindowError window)
      else if minimum < 2 then Inl (StormMinError minimum)
      else Inr \<lparr>sc_window = window, sc_min = nat minimum, sc_external = DefaultExternalAncestors,
                sc_mined = [], sc_minedMin = 0, sc_pending = [], sc_storms = [], sc_byKey = []\<rparr>)"

definition EnableMining :: "StormCorrelator \<Rightarrow> MinedDimension list \<Rightarrow> int \<Rightarrow> storm_error + StormCorrelator" where
  "EnableMining c dims minimum =
     (if dims = [] then Inl MiningNoDimension
      else case ValidateMinedDimensions dims of
             Some err \<Rightarrow> Inl (MiningInvalid err)
           | None \<Rightarrow>
               if minimum < int (sc_min c) then Inl (MiningMinError minimum)
               else Inr (c\<lparr>sc_mined := dims, sc_minedMin := nat minimum\<rparr>))"

definition severityRank :: "Severity \<Rightarrow> nat" where
  "severityRank s = (if s = SeverityCritical then 2 else if s = SeverityWarning then 1 else 0)"

subsection \<open>One storm\<close>

definition recordMember :: "StormMember \<Rightarrow> stormState \<Rightarrow> stormState" where
  "recordMember m st =
     (let st1 = st\<lparr>st_memberCount := Suc (st_memberCount st),
                   st_namespaces := (if sm_Namespace m \<noteq> '''' then List.insert (sm_Namespace m) (st_namespaces st)
                                     else st_namespaces st)\<rparr>
      in if length (st_members st) < maxStormMembers
         then st1\<lparr>st_members := st_members st @ [m],
                  st_fingerprints := st_fingerprints st @ [sm_Fingerprint m]\<rparr>
         else st1)"

definition maybeSizeUpdate :: "gotime \<Rightarrow> stormState \<Rightarrow> StormSizeUpdate option \<times> stormState" where
  "maybeSizeUpdate now st =
     (let count = st_memberCount st;
          grew = int count - int (st_reportedCount st)
      in if count < 2 * st_reportedCount st \<and> count < st_reportedCount st + stormUpdateGrowth then (None, st)
         else if time_Sub now (st_reportedAt st) < stormUpdateMinInterval then (None, st)
         else (Some \<lparr>ss_AffectedCount = count, ss_NamespaceCount = length (st_namespaces st), ss_NewSinceLast = grew\<rparr>,
               st\<lparr>st_reportedCount := count, st_reportedAt := now\<rparr>))"

text \<open>The part of \<^verbatim>\<open>addMember\<close> and \<^verbatim>\<open>form\<close> that arms a member.\<close>

definition arm_member :: "StormMember \<Rightarrow> stormState \<Rightarrow> stormState" where
  "arm_member m st =
     (let st1 = recordMember m st
      in st1\<lparr>st_resolved := gput (sm_Key m) False (st_resolved st1), st_unresolved := st_unresolved st1 + 1\<rparr>)"

definition addMember :: "StormMember \<Rightarrow> Severity \<Rightarrow> gotime \<Rightarrow> gotime \<Rightarrow> stormState \<Rightarrow> stormState" where
  "addMember m sev seen now st0 =
     (let st = st0\<lparr>st_lastSeen := (if seen > st_lastSeen st0 then seen else st_lastSeen st0),
                   st_lastActive := now,
                   st_maxSeverity := (if severityRank sev > severityRank (st_maxSeverity st0) then sev
                                      else st_maxSeverity st0)\<rparr>
      in case gget (st_resolved st) (sm_Key m) of
           Some done \<Rightarrow>
             (if done then st\<lparr>st_resolved := gput (sm_Key m) False (st_resolved st),
                              st_unresolved := st_unresolved st + 1\<rparr>
              else st)
         | None \<Rightarrow> arm_member m st)"

definition storm_info :: "stormState \<Rightarrow> StormInfo" where
  "storm_info st =
     \<lparr>si_ID = st_id st, si_Ancestor = st_ancestor st, si_Fingerprint = st_fingerprint st,
      si_Reason = st_reason st,
      si_Severity = (if st_maxSeverity st = SeverityWarning \<and> st_memberCount st \<ge> stormEscalateSize
                     then SeverityCritical else st_maxSeverity st),
      si_SessionID = st_sessionID st, si_KeySource = st_keySource st,
      si_AffectedCount = st_memberCount st, si_NamespaceCount = length (st_namespaces st),
      si_FirstSeen = st_firstSeen st, si_LastSeen = st_lastSeen st,
      si_Representatives = take stormRepresentatives (st_members st),
      si_MemberFingerprints = st_fingerprints st\<rparr>"

subsection \<open>Expiry\<close>

definition close_storm :: "string \<Rightarrow> StormCorrelator \<Rightarrow> StormCorrelator" where
  "close_storm sid c =
     c\<lparr>sc_byKey := filter (\<lambda>(k, owner). owner \<noteq> sid) (sc_byKey c), sc_storms := gdel sid (sc_storms c)\<rparr>"

definition idle :: "gotime \<Rightarrow> stormState \<Rightarrow> bool" where
  "idle now st =
     (let ttl = (if st_idleTTL st \<le> 0 then stormIdleTTL else st_idleTTL st)
      in time_Sub now (st_lastActive st) > ttl)"

definition prune :: "StormCorrelator \<Rightarrow> gotime \<Rightarrow> StormCorrelator" where
  "prune c now =
     (let cutoff = now - sc_window c;
          c1 = c\<lparr>sc_pending := filter (\<lambda>q. pi_at q > cutoff) (sc_pending c)\<rparr>
      in foldl (\<lambda>c (sid, st). if idle now st then close_storm sid c else c) c1 (sc_storms c1))"

subsection \<open>Observing an incident\<close>

definition clusterCandidate :: "int option \<Rightarrow> Signal \<Rightarrow> Ancestor list \<Rightarrow> Ancestor option" where
  "clusterCandidate fleet sig cands =
     (if fleet = None \<or> te_KindOfObject sig \<noteq> ''Node'' then None
      else if \<exists>a \<in> set cands. an_Kind a \<noteq> ''Node'' then None
      else Some \<lparr>an_Kind = ClusterAncestorKind, an_Namespace = '''',
                 an_Name = (if sg_Cluster sig = '''' then unnamedCluster else sg_Cluster sig)\<rparr>)"

definition simultaneityMin :: "StormCorrelator \<Rightarrow> int option \<Rightarrow> nat option" where
  "simultaneityMin c fleet =
     (case fleet of
        None \<Rightarrow> None
      | Some n \<Rightarrow>
          if n \<le> 0 then None
          else (let share = nat \<lceil>of_int n * simultaneityFleetFraction\<rceil>
                in Some (max (sc_min c) (max simultaneityMinMembers share))))"

definition storm_member :: "gotime \<Rightarrow> Signal \<Rightarrow> StormMember" where
  "storm_member now sig =
     \<lparr>sm_Key = CanonicalKey sig, sm_Fingerprint = sg_Fingerprint sig, sm_Namespace = te_Namespace sig,
      sm_KindOfObject = te_KindOfObject sig, sm_Name = te_Name sig, sm_Reason = ek_Reason (te_Key sig),
      sm_ReasonClass = ReasonClass (sg_Kind sig) (ek_Reason (te_Key sig)) (te_Message sig),
      sm_SessionID = '''',
      sm_FirstSeen = (if IsZero (te_FirstSeen sig) then now else te_FirstSeen sig)\<rparr>"

definition storm_candidates ::
  "StormCorrelator \<Rightarrow> AncestorResolver \<Rightarrow> int option \<Rightarrow> Signal \<Rightarrow> (Ancestor \<times> string) list" where
  "storm_candidates c resolver fleet sig =
     (let ext = externalKeys (sc_external c) sig;
          topo = resolver \<lparr>or_Kind = te_KindOfObject sig, or_Namespace = te_Namespace sig, or_Name = te_Name sig\<rparr>;
          cands = ext @ map (\<lambda>a. (a, KeySourceTopology)) topo
      in case clusterCandidate fleet sig (map fst cands) of
           None \<Rightarrow> cands
         | Some a \<Rightarrow> cands @ [(a, KeySourceSimultaneity)])"

text \<open>A windowed incident; a key that several candidates give keeps its first source.\<close>

definition add_candidate :: "pendingIncident \<Rightarrow> Ancestor \<times> string \<Rightarrow> pendingIncident" where
  "add_candidate p cand =
     (let k = Ancestor_Key (fst cand) in
      if gget (pi_keys p) k \<noteq> None then p
      else p\<lparr>pi_keys := gput k (fst cand) (pi_keys p), pi_source := gput k (snd cand) (pi_source p),
             pi_order := pi_order p @ [k]\<rparr>)"

definition pending_of ::
  "gotime \<Rightarrow> Signal \<Rightarrow> gotime \<Rightarrow> (string, string) gomap \<Rightarrow> (Ancestor \<times> string) list \<Rightarrow> pendingIncident" where
  "pending_of now sig seen minedVals cands =
     foldl add_candidate
       \<lparr>pi_at = now, pi_member = storm_member now sig, pi_severity = sg_Severity sig, pi_zone = sg_Zone sig,
        pi_seen = seen, pi_mined = minedVals, pi_keys = [], pi_source = [], pi_order = []\<rparr> cands"

fun window_put :: "pendingIncident \<Rightarrow> pendingIncident list \<Rightarrow> pendingIncident list" where
  "window_put p [] = [p]"
| "window_put p (q # qs) =
     (if sm_Key (pi_member q) = sm_Key (pi_member p) then p # qs else q # window_put p qs)"

definition form_member :: "pendingIncident \<Rightarrow> stormState \<Rightarrow> stormState" where
  "form_member q st =
     (let st1 = arm_member (pi_member q) st
      in st1\<lparr>st_maxSeverity := (if severityRank (pi_severity q) > severityRank (st_maxSeverity st1)
                                then pi_severity q else st_maxSeverity st1),
             st_firstSeen := (if sm_FirstSeen (pi_member q) < st_firstSeen st1
                              then sm_FirstSeen (pi_member q) else st_firstSeen st1),
             st_lastSeen := (if pi_seen q > st_lastSeen st1 then pi_seen q else st_lastSeen st1)\<rparr>)"

definition form ::
  "StormCorrelator \<Rightarrow> Ancestor \<Rightarrow> string \<Rightarrow> pendingIncident list \<Rightarrow> gotime \<Rightarrow> stormState \<times> StormCorrelator" where
  "form c ancestor keySource grp now =
     (let fst_q = hd grp;
          st0 = \<lparr>st_id = Ancestor_Key ancestor, st_ancestor = ancestor,
                 st_fingerprint = Fingerprint KindStorm (ek_Reason (sm_Key (pi_member fst_q))) (an_Kind ancestor) (pi_zone fst_q),
                 st_reason = ek_Reason (sm_Key (pi_member fst_q)), st_keySource = keySource, st_sessionID = '''',
                 st_maxSeverity = SeverityInfo, st_firstSeen = sm_FirstSeen (pi_member fst_q),
                 st_lastSeen = pi_seen fst_q, st_lastActive = now, st_members = [], st_memberCount = 0,
                 st_namespaces = [], st_fingerprints = [], st_resolved = [], st_unresolved = 0,
                 st_idleTTL = (if keySource = KeySourceSimultaneity then simultaneityIdleTTL else stormIdleTTL),
                 st_reportedCount = 0, st_reportedAt = 0\<rparr>;
          st1 = foldl (\<lambda>st q. form_member q st) st0 grp;
          st2 = st1\<lparr>st_reportedCount := st_memberCount st1, st_reportedAt := now\<rparr>;
          inGroup = map (sm_Key \<circ> pi_member) grp
      in (st2, c\<lparr>sc_byKey := foldl (\<lambda>m q. gput (sm_Key (pi_member q)) (st_id st2) m) (sc_byKey c) grp,
                 sc_pending := filter (\<lambda>q. sm_Key (pi_member q) \<notin> set inGroup) (sc_pending c),
                 sc_storms := gput (st_id st2) st2 (sc_storms c)\<rparr>))"

text \<open>The loop over the candidate keys of the windowed incident, best key first.\<close>

definition key_group :: "StormCorrelator \<Rightarrow> gotime \<Rightarrow> duration \<Rightarrow> string \<Rightarrow> pendingIncident list" where
  "key_group c now window k =
     filter (\<lambda>q. gget (pi_keys q) k \<noteq> None \<and> pi_at q > now - window) (sc_pending c)"

definition key_rule :: "StormCorrelator \<Rightarrow> int option \<Rightarrow> string \<Rightarrow> (nat \<times> duration) option" where
  "key_rule c fleet source =
     (if source = KeySourceSimultaneity
      then map_option (\<lambda>m. (m, simultaneityWindow)) (simultaneityMin c fleet)
      else Some (sc_min c, sc_window c))"

fun declared_key ::
  "StormCorrelator \<Rightarrow> int option \<Rightarrow> gotime \<Rightarrow> pendingIncident \<Rightarrow> string list
   \<Rightarrow> (Ancestor \<times> string \<times> pendingIncident list) option" where
  "declared_key c fleet now p [] = None"
| "declared_key c fleet now p (k # ks) =
     (case key_rule c fleet (the (gget (pi_source p) k)) of
        None \<Rightarrow> declared_key c fleet now p ks
      | Some (minimum, window) \<Rightarrow>
          if length (key_group c now window k) < minimum then declared_key c fleet now p ks
          else Some (the (gget (pi_keys p) k), the (gget (pi_source p) k), key_group c now window k))"

fun mine_dims ::
  "StormCorrelator \<Rightarrow> pendingIncident \<Rightarrow> MinedDimension list \<Rightarrow> (Ancestor \<times> string \<times> pendingIncident list) option" where
  "mine_dims c p [] = None"
| "mine_dims c p (d # ds) =
     (case gget (pi_mined p) (md_Name d) of
        None \<Rightarrow> mine_dims c p ds
      | Some v \<Rightarrow>
          if v = '''' then mine_dims c p ds
          else (let grp = filter (\<lambda>q. gget (pi_mined q) (md_Name d) = Some v) (sc_pending c) in
                if length grp < sc_minedMin c then mine_dims c p ds
                else Some (\<lparr>an_Kind = md_Kind d, an_Namespace = '''', an_Name = v\<rparr>, md_Name d, grp)))"

definition mineKey :: "StormCorrelator \<Rightarrow> pendingIncident \<Rightarrow> (Ancestor \<times> string \<times> pendingIncident list) option" where
  "mineKey c p = mine_dims c p (sc_mined c)"

definition find_storm :: "(string, stormState) gomap \<Rightarrow> Ancestor list \<Rightarrow> stormState option" where
  "find_storm storms as =
     (case List.find (\<lambda>a. gget storms (Ancestor_Key a) \<noteq> None) as of
        None \<Rightarrow> None
      | Some a \<Rightarrow> gget storms (Ancestor_Key a))"

definition formed :: "StormMember \<Rightarrow> stormState \<times> StormCorrelator \<Rightarrow> StormVerdict \<times> StormCorrelator" where
  "formed member r = (StormFormed (storm_info (fst r)) (st_members (fst r)) member, snd r)"

definition Observe_storm ::
  "StormCorrelator \<Rightarrow> AncestorResolver \<Rightarrow> int option \<Rightarrow> gotime \<Rightarrow> Signal \<Rightarrow> StormVerdict \<times> StormCorrelator" where
  "Observe_storm c0 resolver fleet now sig =
     (let member = storm_member now sig;
          key = sm_Key member;
          seen = (if IsZero (te_LastSeen sig) then now else te_LastSeen sig);
          c = prune c0 now;
          cands = storm_candidates c resolver fleet sig;
          minedVals = minedValues (sc_mined c) sig
      in case find_storm (sc_storms c) (map fst cands @ minedAncestors (sc_mined c) minedVals) of
           Some st0 \<Rightarrow>
             (let st = addMember member (sg_Severity sig) seen now st0;
                  upd = maybeSizeUpdate now st
              in (StormAttached (storm_info st) member (fst upd),
                  c\<lparr>sc_byKey := gput key (st_id st) (sc_byKey c),
                    sc_storms := gput (st_id st) (snd upd) (sc_storms c)\<rparr>))
         | None \<Rightarrow>
             if cands = [] \<and> minedVals = [] then (StormNone, c)
             else (let p = pending_of now sig seen minedVals cands;
                       c1 = c\<lparr>sc_pending := window_put p (sc_pending c)\<rparr>
                   in case declared_key c1 fleet now p (pi_order p) of
                        Some (a, source, grp) \<Rightarrow> formed member (form c1 a source grp now)
                      | None \<Rightarrow>
                          (case mineKey c1 p of
                             Some (a, dn, grp) \<Rightarrow> formed member (form c1 a (MinedKeySource dn) grp now)
                           | None \<Rightarrow> (StormNone, c1))))"

subsection \<open>The other operations\<close>

fun set_member_session :: "EventKey \<Rightarrow> string \<Rightarrow> pendingIncident list \<Rightarrow> pendingIncident list" where
  "set_member_session key sid [] = []"
| "set_member_session key sid (q # qs) =
     (if sm_Key (pi_member q) = key then q\<lparr>pi_member := (pi_member q)\<lparr>sm_SessionID := sid\<rparr>\<rparr> # qs
      else q # set_member_session key sid qs)"

definition NoteMemberSession :: "StormCorrelator \<Rightarrow> EventKey \<Rightarrow> string \<Rightarrow> StormCorrelator" where
  "NoteMemberSession c key sid = c\<lparr>sc_pending := set_member_session (canon_key key) sid (sc_pending c)\<rparr>"

definition owner_storm :: "StormCorrelator \<Rightarrow> EventKey \<Rightarrow> stormState option" where
  "owner_storm c key =
     gget (sc_storms c) (case gget (sc_byKey c) key of None \<Rightarrow> '''' | Some sid \<Rightarrow> sid)"

definition NoteMemberActivity :: "StormCorrelator \<Rightarrow> gotime \<Rightarrow> EventKey \<Rightarrow> gotime \<Rightarrow> StormCorrelator" where
  "NoteMemberActivity c now key seen =
     (case owner_storm c (canon_key key) of
        None \<Rightarrow> c
      | Some st \<Rightarrow>
          c\<lparr>sc_storms := gput (st_id st)
              (st\<lparr>st_lastActive := now,
                  st_lastSeen := (if seen > st_lastSeen st then seen else st_lastSeen st)\<rparr>) (sc_storms c)\<rparr>)"

definition BindStormSession :: "StormCorrelator \<Rightarrow> string \<Rightarrow> string \<Rightarrow> StormCorrelator" where
  "BindStormSession c sid sessionID =
     c\<lparr>sc_storms := gmod sid (\<lambda>st. st\<lparr>st_sessionID := sessionID\<rparr>) (sc_storms c)\<rparr>"

definition clear_session :: "string \<Rightarrow> stormState \<Rightarrow> stormState" where
  "clear_session dead st =
     st\<lparr>st_sessionID := (if dead = '''' \<or> st_sessionID st = dead then '''' else st_sessionID st),
        st_members := map (\<lambda>m. if sm_SessionID m = dead then m\<lparr>sm_SessionID := ''''\<rparr> else m) (st_members st)\<rparr>"

definition ClearStormSession ::
  "StormCorrelator \<Rightarrow> string \<Rightarrow> string \<Rightarrow> StormInfo option \<times> StormCorrelator" where
  "ClearStormSession c fp dead =
     (case List.find (\<lambda>(sid, st). fp \<noteq> '''' \<and> st_fingerprint st = fp \<or> dead \<noteq> '''' \<and> st_sessionID st = dead) (sc_storms c) of
        None \<Rightarrow> (None, c)
      | Some (sid, st) \<Rightarrow>
          (Some (storm_info (clear_session dead st)),
           c\<lparr>sc_storms := gput sid (clear_session dead st) (sc_storms c)\<rparr>))"

definition StormMembers :: "StormCorrelator \<Rightarrow> string \<Rightarrow> StormMember list" where
  "StormMembers c sid = (case gget (sc_storms c) sid of None \<Rightarrow> [] | Some st \<Rightarrow> st_members st)"

text \<open>\<^verbatim>\<open>MemberResolved\<close> answers (\<open>info\<close>, \<open>done\<close>); \<^const>\<open>None\<close> is its \<open>ok = false\<close>.\<close>

definition clear_member :: "EventKey \<Rightarrow> stormState \<Rightarrow> stormState" where
  "clear_member key st =
     (if gget (st_resolved st) key = Some False
      then st\<lparr>st_resolved := gput key True (st_resolved st), st_unresolved := st_unresolved st - 1\<rparr>
      else st)"

definition MemberResolved :: "StormCorrelator \<Rightarrow> EventKey \<Rightarrow> (StormInfo \<times> bool) option \<times> StormCorrelator" where
  "MemberResolved c key0 =
     (let key = canon_key key0 in
      case gget (sc_byKey c) key of
        None \<Rightarrow> (None, c)
      | Some sid \<Rightarrow>
          (case gget (sc_storms c) sid of
             None \<Rightarrow> (None, c\<lparr>sc_byKey := gdel key (sc_byKey c)\<rparr>)
           | Some st0 \<Rightarrow>
               (let st = clear_member key st0;
                    c1 = c\<lparr>sc_storms := gput sid st (sc_storms c)\<rparr>
                in if st_unresolved st > 0 then (Some (storm_info st, False), c1)
                   else (Some (storm_info st, True), close_storm sid c1))))"

definition MemberReverted :: "StormCorrelator \<Rightarrow> gotime \<Rightarrow> EventKey \<Rightarrow> StormCorrelator" where
  "MemberReverted c now key0 =
     (let key = canon_key key0 in
      case gget (sc_byKey c) key of
        None \<Rightarrow> c
      | Some sid \<Rightarrow>
          (case gget (sc_storms c) sid of
             None \<Rightarrow> c
           | Some st \<Rightarrow>
               if gget (st_resolved st) key = Some True
               then c\<lparr>sc_storms := gput sid
                       (st\<lparr>st_resolved := gput key False (st_resolved st),
                           st_unresolved := st_unresolved st + 1, st_lastActive := now\<rparr>) (sc_storms c)\<rparr>
               else c))"

definition ActiveStorms :: "StormCorrelator \<Rightarrow> nat" where
  "ActiveStorms c = length (sc_storms c)"

end
