(* ===== verification/StormLaws.thy ===== *)
theory StormLaws
  imports Storm
begin

section \<open>What the storm correlator keeps\<close>

text \<open>
  The invariant of the correlator over arbitrary histories of its operations, when a storm forms,
  what becomes of a burst, and when a storm is over.
\<close>

subsection \<open>The books of one storm\<close>

definition uncleared :: "stormState \<Rightarrow> EventKey set" where
  "uncleared st = {k. gget (st_resolved st) k = Some False}"

definition storm_wf :: "stormState \<Rightarrow> bool" where
  "storm_wf st =
     (gokeys (st_resolved st) \<and> st_unresolved st = int (card (uncleared st))
      \<and> st_memberCount st = length (st_resolved st)
      \<and> length (st_members st) = min (st_memberCount st) maxStormMembers
      \<and> length (st_fingerprints st) = length (st_members st)
      \<and> sm_Key ` set (st_members st) \<subseteq> fst ` set (st_resolved st)
      \<and> distinct (map sm_Key (st_members st))
      \<and> distinct (st_namespaces st) \<and> '''' \<notin> set (st_namespaces st))"

lemma uncleared_code [code]:
  "uncleared st = set (filter (\<lambda>k. gget (st_resolved st) k = Some False) (map fst (st_resolved st)))"
  by (force simp: uncleared_def dest: map_of_SomeD)

lemma uncleared_sub: "uncleared st \<subseteq> fst ` set (st_resolved st)"
  by (auto simp: uncleared_def dest!: map_of_SomeD intro: rev_image_eqI)

lemma finite_uncleared [simp]: "finite (uncleared st)"
  using uncleared_sub finite_subset by blast

lemma uncleared_put:
  "uncleared (st\<lparr>st_resolved := gput k d (st_resolved st)\<rparr>) =
     (if d then uncleared st - {k} else insert k (uncleared st))"
  by (auto simp: uncleared_def)

lemma recordMember_fields [simp]:
  "st_resolved (recordMember m st) = st_resolved st"
  "st_unresolved (recordMember m st) = st_unresolved st"
  "st_memberCount (recordMember m st) = Suc (st_memberCount st)"
  "st_id (recordMember m st) = st_id st"
  "st_ancestor (recordMember m st) = st_ancestor st"
  "st_lastActive (recordMember m st) = st_lastActive st"
  "st_idleTTL (recordMember m st) = st_idleTTL st"
  "st_keySource (recordMember m st) = st_keySource st"
  by (simp_all add: recordMember_def Let_def)

lemma arm_member_fields [simp]:
  "st_id (arm_member m st) = st_id st"
  "st_ancestor (arm_member m st) = st_ancestor st"
  "st_memberCount (arm_member m st) = Suc (st_memberCount st)"
  "st_resolved (arm_member m st) = gput (sm_Key m) False (st_resolved st)"
  "st_unresolved (arm_member m st) = st_unresolved st + 1"
  "st_lastActive (arm_member m st) = st_lastActive st"
  "st_idleTTL (arm_member m st) = st_idleTTL st"
  "st_keySource (arm_member m st) = st_keySource st"
  by (simp_all add: arm_member_def Let_def)

lemma arm_member_lists [simp]:
  "st_members (arm_member m st) = (if length (st_members st) < maxStormMembers then st_members st @ [m] else st_members st)"
  "st_fingerprints (arm_member m st) =
     (if length (st_members st) < maxStormMembers then st_fingerprints st @ [sm_Fingerprint m] else st_fingerprints st)"
  "st_namespaces (arm_member m st) =
     (if sm_Namespace m \<noteq> [] then List.insert (sm_Namespace m) (st_namespaces st) else st_namespaces st)"
  by (simp_all add: arm_member_def recordMember_def Let_def)

lemma uncleared_arm: "uncleared (arm_member m st) = insert (sm_Key m) (uncleared st)"
  by (auto simp: uncleared_def)

lemma arm_member_wf:
  assumes wf: "storm_wf st" and new: "sm_Key m \<notin> fst ` set (st_resolved st)"
  shows "storm_wf (arm_member m st)"
proof -
  have nu: "sm_Key m \<notin> uncleared st" using new uncleared_sub by blast
  have nm: "sm_Key m \<notin> sm_Key ` set (st_members st)" using new wf by (auto simp: storm_wf_def)
  show ?thesis
    using wf new nu nm
    by (auto simp: storm_wf_def uncleared_arm length_gput keys_gput maxStormMembers_def)
qed

lemma re_arm_wf:
  assumes "storm_wf st" and "gget (st_resolved st) k = Some True"
  shows "storm_wf (st\<lparr>st_resolved := gput k False (st_resolved st), st_unresolved := st_unresolved st + 1\<rparr>)"
proof -
  let ?st = "st\<lparr>st_resolved := gput k False (st_resolved st), st_unresolved := st_unresolved st + 1\<rparr>"
  have k: "k \<in> fst ` set (st_resolved st)" using assms(2) gget_in_keys[of "st_resolved st" k] by simp
  have "uncleared ?st = insert k (uncleared st)" "k \<notin> uncleared st"
    using assms(2) by (auto simp: uncleared_def)
  then show ?thesis using assms(1) k by (auto simp: storm_wf_def length_gput keys_gput)
qed

lemma storm_wf_cong:
  assumes "st_resolved st' = st_resolved st" "st_unresolved st' = st_unresolved st"
    "st_memberCount st' = st_memberCount st" "length (st_members st') = length (st_members st)"
    "map sm_Key (st_members st') = map sm_Key (st_members st)"
    "st_fingerprints st' = st_fingerprints st" "st_namespaces st' = st_namespaces st"
  shows "storm_wf st' = storm_wf st"
proof -
  have "sm_Key ` set (st_members st') = sm_Key ` set (st_members st)"
    using assms(5) by (metis list.set_map)
  moreover have "uncleared st' = uncleared st" using assms(1) by (simp add: uncleared_def)
  ultimately show ?thesis using assms by (simp add: storm_wf_def)
qed

lemma touch_wf [simp]:
  "storm_wf (st\<lparr>st_lastSeen := t\<rparr>) = storm_wf st"
  "storm_wf (st\<lparr>st_lastActive := t\<rparr>) = storm_wf st"
  "storm_wf (st\<lparr>st_maxSeverity := sev\<rparr>) = storm_wf st"
  "storm_wf (st\<lparr>st_firstSeen := t\<rparr>) = storm_wf st"
  "storm_wf (st\<lparr>st_sessionID := sid\<rparr>) = storm_wf st"
  "storm_wf (st\<lparr>st_reportedCount := n\<rparr>) = storm_wf st"
  "storm_wf (st\<lparr>st_reportedAt := t\<rparr>) = storm_wf st"
  by (rule storm_wf_cong; simp)+

lemma addMember_eq:
  "\<exists>st1. storm_wf st1 = storm_wf st \<and> st_resolved st1 = st_resolved st \<and>
     addMember m sev seen now st =
       (case gget (st_resolved st) (sm_Key m) of
          None \<Rightarrow> arm_member m st1
        | Some d \<Rightarrow>
            if d then st1\<lparr>st_resolved := gput (sm_Key m) False (st_resolved st1), st_unresolved := st_unresolved st1 + 1\<rparr>
            else st1)"
  by (rule exI[of _ "st\<lparr>st_lastSeen := (if seen > st_lastSeen st then seen else st_lastSeen st), st_lastActive := now,
     st_maxSeverity := (if severityRank sev > severityRank (st_maxSeverity st) then sev else st_maxSeverity st)\<rparr>"])
     (simp add: addMember_def Let_def split del: if_split)

lemma addMember_id [simp]:
  "st_id (addMember m sev seen now st) = st_id st"
  "st_ancestor (addMember m sev seen now st) = st_ancestor st"
  "st_lastActive (addMember m sev seen now st) = now"
  "st_idleTTL (addMember m sev seen now st) = st_idleTTL st"
  by (simp_all add: addMember_def Let_def split: option.split)

lemma addMember_resolved:
  "st_resolved (addMember m sev seen now st) =
     (if gget (st_resolved st) (sm_Key m) = Some False then st_resolved st else gput (sm_Key m) False (st_resolved st))"
  by (auto simp: addMember_def Let_def split: option.split)

lemma addMember_wf:
  assumes "storm_wf st" shows "storm_wf (addMember m sev seen now st)"
proof -
  obtain st1 where st1: "storm_wf st1" "st_resolved st1 = st_resolved st"
    "addMember m sev seen now st =
       (case gget (st_resolved st) (sm_Key m) of
          None \<Rightarrow> arm_member m st1
        | Some d \<Rightarrow>
            if d then st1\<lparr>st_resolved := gput (sm_Key m) False (st_resolved st1), st_unresolved := st_unresolved st1 + 1\<rparr>
            else st1)"
    using addMember_eq[of st m sev seen now] assms by blast
  show ?thesis
  proof (cases "gget (st_resolved st) (sm_Key m)")
    case None
    then show ?thesis using st1 arm_member_wf[of st1 m] gget_in_keys[of "st_resolved st" "sm_Key m"] by simp
  next
    case (Some d)
    then show ?thesis using st1 re_arm_wf[of st1 "sm_Key m"] by (cases d) simp_all
  qed
qed

lemma maybeSizeUpdate_fields [simp]:
  "st_id (snd (maybeSizeUpdate now st)) = st_id st"
  "st_ancestor (snd (maybeSizeUpdate now st)) = st_ancestor st"
  "st_resolved (snd (maybeSizeUpdate now st)) = st_resolved st"
  "st_lastActive (snd (maybeSizeUpdate now st)) = st_lastActive st"
  "st_idleTTL (snd (maybeSizeUpdate now st)) = st_idleTTL st"
  "storm_wf (snd (maybeSizeUpdate now st)) = storm_wf st"
  by (simp_all add: maybeSizeUpdate_def Let_def)

lemma clear_member_wf:
  assumes "storm_wf st" shows "storm_wf (clear_member k st)"
proof (cases "gget (st_resolved st) k = Some False")
  case True
  have k: "k \<in> fst ` set (st_resolved st)" "k \<in> uncleared st"
    using True gget_in_keys[of "st_resolved st" k] by (simp_all add: uncleared_def)
  have u: "uncleared (clear_member k st) = uncleared st - {k}" using True by (auto simp: uncleared_def clear_member_def)
  have "0 < card (uncleared st)" using k(2) card_gt_0_iff finite_uncleared by blast
  then have "int (card (uncleared st - {k})) = int (card (uncleared st)) - 1"
    using k(2) by (simp add: card_Diff_singleton of_nat_diff)
  then show ?thesis
    using assms True k u by (auto simp: storm_wf_def clear_member_def length_gput keys_gput)
qed (simp add: clear_member_def assms)

lemma clear_member_fields [simp]:
  "st_id (clear_member k st) = st_id st" "st_ancestor (clear_member k st) = st_ancestor st"
  "fst ` set (st_resolved (clear_member k st)) = fst ` set (st_resolved st)"
  using gget_in_keys[of "st_resolved st" k] by (auto simp: clear_member_def keys_gput)

subsection \<open>The books of the correlator\<close>

definition open_storm_ok :: "string \<times> stormState \<Rightarrow> bool" where
  "open_storm_ok x = (st_id (snd x) = fst x \<and> storm_wf (snd x) \<and> 0 < st_unresolved (snd x))"

definition indexed_ok :: "(string, stormState) gomap \<Rightarrow> EventKey \<times> string \<Rightarrow> bool" where
  "indexed_ok storms x =
     (case gget storms (snd x) of None \<Rightarrow> False | Some st \<Rightarrow> gget (st_resolved st) (fst x) \<noteq> None)"

definition pending_keys :: "pendingIncident list \<Rightarrow> EventKey list" where
  "pending_keys qs = map (sm_Key \<circ> pi_member) qs"

definition storm_ok :: "StormCorrelator \<Rightarrow> bool" where
  "storm_ok c =
     (0 < sc_window c \<and> 2 \<le> sc_min c \<and> (sc_mined c \<noteq> [] \<longrightarrow> sc_min c \<le> sc_minedMin c)
      \<and> gokeys (sc_storms c) \<and> gokeys (sc_byKey c) \<and> distinct (pending_keys (sc_pending c))
      \<and> (\<forall>x \<in> set (sc_storms c). open_storm_ok x)
      \<and> (\<forall>x \<in> set (sc_byKey c). indexed_ok (sc_storms c) x))"

lemma storm_okD:
  assumes "storm_ok c" and "gget (sc_storms c) sid = Some st"
  shows "st_id st = sid" "storm_wf st" "0 < st_unresolved st"
  using assms by (auto simp: storm_ok_def open_storm_ok_def dest!: map_of_SomeD)

lemma storm_ok_put:
  assumes ok: "storm_ok c" and st: "storm_wf st" "0 < st_unresolved st" "st_id st = sid"
    and keep: "\<And>st0. gget (sc_storms c) sid = Some st0 \<Longrightarrow> fst ` set (st_resolved st0) \<subseteq> fst ` set (st_resolved st)"
  shows "storm_ok (c\<lparr>sc_storms := gput sid st (sc_storms c)\<rparr>)"
proof -
  have "indexed_ok (gput sid st (sc_storms c)) x" if "x \<in> set (sc_byKey c)" for x
  proof -
    have "indexed_ok (sc_storms c) x" using ok that by (simp add: storm_ok_def)
    then obtain st0 where st0: "gget (sc_storms c) (snd x) = Some st0" "gget (st_resolved st0) (fst x) \<noteq> None"
      by (auto simp: indexed_ok_def split: option.splits)
    have "gget (st_resolved st) (fst x) \<noteq> None" if "snd x = sid"
      using keep[of st0] st0 that unfolding gget_in_keys by auto
    then show ?thesis using st0 by (simp add: indexed_ok_def)
  qed
  then show ?thesis
    using ok st by (auto simp: storm_ok_def open_storm_ok_def dest!: set_gput[THEN subsetD])
qed

lemma storm_ok_index:
  assumes "storm_ok c" and "gget (sc_storms c) sid = Some st" and "k \<in> fst ` set (st_resolved st)"
  shows "storm_ok (c\<lparr>sc_byKey := gput k sid (sc_byKey c)\<rparr>)"
proof -
  have "indexed_ok (sc_storms c) (k, sid)"
    using assms(2,3) gget_in_keys[of "st_resolved st" k] by (simp add: indexed_ok_def)
  then show ?thesis
    using assms(1) by (auto simp: storm_ok_def dest!: set_gput[THEN subsetD])
qed

lemma storm_ok_pending:
  "storm_ok c \<Longrightarrow> distinct (pending_keys ps) \<Longrightarrow> storm_ok (c\<lparr>sc_pending := ps\<rparr>)"
  by (simp add: storm_ok_def)

lemma close_ok:
  assumes "storm_ok c" shows "storm_ok (close_storm sid c)"
proof -
  have "indexed_ok (gdel sid (sc_storms c)) (k, owner)" if "(k, owner) \<in> set (sc_byKey c)" "owner \<noteq> sid" for k owner
    using assms that by (auto simp: storm_ok_def indexed_ok_def gget_gdel)
  then show ?thesis
    using assms by (auto simp: storm_ok_def close_storm_def dest: set_gdel[THEN subsetD])
qed

lemma prune_ok: "storm_ok c \<Longrightarrow> storm_ok (prune c now)"
proof -
  assume ok: "storm_ok c"
  have "distinct (pending_keys (filter P (sc_pending c)))" for P
    using ok by (simp add: storm_ok_def pending_keys_def distinct_map_filter)
  then show ?thesis
    unfolding prune_def Let_def
    by (intro foldl_invariant[where I = storm_ok]) (auto simp: ok close_ok storm_ok_pending)
qed

lemma prune_config [simp]:
  "sc_window (prune c now) = sc_window c" "sc_min (prune c now) = sc_min c"
  "sc_external (prune c now) = sc_external c" "sc_mined (prune c now) = sc_mined c"
  "sc_minedMin (prune c now) = sc_minedMin c"
  "sc_pending (prune c now) = filter (\<lambda>q. pi_at q > now - sc_window c) (sc_pending c)"
proof -
  let ?c1 = "c\<lparr>sc_pending := filter (\<lambda>q. pi_at q > now - sc_window c) (sc_pending c)\<rparr>"
  let ?I = "\<lambda>d. sc_window d = sc_window c \<and> sc_min d = sc_min c \<and> sc_external d = sc_external c
     \<and> sc_mined d = sc_mined c \<and> sc_minedMin d = sc_minedMin c \<and> sc_pending d = sc_pending ?c1"
  have "?I (prune c now)"
    unfolding prune_def Let_def
    by (rule foldl_invariant[where I = ?I]) (auto simp: close_storm_def)
  then show "sc_window (prune c now) = sc_window c" "sc_min (prune c now) = sc_min c"
    "sc_external (prune c now) = sc_external c" "sc_mined (prune c now) = sc_mined c"
    "sc_minedMin (prune c now) = sc_minedMin c"
    "sc_pending (prune c now) = filter (\<lambda>q. pi_at q > now - sc_window c) (sc_pending c)" by simp_all
qed

subsection \<open>The window\<close>

lemma window_put_keys: "set (pending_keys (window_put p qs)) = insert (sm_Key (pi_member p)) (set (pending_keys qs))"
  by (induction qs) (auto simp: pending_keys_def)

lemma window_put_distinct: "distinct (pending_keys qs) \<Longrightarrow> distinct (pending_keys (window_put p qs))"
proof (induction qs)
  case (Cons q qs)
  then show ?case using window_put_keys[of p qs] by (auto simp: pending_keys_def)
qed (simp add: pending_keys_def)

lemma window_put_set: "set (window_put p qs) \<subseteq> insert p (set qs)"
  by (induction qs) auto

lemma window_put_mem: "p \<in> set (window_put p qs)"
  by (induction qs) auto

lemma window_put_new:
  "sm_Key (pi_member p) \<notin> set (pending_keys qs) \<Longrightarrow> window_put p qs = qs @ [p]"
  by (induction qs) (auto simp: pending_keys_def)

lemma pending_of_fields [simp]:
  "pi_at (pending_of now sig seen mv cands) = now"
  "pi_member (pending_of now sig seen mv cands) = storm_member now sig"
  "pi_severity (pending_of now sig seen mv cands) = sg_Severity sig"
  "pi_mined (pending_of now sig seen mv cands) = mv"
proof -
  let ?I = "\<lambda>p. pi_at p = now \<and> pi_member p = storm_member now sig \<and> pi_severity p = sg_Severity sig \<and> pi_mined p = mv"
  have "?I (pending_of now sig seen mv cands)"
    unfolding pending_of_def by (rule foldl_invariant[where I = ?I]) (auto simp: add_candidate_def Let_def)
  then show "pi_at (pending_of now sig seen mv cands) = now"
    "pi_member (pending_of now sig seen mv cands) = storm_member now sig"
    "pi_severity (pending_of now sig seen mv cands) = sg_Severity sig"
    "pi_mined (pending_of now sig seen mv cands) = mv" by simp_all
qed

definition keys_from :: "(Ancestor \<times> string) list \<Rightarrow> pendingIncident \<Rightarrow> bool" where
  "keys_from cands p =
     ((\<forall>k. k \<in> set (pi_order p) \<longleftrightarrow> gget (pi_keys p) k \<noteq> None)
      \<and> (\<forall>k a. gget (pi_keys p) k = Some a \<longrightarrow>
           Ancestor_Key a = k \<and> (\<exists>src. (a, src) \<in> set cands \<and> gget (pi_source p) k = Some src)))"

lemma pending_of_keys: "keys_from cands (pending_of now sig seen mv cands)"
  unfolding pending_of_def
proof (rule foldl_invariant[where I = "keys_from cands"])
  fix p :: pendingIncident and cand
  assume c: "cand \<in> set cands" and p: "keys_from cands p"
  show "keys_from cands (add_candidate p cand)"
    using c p by (cases cand) (auto simp: keys_from_def add_candidate_def Let_def)
qed (simp add: keys_from_def)

lemma pending_of_has:
  "(a, src) \<in> set cands \<Longrightarrow> gget (pi_keys (pending_of now sig seen mv cands)) (Ancestor_Key a) \<noteq> None"
proof -
  assume a: "(a, src) \<in> set cands"
  have "gget (pi_keys (foldl add_candidate p cands)) (Ancestor_Key a) \<noteq> None" for p
    using a
  proof (induction cands arbitrary: p)
    case (Cons x cands)
    have mono: "gget (pi_keys (foldl add_candidate p ys)) k \<noteq> None" if "gget (pi_keys p) k \<noteq> None" for p k ys
      by (rule foldl_invariant[where I = "\<lambda>p. gget (pi_keys p) k \<noteq> None"])
         (use that in \<open>auto simp: add_candidate_def Let_def\<close>)
    show ?case
    proof (cases "x = (a, src)")
      case True
      then have "gget (pi_keys (add_candidate p x)) (Ancestor_Key a) \<noteq> None" by (auto simp: add_candidate_def Let_def)
      then show ?thesis using mono[of "add_candidate p x" "Ancestor_Key a" cands] by simp
    next
      case False
      then show ?thesis using Cons by simp
    qed
  qed simp
  then show ?thesis by (simp add: pending_of_def)
qed

subsection \<open>Formation\<close>

lemma form_member_fields [simp]:
  "st_id (form_member q st) = st_id st" "st_ancestor (form_member q st) = st_ancestor st"
  "st_resolved (form_member q st) = gput (sm_Key (pi_member q)) False (st_resolved st)"
  "st_memberCount (form_member q st) = Suc (st_memberCount st)"
  "st_lastActive (form_member q st) = st_lastActive st" "st_idleTTL (form_member q st) = st_idleTTL st"
  "st_members (form_member q st) = st_members (arm_member (pi_member q) st)"
  "storm_wf (form_member q st) = storm_wf (arm_member (pi_member q) st)"
  by (simp_all add: form_member_def Let_def split del: if_split)

lemma form_fold:
  assumes "storm_wf st" and "distinct (pending_keys grp)"
    and "set (pending_keys grp) \<inter> fst ` set (st_resolved st) = {}"
  shows "storm_wf (foldl (\<lambda>st q. form_member q st) st grp)
       \<and> st_id (foldl (\<lambda>st q. form_member q st) st grp) = st_id st
       \<and> st_ancestor (foldl (\<lambda>st q. form_member q st) st grp) = st_ancestor st
       \<and> st_lastActive (foldl (\<lambda>st q. form_member q st) st grp) = st_lastActive st
       \<and> st_idleTTL (foldl (\<lambda>st q. form_member q st) st grp) = st_idleTTL st
       \<and> (\<forall>k. gget (st_resolved (foldl (\<lambda>st q. form_member q st) st grp)) k =
            (if k \<in> set (pending_keys grp) then Some False else gget (st_resolved st) k))"
  using assms
proof (induction grp arbitrary: st)
  case (Cons q grp)
  have "storm_wf (form_member q st)" using Cons.prems arm_member_wf by (auto simp: pending_keys_def)
  moreover have "set (pending_keys grp) \<inter> fst ` set (st_resolved (form_member q st)) = {}"
    using Cons.prems by (auto simp: keys_gput pending_keys_def)
  ultimately show ?case
    using Cons.IH[of "form_member q st"] Cons.prems(2) by (auto simp: pending_keys_def)
qed (simp add: pending_keys_def)

definition formed_storm :: "Ancestor \<Rightarrow> pendingIncident list \<Rightarrow> stormState \<Rightarrow> bool" where
  "formed_storm a grp st =
     (storm_wf st \<and> st_id st = Ancestor_Key a \<and> st_ancestor st = a
      \<and> (\<forall>k. gget (st_resolved st) k = (if k \<in> set (pending_keys grp) then Some False else None)))"

lemma form_storm:
  assumes "distinct (pending_keys grp)"
  shows "formed_storm a grp (fst (form c a src grp now))
       \<and> st_lastActive (fst (form c a src grp now)) = now
       \<and> st_idleTTL (fst (form c a src grp now)) = (if src = KeySourceSimultaneity then simultaneityIdleTTL else stormIdleTTL)"
proof -
  let ?q = "hd grp"
  let ?st0 = "\<lparr>st_id = Ancestor_Key a, st_ancestor = a,
      st_fingerprint = Fingerprint KindStorm (ek_Reason (sm_Key (pi_member ?q))) (an_Kind a) (pi_zone ?q),
      st_reason = ek_Reason (sm_Key (pi_member ?q)), st_keySource = src, st_sessionID = '''',
      st_maxSeverity = SeverityInfo, st_firstSeen = sm_FirstSeen (pi_member ?q),
      st_lastSeen = pi_seen ?q, st_lastActive = now, st_members = [], st_memberCount = 0,
      st_namespaces = [], st_fingerprints = [], st_resolved = [], st_unresolved = 0,
      st_idleTTL = (if src = KeySourceSimultaneity then simultaneityIdleTTL else stormIdleTTL),
      st_reportedCount = 0, st_reportedAt = 0\<rparr>"
  have "storm_wf ?st0" by (simp add: storm_wf_def uncleared_def)
  from form_fold[OF this assms] show ?thesis
    by (simp add: form_def Let_def formed_storm_def cong: if_cong split del: if_split)
qed

lemma formed_uncleared: "formed_storm a grp st \<Longrightarrow> uncleared st = set (pending_keys grp)"
  by (auto simp: formed_storm_def uncleared_def split: if_splits)

lemma formed_keys: "formed_storm a grp st \<Longrightarrow> fst ` set (st_resolved st) = set (pending_keys grp)"
proof (rule set_eqI)
  fix k
  assume "formed_storm a grp st"
  then have "gget (st_resolved st) k \<noteq> None \<longleftrightarrow> k \<in> set (pending_keys grp)"
    by (simp add: formed_storm_def del: not_None_eq)
  then show "k \<in> fst ` set (st_resolved st) \<longleftrightarrow> k \<in> set (pending_keys grp)" by (simp only: gget_in_keys)
qed

lemma formed_count:
  assumes "formed_storm a grp st" and "distinct (pending_keys grp)"
  shows "st_memberCount st = length grp \<and> st_unresolved st = int (length grp)"
proof -
  have "card (set (pending_keys grp)) = length grp" 
    using distinct_card[OF assms(2)] by (simp add: pending_keys_def)
  moreover have "length (st_resolved st) = card (fst ` set (st_resolved st))"
    using assms(1) by (intro length_keys) (simp add: formed_storm_def storm_wf_def)
  ultimately show ?thesis
    using assms(1) formed_uncleared[OF assms(1)] formed_keys[OF assms(1)]
    by (simp add: formed_storm_def storm_wf_def)
qed

lemma form_byKey:
  "gget (foldl (\<lambda>m q. gput (sm_Key (pi_member q)) sid m) bk grp) k =
     (if k \<in> set (pending_keys grp) then Some sid else gget bk k)"
  by (induction grp arbitrary: bk) (auto simp: pending_keys_def)

lemma form_byKey_ok: "gokeys bk \<Longrightarrow> gokeys (foldl (\<lambda>m q. gput (sm_Key (pi_member q)) sid m) bk grp)"
  by (induction grp arbitrary: bk) auto

lemma form_keySource: "st_keySource (fst (form c a src grp now)) = src"
proof -
  have "st_keySource (foldl (\<lambda>st q. form_member q st) st grp) = st_keySource st" for st
    by (induction grp arbitrary: st) (simp_all add: form_member_def arm_member_def Let_def)
  then show ?thesis by (simp add: form_def Let_def)
qed

lemma form_correlator:
  "snd (form c a src grp now) =
     c\<lparr>sc_byKey := foldl (\<lambda>m q. gput (sm_Key (pi_member q)) (st_id (fst (form c a src grp now))) m) (sc_byKey c) grp,
       sc_pending := filter (\<lambda>q. sm_Key (pi_member q) \<notin> set (pending_keys grp)) (sc_pending c),
       sc_storms := gput (st_id (fst (form c a src grp now))) (fst (form c a src grp now)) (sc_storms c)\<rparr>"
  by (simp add: form_def Let_def pending_keys_def)

lemma form_ok:
  assumes ok: "storm_ok c" and d: "distinct (pending_keys grp)" and ne: "grp \<noteq> []"
    and fresh: "gget (sc_storms c) (Ancestor_Key a) = None"
  shows "storm_ok (snd (form c a src grp now))"
proof -
  let ?st = "fst (form c a src grp now)" and ?sid = "Ancestor_Key a"
  have f: "formed_storm a grp ?st" using form_storm[OF d] by blast
  have wf: "storm_wf ?st" "st_id ?st = ?sid" "0 < st_unresolved ?st"
    using f formed_count[OF f d] ne by (simp_all add: formed_storm_def)
  have ok1: "storm_ok (c\<lparr>sc_storms := gput ?sid ?st (sc_storms c)\<rparr>)"
    by (rule storm_ok_put[OF ok wf(1,3,2)]) (simp add: fresh)
  have ok2: "storm_ok (c\<lparr>sc_storms := gput ?sid ?st (sc_storms c),
      sc_byKey := foldl (\<lambda>m q. gput (sm_Key (pi_member q)) ?sid m) (sc_byKey c) ys\<rparr>)"
    if "set ys \<subseteq> set grp" for ys
    using that
  proof (induction ys rule: rev_induct)
    case (snoc q ys)
    have "sm_Key (pi_member q) \<in> fst ` set (st_resolved ?st)"
      using snoc.prems formed_keys[OF f] by (auto simp: pending_keys_def)
    then show ?case
      using storm_ok_index[OF snoc.IH, of ?sid ?st "sm_Key (pi_member q)"] snoc.prems by simp
  qed (use ok1 in simp)
  have "distinct (pending_keys (filter P (sc_pending c)))" for P
    using ok by (simp add: storm_ok_def pending_keys_def distinct_map_filter)
  from storm_ok_pending[OF ok2[OF subset_refl] this] show ?thesis
    by (subst form_correlator) (simp add: wf(2) storm_ok_def)
qed

subsection \<open>The choice of a key\<close>

lemma sm_Key_storm_member [simp]: "sm_Key (storm_member now sig) = CanonicalKey sig"
  by (simp add: storm_member_def)

lemma find_storm_None: "find_storm storms as = None \<Longrightarrow> a \<in> set as \<Longrightarrow> gget storms (Ancestor_Key a) = None"
  by (auto simp: find_storm_def find_None_iff split: option.splits dest!: find_Some_iff[THEN iffD1])

lemma find_storm_Some:
  "find_storm storms as = Some st \<Longrightarrow> \<exists>a \<in> set as. gget storms (Ancestor_Key a) = Some st"
  by (auto simp: find_storm_def split: option.splits dest!: find_Some_iff[THEN iffD1] intro!: bexI[OF _ nth_mem])

lemma key_rule_min:
  "key_rule c fleet src = Some (m, w) \<Longrightarrow> sc_min c \<le> m"
  by (auto simp: key_rule_def simultaneityMin_def Let_def split: if_splits option.splits)

lemma declared_key_Some:
  "declared_key c fleet now p ks = Some (a, src, grp) \<Longrightarrow>
     \<exists>k m w. k \<in> set ks \<and> a = the (gget (pi_keys p) k) \<and> src = the (gget (pi_source p) k)
       \<and> key_rule c fleet src = Some (m, w) \<and> grp = key_group c now w k \<and> m \<le> length grp"
proof (induction ks)
  case (Cons k ks)
  show ?case
  proof (cases "\<exists>m w. key_rule c fleet (the (gget (pi_source p) k)) = Some (m, w) \<and> m \<le> length (key_group c now w k)")
    case True
    then show ?thesis using Cons.prems by force
  next
    case False
    then have "declared_key c fleet now p ks = Some (a, src, grp)"
      using Cons.prems by (auto split: option.splits if_splits)
    then show ?thesis using Cons.IH by auto
  qed
qed simp

lemma mine_dims_Some:
  "mine_dims c p ds = Some (a, dn, grp) \<Longrightarrow>
     \<exists>d v. d \<in> set ds \<and> gget (pi_mined p) (md_Name d) = Some v \<and> v \<noteq> [] \<and> dn = md_Name d
       \<and> a = \<lparr>an_Kind = md_Kind d, an_Namespace = [], an_Name = v\<rparr>
       \<and> grp = filter (\<lambda>q. gget (pi_mined q) (md_Name d) = Some v) (sc_pending c) \<and> sc_minedMin c \<le> length grp"
proof (induction ds)
  case (Cons d ds)
  show ?case
  proof (cases "\<exists>v. gget (pi_mined p) (md_Name d) = Some v \<and> v \<noteq> []
      \<and> sc_minedMin c \<le> length (filter (\<lambda>q. gget (pi_mined q) (md_Name d) = Some v) (sc_pending c))")
    case True
    then show ?thesis using Cons.prems by (intro exI[of _ d]) (auto simp: Let_def)
  next
    case False
    then have "mine_dims c p ds = Some (a, dn, grp)"
      using Cons.prems by (auto simp: Let_def split: option.splits if_splits)
    then show ?thesis using Cons.IH by auto
  qed
qed simp

lemma minedAncestors_mem:
  "d \<in> set ds \<Longrightarrow> gget vals (md_Name d) = Some v \<Longrightarrow> v \<noteq> '''' \<Longrightarrow>
     \<lparr>an_Kind = md_Kind d, an_Namespace = '''', an_Name = v\<rparr> \<in> set (minedAncestors ds vals)"
  by (force simp: minedAncestors_def List.map_filter_def)

text \<open>
  The three ways an observation ends: it joins an open storm, it opens one over a group of windowed
  incidents that share a key no open storm has, or it only enters the window.
\<close>

definition shared_key :: "StormCorrelator \<Rightarrow> int option \<Rightarrow> gotime \<Rightarrow> Ancestor \<Rightarrow> string \<Rightarrow> pendingIncident list \<Rightarrow> pendingIncident list \<Rightarrow> bool" where
  "shared_key c fleet now a src windowed grp \<longleftrightarrow>
     (\<exists>m w. (if src = KeySourceSimultaneity then simultaneityMin c fleet = Some m \<and> w = simultaneityWindow
             else m = sc_min c \<and> w = sc_window c)
        \<and> m \<le> length grp \<and> grp = filter (\<lambda>q. gget (pi_keys q) (Ancestor_Key a) \<noteq> None \<and> now - w < pi_at q) windowed)
     \<or> (\<exists>d \<in> set (sc_mined c). src = MinedKeySource (md_Name d)
        \<and> a = \<lparr>an_Kind = md_Kind d, an_Namespace = [], an_Name = an_Name a\<rparr> \<and> an_Name a \<noteq> []
        \<and> sc_minedMin c \<le> length grp \<and> grp = filter (\<lambda>q. gget (pi_mined q) (md_Name d) = Some (an_Name a)) windowed)"

lemma observe_cases:
  fixes c0 resolver fleet now sig
  defines "c \<equiv> prune c0 now"
    and "cands \<equiv> storm_candidates (prune c0 now) resolver fleet sig"
    and "mv \<equiv> minedValues (sc_mined (prune c0 now)) sig"
    and "seen \<equiv> (if IsZero (te_LastSeen sig) then now else te_LastSeen sig)"
  defines "p \<equiv> pending_of now sig seen mv cands"
  defines "c1 \<equiv> c\<lparr>sc_pending := window_put p (sc_pending c)\<rparr>"
  assumes ok: "storm_ok c0"
  obtains (attached) st a where "a \<in> set (map fst cands @ minedAncestors (sc_mined c) mv)"
      "gget (sc_storms c) (Ancestor_Key a) = Some st" "st_id st = Ancestor_Key a"
      "Observe_storm c0 resolver fleet now sig =
         (let st1 = addMember (storm_member now sig) (sg_Severity sig) seen now st; upd = maybeSizeUpdate now st1
          in (StormAttached (storm_info st1) (storm_member now sig) (fst upd),
              c\<lparr>sc_byKey := gput (CanonicalKey sig) (st_id st) (sc_byKey c), sc_storms := gput (st_id st) (snd upd) (sc_storms c)\<rparr>))"
  | (formed) a src grp where "gget (sc_storms c) (Ancestor_Key a) = None" "sc_min c \<le> length grp"
      "set grp \<subseteq> set (sc_pending c1)" "distinct (pending_keys grp)" "shared_key c fleet now a src (sc_pending c1) grp" "p \<in> set grp"
      "Observe_storm c0 resolver fleet now sig = Storm.formed (storm_member now sig) (form c1 a src grp now)"
  | (windowed) "Observe_storm c0 resolver fleet now sig = (StormNone, c1)"
  | (unkeyed) "Observe_storm c0 resolver fleet now sig = (StormNone, c)"
proof -
  have okc: "storm_ok c" unfolding c_def by (rule prune_ok[OF ok])
  have d1: "distinct (pending_keys (sc_pending c1))"
    unfolding c1_def using okc window_put_distinct by (simp add: storm_ok_def)
  have dg: "distinct (pending_keys (filter P (sc_pending c1)))" for P
    using d1 by (simp add: pending_keys_def distinct_map_filter)
  show thesis
  proof (cases "find_storm (sc_storms c) (map fst cands @ minedAncestors (sc_mined c) mv)")
    case (Some st)
    then obtain a where a: "a \<in> set (map fst cands @ minedAncestors (sc_mined c) mv)"
      "gget (sc_storms c) (Ancestor_Key a) = Some st" using find_storm_Some by blast
    have "st_id st = Ancestor_Key a" by (rule storm_okD(1)[OF okc a(2)])
    with a show thesis
    proof (rule attached)
      show "Observe_storm c0 resolver fleet now sig =
         (let st1 = addMember (storm_member now sig) (sg_Severity sig) seen now st; upd = maybeSizeUpdate now st1
          in (StormAttached (storm_info st1) (storm_member now sig) (fst upd),
              c\<lparr>sc_byKey := gput (CanonicalKey sig) (st_id st) (sc_byKey c), sc_storms := gput (st_id st) (snd upd) (sc_storms c)\<rparr>))"
        using Some unfolding c_def cands_def mv_def seen_def
        by (simp only: Observe_storm_def Let_def option.case sm_Key_storm_member addMember_id)
    qed
  next
    case None
    note fresh = find_storm_None[OF None]
    have obs: "Observe_storm c0 resolver fleet now sig =
        (if cands = [] \<and> mv = [] then (StormNone, c)
         else case declared_key c1 fleet now p (pi_order p) of
                Some (a, source, grp) \<Rightarrow> Storm.formed (storm_member now sig) (form c1 a source grp now)
              | None \<Rightarrow>
                  (case mineKey c1 p of
                     Some (a, dn, grp) \<Rightarrow> Storm.formed (storm_member now sig) (form c1 a (MinedKeySource dn) grp now)
                   | None \<Rightarrow> (StormNone, c1)))"
      using None unfolding c_def cands_def mv_def seen_def p_def c1_def
      by (simp only: Observe_storm_def Let_def option.case sm_Key_storm_member addMember_id)
    show thesis
    proof (cases "cands = [] \<and> mv = []")
      case False
      note keyed = False
      show thesis
      proof (cases "declared_key c1 fleet now p (pi_order p)")
        case (Some r)
        obtain a src grp where r: "r = (a, src, grp)" by (cases r)
        obtain k m w where k: "k \<in> set (pi_order p)" "a = the (gget (pi_keys p) k)" "src = the (gget (pi_source p) k)"
          "key_rule c1 fleet src = Some (m, w)" "grp = key_group c1 now w k" "m \<le> length grp"
          using declared_key_Some[OF Some[unfolded r]] by blast
        have kf: "keys_from cands p" unfolding p_def by (rule pending_of_keys)
        have "gget (pi_keys p) k = Some a" using kf k(1,2) by (auto simp: keys_from_def)
        moreover from this obtain src' where "Ancestor_Key a = k" "(a, src') \<in> set cands"
          using kf unfolding keys_from_def by blast
        ultimately have a: "gget (pi_keys p) k = Some a" "Ancestor_Key a = k" "a \<in> fst ` set cands" by force+
        have w: "0 < w" using k(4) okc by (auto simp: key_rule_def c1_def storm_ok_def simultaneityWindow_def dur_defs split: if_splits)
        show thesis
        proof (rule formed[of a grp src])
          show "gget (sc_storms c) (Ancestor_Key a) = None" using fresh a(3) by simp
          show "sc_min c \<le> length grp" using key_rule_min[OF k(4)] k(6) by (simp add: c1_def)
          show "set grp \<subseteq> set (sc_pending c1)" by (auto simp: k(5) key_group_def)
          show "distinct (pending_keys grp)" by (simp add: k(5) key_group_def dg)
          show "shared_key c fleet now a src (sc_pending c1) grp"
            using k(4,6) by (auto simp: shared_key_def k(5) key_group_def a(2) key_rule_def c1_def simultaneityMin_def
              split: if_splits option.splits)
          show "p \<in> set grp" using a w window_put_mem[of p "sc_pending c"] by (simp add: k(5) key_group_def c1_def p_def)
          show "Observe_storm c0 resolver fleet now sig = Storm.formed (storm_member now sig) (form c1 a src grp now)"
            using obs keyed Some r by auto
        qed
      next
        case None
        note undeclared = None
        show thesis
        proof (cases "mineKey c1 p")
          case None
          then show thesis using windowed obs keyed undeclared by auto
        next
          case (Some r)
          obtain a dn grp where r: "r = (a, dn, grp)" by (cases r)
          obtain d v where dn: "dn = md_Name d" and d: "d \<in> set (sc_mined c)" "gget (pi_mined p) (md_Name d) = Some v" "v \<noteq> []"
            "a = \<lparr>an_Kind = md_Kind d, an_Namespace = [], an_Name = v\<rparr>"
            "grp = filter (\<lambda>q. gget (pi_mined q) (md_Name d) = Some v) (sc_pending c1)" "sc_minedMin c1 \<le> length grp"
            using mine_dims_Some[of c1 p "sc_mined c1" a dn grp] Some r by (auto simp: mineKey_def c1_def)
          show thesis
          proof (rule formed[of a grp "MinedKeySource dn"])
            show "gget (sc_storms c) (Ancestor_Key a) = None"
              using fresh minedAncestors_mem[OF d(1) _ d(3), of mv] d(2,4) by (simp add: p_def)
            have "sc_mined c \<noteq> []" using d(1) by auto
            then show "sc_min c \<le> length grp" using okc d(6) by (simp add: storm_ok_def c1_def)
            show "set grp \<subseteq> set (sc_pending c1)" by (auto simp: d(5))
            show "distinct (pending_keys grp)" by (simp add: d(5) dg)
            show "shared_key c fleet now a (MinedKeySource dn) (sc_pending c1) grp"
              using d dn by (auto simp: shared_key_def c1_def)
            show "p \<in> set grp" using d(2,5) window_put_mem[of p "sc_pending c"] by (simp add: c1_def)
            show "Observe_storm c0 resolver fleet now sig = Storm.formed (storm_member now sig) (form c1 a (MinedKeySource dn) grp now)"
              using obs keyed undeclared Some r by auto
          qed
        qed
      qed
    qed (use unkeyed obs in simp)
  qed
qed

end
