(* ===== verification/StormHistory.thy ===== *)
theory StormHistory
  imports StormLaws
begin

section \<open>Storms over time\<close>

text \<open>
  Histories of correlator operations. Each step carries the time, the answers of the topology
  resolver and the fleet size at that step; the operations hold the correlator's lock, so a history
  is a sequence of whole operations. A configuration call that fails leaves the correlator alone.
\<close>

datatype storm_op =
    OpStormObserve Signal
  | OpNoteMemberSession EventKey string
  | OpNoteMemberActivity EventKey gotime
  | OpBindStormSession string string
  | OpClearStormSession string string
  | OpMemberResolved EventKey
  | OpMemberReverted EventKey
  | OpEnableMining "MinedDimension list" int

type_synonym storm_step = "gotime \<times> AncestorResolver \<times> int option \<times> storm_op"

fun storm_exec :: "storm_step \<Rightarrow> StormCorrelator \<Rightarrow> StormCorrelator" where
  "storm_exec (now, resolver, fleet, OpStormObserve sig) c = snd (Observe_storm c resolver fleet now sig)"
| "storm_exec (now, resolver, fleet, OpNoteMemberSession key sid) c = NoteMemberSession c key sid"
| "storm_exec (now, resolver, fleet, OpNoteMemberActivity key seen) c = NoteMemberActivity c now key seen"
| "storm_exec (now, resolver, fleet, OpBindStormSession sid session) c = BindStormSession c sid session"
| "storm_exec (now, resolver, fleet, OpClearStormSession fp dead) c = snd (ClearStormSession c fp dead)"
| "storm_exec (now, resolver, fleet, OpMemberResolved key) c = snd (MemberResolved c key)"
| "storm_exec (now, resolver, fleet, OpMemberReverted key) c = MemberReverted c now key"
| "storm_exec (now, resolver, fleet, OpEnableMining dims m) c = (case EnableMining c dims m of Inl _ \<Rightarrow> c | Inr c' \<Rightarrow> c')"

definition storm_run :: "StormCorrelator \<Rightarrow> storm_step list \<Rightarrow> StormCorrelator" where
  "storm_run c h = foldl (\<lambda>c s. storm_exec s c) c h"

subsection \<open>The invariant\<close>

lemma window_ok:
  "storm_ok c \<Longrightarrow> storm_ok (c\<lparr>sc_pending := window_put p (sc_pending c)\<rparr>)"
  by (rule storm_ok_pending) (auto simp: storm_ok_def window_put_distinct)

lemma Observe_ok:
  assumes "storm_ok c" shows "storm_ok (snd (Observe_storm c resolver fleet now sig))"
  using assms
proof (cases rule: observe_cases[of c now resolver fleet sig])
  case (attached st a)
  let ?c = "prune c now" and ?sid = "Ancestor_Key a"
  let ?seen = "if IsZero (te_LastSeen sig) then now else te_LastSeen sig"
  let ?st1 = "addMember (storm_member now sig) (sg_Severity sig) ?seen now st"
  let ?st = "snd (maybeSizeUpdate now ?st1)"
  have okc: "storm_ok ?c" by (rule prune_ok[OF assms])
  have st: "storm_wf st" "0 < st_unresolved st" using storm_okD[OF okc attached(2)] by simp_all
  have wf: "storm_wf ?st" using addMember_wf[OF st(1)] by simp
  have res: "fst ` set (st_resolved ?st) = insert (CanonicalKey sig) (fst ` set (st_resolved st))"
    using gget_in_keys[of "st_resolved st" "CanonicalKey sig"]
    by (auto simp: addMember_resolved keys_gput split del: if_split split: if_splits)
  have "uncleared st \<subseteq> uncleared ?st" by (auto simp: uncleared_def addMember_resolved)
  then have "card (uncleared st) \<le> card (uncleared ?st)" by (rule card_mono[OF finite_uncleared])
  then have pos: "0 < st_unresolved ?st" using st wf by (simp add: storm_wf_def)
  have "storm_ok (?c\<lparr>sc_storms := gput ?sid ?st (sc_storms ?c)\<rparr>)"
    by (rule storm_ok_put[OF okc wf pos]) (use attached(2,3) res in auto)
  from storm_ok_index[OF this, of ?sid ?st "CanonicalKey sig"] res
  show ?thesis using attached(3,4) by (simp add: storm_ok_def Let_def split del: if_split)
next
  case (formed a src grp)
  have "grp \<noteq> []" using formed(6) by auto
  then show ?thesis
    using formed form_ok[OF window_ok[OF prune_ok[OF assms]] formed(4), where a = a] by (simp add: Storm.formed_def)
next
  case windowed
  then show ?thesis using window_ok[OF prune_ok[OF assms]] by simp
next
  case unkeyed
  then show ?thesis using prune_ok[OF assms] by simp
qed

lemma session_keys: "pending_keys (set_member_session key sid qs) = pending_keys qs"
  by (induction qs) (auto simp: pending_keys_def)

lemma put_same_ok:
  assumes "storm_ok c" and "gget (sc_storms c) sid = Some st" and "st_resolved st' = st_resolved st"
    and "storm_wf st' = storm_wf st" and "st_id st' = st_id st" and "st_unresolved st' = st_unresolved st"
  shows "storm_ok (c\<lparr>sc_storms := gput sid st' (sc_storms c)\<rparr>)"
  by (rule storm_ok_put) (use assms storm_okD[OF assms(1,2)] in auto)

lemma Activity_ok: "storm_ok c \<Longrightarrow> storm_ok (NoteMemberActivity c now key seen)"
  by (auto simp: NoteMemberActivity_def owner_storm_def storm_okD(1) intro!: put_same_ok split: option.splits)

lemma Bind_ok: "storm_ok c \<Longrightarrow> storm_ok (BindStormSession c sid session)"
  by (cases "gget (sc_storms c) sid") (auto simp: BindStormSession_def gmod_def intro!: put_same_ok)

lemma find_mem: "List.find P xs = Some x \<Longrightarrow> x \<in> set xs"
  by (induction xs) (auto split: if_splits)

lemma clear_session_wf: "storm_wf (clear_session dead st) = storm_wf st"
  by (rule storm_wf_cong) (auto simp: clear_session_def)

lemma Clear_ok: "storm_ok c \<Longrightarrow> storm_ok (snd (ClearStormSession c fp dead))"
proof (cases "List.find (\<lambda>(sid, st). fp \<noteq> '''' \<and> st_fingerprint st = fp \<or> dead \<noteq> '''' \<and> st_sessionID st = dead) (sc_storms c)")
  case (Some x)
  assume ok: "storm_ok c"
  obtain sid st where x: "x = (sid, st)" by (cases x)
  have "(sid, st) \<in> set (sc_storms c)" using find_mem[OF Some] x by simp
  then have "gget (sc_storms c) sid = Some st" using ok by (simp add: storm_ok_def)
  from put_same_ok[OF ok this, of "clear_session dead st"] show ?thesis
    using Some x clear_session_wf[of dead st] by (simp add: ClearStormSession_def) (simp add: clear_session_def)
qed (simp add: ClearStormSession_def)

lemma Resolved_ok: "storm_ok c \<Longrightarrow> storm_ok (snd (MemberResolved c key0))"
proof -
  assume ok: "storm_ok c"
  let ?key = "canon_key key0"
  show ?thesis
  proof (cases "gget (sc_byKey c) ?key")
    case (Some sid)
    then have "indexed_ok (sc_storms c) (?key, sid)" using ok map_of_SomeD by (fastforce simp: storm_ok_def)
    then obtain st where st: "gget (sc_storms c) sid = Some st" by (auto simp: indexed_ok_def split: option.splits)
    let ?st = "clear_member ?key st"
    have wf: "storm_wf ?st" "st_id ?st = sid" using clear_member_wf storm_okD[OF ok st] by simp_all
    show ?thesis
    proof (cases "0 < st_unresolved ?st")
      case True
      then show ?thesis
        using Some st storm_ok_put[OF ok wf(1) True wf(2)] by (simp add: MemberResolved_def Let_def)
    next
      case False
      have "close_storm sid (c\<lparr>sc_storms := gput sid ?st (sc_storms c)\<rparr>) = close_storm sid c"
        by (simp add: close_storm_def delete_update_same)
      then show ?thesis using Some st False close_ok[OF ok] by (simp add: MemberResolved_def Let_def)
    qed
  qed (simp add: MemberResolved_def Let_def ok)
qed

lemma Reverted_ok: "storm_ok c \<Longrightarrow> storm_ok (MemberReverted c now key0)"
proof -
  assume ok: "storm_ok c"
  let ?key = "canon_key key0"
  show ?thesis
  proof (cases "\<exists>sid st. gget (sc_byKey c) ?key = Some sid \<and> gget (sc_storms c) sid = Some st \<and> gget (st_resolved st) ?key = Some True")
    case True
    then obtain sid st where s: "gget (sc_byKey c) ?key = Some sid" "gget (sc_storms c) sid = Some st"
      "gget (st_resolved st) ?key = Some True" by blast
    note okD = storm_okD[OF ok s(2)]
    let ?st = "st\<lparr>st_resolved := gput ?key False (st_resolved st), st_unresolved := st_unresolved st + 1, st_lastActive := now\<rparr>"
    have "storm_wf ?st" using re_arm_wf[OF okD(2) s(3)] by simp
    from storm_ok_put[OF ok this, of sid] show ?thesis
      using s okD by (auto simp: MemberReverted_def Let_def keys_gput)
  next
    case False
    then have "MemberReverted c now key0 = c" by (auto simp: MemberReverted_def Let_def split: option.splits)
    then show ?thesis using ok by simp
  qed
qed

lemma Mining_ok: "storm_ok c \<Longrightarrow> EnableMining c dims m = Inr c' \<Longrightarrow> storm_ok c'"
  by (auto simp: EnableMining_def storm_ok_def split: if_splits option.splits)

lemma storm_exec_ok: "storm_ok c \<Longrightarrow> storm_ok (storm_exec s c)"
proof -
  assume ok: "storm_ok c"
  obtain now resolver fleet op where s: "s = (now, resolver, fleet, op)" by (cases s)
  show ?thesis
    by (cases op)
       (auto simp: s ok Observe_ok Activity_ok Bind_ok Clear_ok Resolved_ok Reverted_ok NoteMemberSession_def
          session_keys storm_ok_pending[OF ok] ok[unfolded storm_ok_def] Mining_ok[OF ok] split: sum.split)
qed

lemma storm_run_ok: "storm_ok c \<Longrightarrow> storm_ok (storm_run c h)"
  unfolding storm_run_def by (rule foldl_invariant[where I = storm_ok]) (auto simp: storm_exec_ok)

lemma New_ok: "NewStormCorrelator w m = Inr c \<Longrightarrow> storm_ok c"
  by (auto simp: NewStormCorrelator_def storm_ok_def pending_keys_def split: if_splits)

end
