(* ===== verification/StormBurst.thy ===== *)
theory StormBurst
  imports StormHistory
begin

section \<open>A burst is one storm\<close>

text \<open>
  The point of correlation: the incidents of one failure, arriving one by one, end in a single
  storm. A run observes signals in order and collects the verdicts.
\<close>

type_synonym arrivals = "(gotime \<times> Signal) list"

fun observe_all ::
  "StormCorrelator \<Rightarrow> AncestorResolver \<Rightarrow> int option \<Rightarrow> arrivals \<Rightarrow> StormVerdict list \<times> StormCorrelator" where
  "observe_all c resolver fleet [] = ([], c)"
| "observe_all c resolver fleet ((now, sig) # h) =
     (let r = Observe_storm c resolver fleet now sig;
          rest = observe_all (snd r) resolver fleet h
      in (fst r # fst rest, snd rest))"

lemma observe_all_append:
  "observe_all c resolver fleet (h1 @ h2) =
     (fst (observe_all c resolver fleet h1) @ fst (observe_all (snd (observe_all c resolver fleet h1)) resolver fleet h2),
      snd (observe_all (snd (observe_all c resolver fleet h1)) resolver fleet h2))"
  by (induction h1 arbitrary: c) (auto simp: Let_def)

lemma observe_all_length [simp]: "length (fst (observe_all c resolver fleet h)) = length h"
  by (induction h arbitrary: c) (auto simp: Let_def)

subsection \<open>The best candidate\<close>

text \<open>All signals of the burst have the ancestor \<open>a\<close> as their best candidate, from a declared source.\<close>

definition best_candidate :: "StormCorrelator \<Rightarrow> AncestorResolver \<Rightarrow> int option \<Rightarrow> Ancestor \<Rightarrow> Signal \<Rightarrow> bool" where
  "best_candidate c resolver fleet a sig =
     (case storm_candidates c resolver fleet sig of
        [] \<Rightarrow> False
      | (b, src) # _ \<Rightarrow> b = a \<and> src \<noteq> KeySourceSimultaneity)"

lemma candidates_config:
  "sc_external c' = sc_external c \<Longrightarrow> storm_candidates c' resolver fleet sig = storm_candidates c resolver fleet sig"
  by (simp add: storm_candidates_def)

lemma add_candidates_keep:
  assumes "pi_order p = k # ks" and "gget (pi_keys p) k = Some a" and "gget (pi_source p) k = Some src"
  shows "\<exists>ks'. pi_order (foldl add_candidate p cands) = k # ks'
     \<and> gget (pi_keys (foldl add_candidate p cands)) k = Some a
     \<and> gget (pi_source (foldl add_candidate p cands)) k = Some src"
proof (rule foldl_invariant[where I = "\<lambda>p. \<exists>ks'. pi_order p = k # ks' \<and> gget (pi_keys p) k = Some a \<and> gget (pi_source p) k = Some src"])
  fix p :: pendingIncident and x
  assume "\<exists>ks'. pi_order p = k # ks' \<and> gget (pi_keys p) k = Some a \<and> gget (pi_source p) k = Some src"
  then show "\<exists>ks'. pi_order (add_candidate p x) = k # ks' \<and> gget (pi_keys (add_candidate p x)) k = Some a
      \<and> gget (pi_source (add_candidate p x)) k = Some src"
    by (cases "gget (pi_keys p) (Ancestor_Key (fst x))") (auto simp: add_candidate_def Let_def)
qed (use assms in auto)

lemma pending_of_best:
  "\<exists>ks. pi_order (pending_of now sig seen mv ((a, src) # rest)) = Ancestor_Key a # ks
     \<and> gget (pi_keys (pending_of now sig seen mv ((a, src) # rest))) (Ancestor_Key a) = Some a
     \<and> gget (pi_source (pending_of now sig seen mv ((a, src) # rest))) (Ancestor_Key a) = Some src"
  unfolding pending_of_def foldl.simps by (rule add_candidates_keep) (simp_all add: add_candidate_def Let_def)

subsection \<open>Below the threshold\<close>

definition gathering ::
  "StormCorrelator \<Rightarrow> Ancestor \<Rightarrow> gotime \<Rightarrow> EventKey list \<Rightarrow> StormCorrelator \<Rightarrow> bool" where
  "gathering c0 a t1 ks c =
     (sc_window c = sc_window c0 \<and> sc_min c = sc_min c0 \<and> sc_external c = sc_external c0 \<and> sc_mined c = []
      \<and> sc_storms c = [] \<and> pending_keys (sc_pending c) = ks
      \<and> (\<forall>q \<in> set (sc_pending c). t1 \<le> pi_at q \<and> gget (pi_keys q) (Ancestor_Key a) \<noteq> None))"

lemma prune_quiet: "sc_storms c = [] \<Longrightarrow> \<forall>q \<in> set (sc_pending c). now - sc_window c < pi_at q \<Longrightarrow> prune c now = c"
  by (simp add: prune_def Let_def filter_id_conv)

lemma declared_too_few:
  "length (sc_pending c) < sc_min c \<Longrightarrow> declared_key c fleet now p ks = None"
proof (induction ks)
  case (Cons k ks)
  have "length (key_group c now w k) < m" if "key_rule c fleet src = Some (m, w)" for src m w
  proof -
    have "length (key_group c now w k) \<le> length (sc_pending c)" by (simp add: key_group_def)
    then show ?thesis using key_rule_min[OF that] Cons.prems by linarith
  qed
  then show ?case using Cons by (auto split: option.split)
qed simp

lemma gathering_observe:
  assumes g: "gathering c0 a t1 ks c" and b: "best_candidate c0 resolver fleet a sig"
    and t: "t1 \<le> now" "now < t1 + sc_window c0" and new: "CanonicalKey sig \<notin> set ks" and w: "0 < sc_window c0"
  defines "p \<equiv> pending_of now sig (if IsZero (te_LastSeen sig) then now else te_LastSeen sig) []
      (storm_candidates c0 resolver fleet sig)"
  defines "c1 \<equiv> c\<lparr>sc_pending := sc_pending c @ [p]\<rparr>"
  shows "gathering c0 a t1 (ks @ [CanonicalKey sig]) c1"
    and "Observe_storm c resolver fleet now sig =
       (case declared_key c1 fleet now p (pi_order p) of
          Some (b, source, grp) \<Rightarrow> formed (storm_member now sig) (form c1 b source grp now)
        | None \<Rightarrow> (StormNone, c1))"
    and "sc_min c0 \<le> Suc (length ks) \<Longrightarrow>
       \<exists>src. declared_key c1 fleet now p (pi_order p) = Some (a, src, sc_pending c1) \<and> src \<noteq> KeySourceSimultaneity"
proof -
  obtain src rest where cs: "storm_candidates c0 resolver fleet sig = (a, src) # rest" "src \<noteq> KeySourceSimultaneity"
    using b by (auto simp: best_candidate_def split: list.splits)
  have cand: "storm_candidates c resolver fleet sig = (a, src) # rest"
    using g cs candidates_config[of c c0] by (simp add: gathering_def)
  have cfg: "sc_window c = sc_window c0" "sc_min c = sc_min c0" "sc_mined c = []" "sc_storms c = []"
    using g by (simp_all add: gathering_def)
  have pr: "prune c now = c" using g t by (intro prune_quiet) (auto simp: gathering_def)
  have mv: "minedValues [] sig = []" by (simp add: minedValues_def)
  have wp: "window_put p (sc_pending c) = sc_pending c @ [p]"
    using g new by (intro window_put_new) (simp add: gathering_def p_def)
  obtain ks' where p: "pi_order p = Ancestor_Key a # ks'" "gget (pi_keys p) (Ancestor_Key a) = Some a"
      "gget (pi_source p) (Ancestor_Key a) = Some src"
    using pending_of_best[of now sig "if IsZero (te_LastSeen sig) then now else te_LastSeen sig" "[]" a src rest]
    unfolding p_def cs by blast
  show "gathering c0 a t1 (ks @ [CanonicalKey sig]) c1"
    using g t p(2) by (auto simp: gathering_def c1_def pending_keys_def p_def)
  show "Observe_storm c resolver fleet now sig =
       (case declared_key c1 fleet now p (pi_order p) of
          Some (b, source, grp) \<Rightarrow> formed (storm_member now sig) (form c1 b source grp now)
        | None \<Rightarrow> (StormNone, c1))"
  proof -
    have fs: "find_storm [] xs = None" for xs by (induction xs) (auto simp: find_storm_def)
    have mk: "mineKey (c\<lparr>sc_pending := qs\<rparr>) p = None" for qs by (simp add: mineKey_def cfg)
    have pe: "pending_of now sig (if IsZero (te_LastSeen sig) then now else te_LastSeen sig) [] ((a, src) # rest) = p"
      by (simp only: p_def cs)
    show ?thesis
      by (simp only: Observe_storm_def Let_def pr cand cfg mv fs option.case pe wp mk c1_def list.distinct simp_thms if_False)
  qed
  show "\<exists>src. declared_key c1 fleet now p (pi_order p) = Some (a, src, sc_pending c1) \<and> src \<noteq> KeySourceSimultaneity"
    if "sc_min c0 \<le> Suc (length ks)"
  proof -
    have "\<forall>q \<in> set (sc_pending c). gget (pi_keys q) (Ancestor_Key a) \<noteq> None \<and> now - sc_window c0 < pi_at q"
      using g t by (fastforce simp: gathering_def)
    then have "key_group c1 now (sc_window c0) (Ancestor_Key a) = sc_pending c1"
      using p(2) w by (simp add: key_group_def c1_def p_def filter_id_conv)
    moreover have "length (sc_pending c1) = Suc (length ks)"
      using g by (auto simp: gathering_def c1_def pending_keys_def)
    ultimately show ?thesis
      using that cs(2) cfg by (simp add: p key_rule_def) (simp add: c1_def)
  qed
qed

text \<open>The arrivals of a burst: new keys, one best candidate, all within a window of the first.\<close>

definition burst ::
  "StormCorrelator \<Rightarrow> AncestorResolver \<Rightarrow> int option \<Rightarrow> Ancestor \<Rightarrow> gotime \<Rightarrow> arrivals \<Rightarrow> bool" where
  "burst c0 resolver fleet a t1 h =
     (\<forall>(now, sig) \<in> set h. best_candidate c0 resolver fleet a sig \<and> t1 \<le> now \<and> now < t1 + sc_window c0)"

definition arrival_keys :: "arrivals \<Rightarrow> EventKey list" where
  "arrival_keys h = map (CanonicalKey \<circ> snd) h"

lemma gather_all:
  assumes "gathering c0 a t1 ks c" and "burst c0 resolver fleet a t1 h" and "distinct (ks @ arrival_keys h)"
    and "length ks + length h < sc_min c0" and "0 < sc_window c0"
  shows "set (fst (observe_all c resolver fleet h)) \<subseteq> {StormNone}
       \<and> gathering c0 a t1 (ks @ arrival_keys h) (snd (observe_all c resolver fleet h))"
  using assms
proof (induction h arbitrary: c ks)
  case (Cons x h)
  obtain now sig where x: "x = (now, sig)" by (cases x)
  have h: "best_candidate c0 resolver fleet a sig" "t1 \<le> now" "now < t1 + sc_window c0" "CanonicalKey sig \<notin> set ks"
    using Cons.prems(2,3) x by (auto simp: burst_def arrival_keys_def)
  let ?p = "pending_of now sig (if IsZero (te_LastSeen sig) then now else te_LastSeen sig) []
      (storm_candidates c0 resolver fleet sig)"
  let ?c1 = "c\<lparr>sc_pending := sc_pending c @ [?p]\<rparr>"
  note step = gathering_observe[OF Cons.prems(1) h Cons.prems(5)]
  have "length (sc_pending ?c1) = Suc (length ks)" "sc_min ?c1 = sc_min c0"
    using Cons.prems(1) by (auto simp: gathering_def pending_keys_def)
  then have "declared_key ?c1 fleet now ?p (pi_order ?p) = None"
    using Cons.prems(4) by (intro declared_too_few) simp
  then have obs: "Observe_storm c resolver fleet now sig = (StormNone, ?c1)" by (simp only: step(2) option.case)
  have "set (fst (observe_all ?c1 resolver fleet h)) \<subseteq> {StormNone}
      \<and> gathering c0 a t1 ((ks @ [CanonicalKey sig]) @ arrival_keys h) (snd (observe_all ?c1 resolver fleet h))"
    by (rule Cons.IH[OF step(1)]) (use Cons.prems in \<open>auto simp: burst_def arrival_keys_def x\<close>)
  then show ?case by (simp add: x obs Let_def arrival_keys_def)
qed (simp add: arrival_keys_def)

subsection \<open>From the threshold on\<close>

definition storming :: "StormCorrelator \<Rightarrow> Ancestor \<Rightarrow> gotime \<Rightarrow> StormCorrelator \<Rightarrow> bool" where
  "storming c0 a t1 c =
     (sc_external c = sc_external c0
      \<and> (\<exists>st. sc_storms c = [(Ancestor_Key a, st)] \<and> st_id st = Ancestor_Key a \<and> st_idleTTL st = stormIdleTTL
           \<and> t1 \<le> st_lastActive st))"

lemma form_config:
  "sc_external (snd (form c a src grp now)) = sc_external c"
  by (simp add: form_def Let_def)

lemma gathering_forms:
  assumes g: "gathering c0 a t1 ks c" and b: "best_candidate c0 resolver fleet a sig"
    and t: "t1 \<le> now" "now < t1 + sc_window c0" and new: "CanonicalKey sig \<notin> set ks" and w: "0 < sc_window c0"
    and d: "distinct ks" and full: "Suc (length ks) = sc_min c0"
  shows "\<exists>info members member. fst (Observe_storm c resolver fleet now sig) = StormFormed info members member
      \<and> si_Ancestor info = a \<and> si_AffectedCount info = sc_min c0"
    and "storming c0 a t1 (snd (Observe_storm c resolver fleet now sig))"
proof -
  let ?p = "pending_of now sig (if IsZero (te_LastSeen sig) then now else te_LastSeen sig) []
      (storm_candidates c0 resolver fleet sig)"
  let ?c1 = "c\<lparr>sc_pending := sc_pending c @ [?p]\<rparr>"
  note step = gathering_observe[OF g b t new w]
  obtain src where src: "declared_key ?c1 fleet now ?p (pi_order ?p) = Some (a, src, sc_pending ?c1)"
      "src \<noteq> KeySourceSimultaneity"
    using step(3) full by auto
  have obs: "Observe_storm c resolver fleet now sig = formed (storm_member now sig) (form ?c1 a src (sc_pending ?c1) now)"
    by (simp only: step(2) src(1) option.case prod.case)
  have keys: "pending_keys (sc_pending ?c1) = ks @ [CanonicalKey sig]" using step(1) by (simp add: gathering_def)
  then have dk: "distinct (pending_keys (sc_pending ?c1))" using d new by simp
  note f = form_storm[OF dk, of a ?c1 src now]
  have "length (sc_pending ?c1) = Suc (length ks)" using arg_cong[OF keys, of length] by (simp add: pending_keys_def)
  then have "st_memberCount (fst (form ?c1 a src (sc_pending ?c1) now)) = sc_min c0"
    using formed_count[OF conjunct1[OF f] dk] full by simp
  then show "\<exists>info members member. fst (Observe_storm c resolver fleet now sig) = StormFormed info members member
      \<and> si_Ancestor info = a \<and> si_AffectedCount info = sc_min c0"
    using f by (simp add: obs formed_def storm_info_def formed_storm_def)
  show "storming c0 a t1 (snd (Observe_storm c resolver fleet now sig))"
    using f g t(1) src(2) form_correlator[of ?c1 a src "sc_pending ?c1" now]
    by (simp add: obs formed_def storming_def gathering_def formed_storm_def)
qed

lemma storming_observe:
  assumes s: "storming c0 a t1 c" and b: "best_candidate c0 resolver fleet a sig"
    and t: "t1 \<le> now" "now < t1 + sc_window c0" and w: "sc_window c0 \<le> stormIdleTTL"
  shows "\<exists>info member upd. fst (Observe_storm c resolver fleet now sig) = StormAttached info member upd \<and> si_ID info = Ancestor_Key a"
    and "storming c0 a t1 (snd (Observe_storm c resolver fleet now sig))"
proof -
  let ?K = "Ancestor_Key a" and ?seen = "if IsZero (te_LastSeen sig) then now else te_LastSeen sig"
  obtain st where st: "sc_storms c = [(?K, st)]" "st_id st = ?K" "st_idleTTL st = stormIdleTTL" "t1 \<le> st_lastActive st"
    using s by (auto simp: storming_def)
  obtain src rest where cs: "storm_candidates c0 resolver fleet sig = (a, src) # rest"
    using b by (auto simp: best_candidate_def split: list.splits)
  have "now - st_lastActive st \<le> stormIdleTTL" using t w st(4) by linarith
  then have "\<not> idle now st"
    using st(3) by (simp add: idle_def Let_def time_Sub_def stormIdleTTL_def dur_defs)
  then have pr: "prune c now = c\<lparr>sc_pending := filter (\<lambda>q. now - sc_window c < pi_at q) (sc_pending c)\<rparr>"
    using st(1) by (simp add: prune_def Let_def)
  have cand: "storm_candidates (prune c now) resolver fleet sig = (a, src) # rest"
    using s cs candidates_config[of "prune c now" c0] by (simp add: storming_def)
  have fs: "find_storm (sc_storms (prune c now)) (map fst ((a, src) # rest) @ xs) = Some st" for xs
    using st(1) by (simp add: pr find_storm_def)
  let ?st = "addMember (storm_member now sig) (sg_Severity sig) ?seen now st"
  have obs: "Observe_storm c resolver fleet now sig =
      (StormAttached (storm_info ?st) (storm_member now sig) (fst (maybeSizeUpdate now ?st)),
       (prune c now)\<lparr>sc_byKey := gput (CanonicalKey sig) ?K (sc_byKey (prune c now)),
          sc_storms := gput ?K (snd (maybeSizeUpdate now ?st)) (sc_storms (prune c now))\<rparr>)"
    by (simp only: Observe_storm_def Let_def cand fs option.case sm_Key_storm_member addMember_id st(2))
  show "\<exists>info member upd. fst (Observe_storm c resolver fleet now sig) = StormAttached info member upd \<and> si_ID info = ?K"
    using st(2) by (simp add: obs storm_info_def del: not_None_eq)
  show "storming c0 a t1 (snd (Observe_storm c resolver fleet now sig))"
    using s st t(1) by (simp add: obs storming_def pr split del: if_split)
qed

lemma absorb_all:
  assumes "storming c0 a t1 c" and "burst c0 resolver fleet a t1 h" and "sc_window c0 \<le> stormIdleTTL"
  shows "\<forall>v \<in> set (fst (observe_all c resolver fleet h)). \<exists>info member upd. v = StormAttached info member upd \<and> si_ID info = Ancestor_Key a"
  using assms
proof (induction h arbitrary: c)
  case (Cons x h)
  obtain now sig where x: "x = (now, sig)" by (cases x)
  have h: "best_candidate c0 resolver fleet a sig" "t1 \<le> now" "now < t1 + sc_window c0"
    using Cons.prems(2) x by (auto simp: burst_def)
  note step = storming_observe[OF Cons.prems(1) h Cons.prems(3)]
  have "burst c0 resolver fleet a t1 h" using Cons.prems(2) by (simp add: burst_def)
  from Cons.IH[OF step(2) this Cons.prems(3)] step(1) show ?case by (simp add: x Let_def)
qed simp

text \<open>
  C18: a burst of related incidents opens one storm and nothing after it opens a session. Let new
  incidents arrive at a fresh correlator, all with the same best blast-radius key and all within
  one correlation window of the first (a window no longer than the idle limit). Then exactly the
  first \<open>min - 1\<close> proceed on their own, the \<open>min\<close>-th forms the storm on that key with
  \<open>min\<close> members, and every later one attaches to it, whatever other candidates they have.
\<close>

theorem burst_is_one_storm:
  assumes "NewStormCorrelator w (int m) = Inr c" and "w \<le> stormIdleTTL"
    and "burst c resolver fleet a t1 (h1 @ (now, sig) # h2)" and "distinct (arrival_keys (h1 @ (now, sig) # h2))"
    and "Suc (length h1) = m"
  shows "\<exists>vs1 info members member vs2.
      fst (observe_all c resolver fleet (h1 @ (now, sig) # h2)) = vs1 @ StormFormed info members member # vs2
      \<and> length vs1 = m - 1 \<and> set vs1 \<subseteq> {StormNone}
      \<and> si_Ancestor info = a \<and> si_AffectedCount info = m
      \<and> (\<forall>v \<in> set vs2. \<exists>info' member' upd. v = StormAttached info' member' upd \<and> si_ID info' = Ancestor_Key a)"
proof -
  have c: "sc_window c = w" "0 < w" "sc_min c = m"
    using assms(1) by (auto simp: NewStormCorrelator_def split: if_splits)
  have g0: "gathering c a t1 [] c"
    using assms(1) by (auto simp: NewStormCorrelator_def gathering_def pending_keys_def split: if_splits)
  have b1: "burst c resolver fleet a t1 h1" "best_candidate c resolver fleet a sig" "t1 \<le> now" "now < t1 + sc_window c"
    "burst c resolver fleet a t1 h2" using assms(3) by (auto simp: burst_def)
  let ?r1 = "observe_all c resolver fleet h1"
  have g1: "set (fst ?r1) \<subseteq> {StormNone}" "gathering c a t1 (arrival_keys h1) (snd ?r1)"
    using gather_all[OF g0 b1(1)] assms(4,5) c by (simp_all add: arrival_keys_def)
  have new: "CanonicalKey sig \<notin> set (arrival_keys h1)" "distinct (arrival_keys h1)"
    "Suc (length (arrival_keys h1)) = sc_min c" "0 < sc_window c"
    using assms(4,5) c by (simp_all add: arrival_keys_def)
  note f = gathering_forms[OF g1(2) b1(2-4) new(1,4,2,3)]
  note ab = absorb_all[OF f(2) b1(5)]
  let ?r = "Observe_storm (snd ?r1) resolver fleet now sig"
  obtain info members member where v: "fst ?r = StormFormed info members member"
    "si_Ancestor info = a" "si_AffectedCount info = sc_min c" using f(1) by blast
  show ?thesis
    by (rule exI[of _ "fst ?r1"], rule exI[of _ info], rule exI[of _ members], rule exI[of _ member],
        rule exI[of _ "fst (observe_all (snd ?r) resolver fleet h2)"])
       (use v ab g1(1) assms(2,5) c in \<open>auto simp: observe_all_append Let_def\<close>)
qed

subsection \<open>The books\<close>

text \<open>
  C15: the correlator's books are right at all times. After any history of operations on a new
  correlator, whatever the resolver and the fleet size answered, every open storm is filed under
  its ancestor's key and still has a member that has not cleared; its unresolved counter is the
  number of such members and its affected count the number of its distinct members, of which the
  first thousand keep their record; and every indexed key is a member of the open storm it points to.
\<close>

theorem storm_books_balance:
  assumes "NewStormCorrelator w m = Inr c"
  shows "(\<forall>(sid, st) \<in> set (sc_storms (storm_run c h)).
            st_id st = sid \<and> uncleared st \<noteq> {} \<and> st_unresolved st = int (card (uncleared st))
            \<and> st_memberCount st = card (fst ` set (st_resolved st))
            \<and> length (st_members st) = min (st_memberCount st) maxStormMembers
            \<and> distinct (map sm_Key (st_members st)))
       \<and> (\<forall>(k, sid) \<in> set (sc_byKey (storm_run c h)).
            \<exists>st. gget (sc_storms (storm_run c h)) sid = Some st \<and> gget (st_resolved st) k \<noteq> None)"
proof -
  have ok: "storm_ok (storm_run c h)" by (rule storm_run_ok[OF New_ok[OF assms]])
  have "st_id st = sid \<and> uncleared st \<noteq> {} \<and> st_unresolved st = int (card (uncleared st))
      \<and> st_memberCount st = card (fst ` set (st_resolved st))
      \<and> length (st_members st) = min (st_memberCount st) maxStormMembers \<and> distinct (map sm_Key (st_members st))"
    if "(sid, st) \<in> set (sc_storms (storm_run c h))" for sid st
  proof -
    have "st_id st = sid" "storm_wf st" "0 < st_unresolved st"
      using ok that by (auto simp: storm_ok_def open_storm_ok_def)
    then show ?thesis using length_keys[of "st_resolved st"] by (auto simp: storm_wf_def)
  qed
  moreover have "\<exists>st. gget (sc_storms (storm_run c h)) sid = Some st \<and> gget (st_resolved st) k \<noteq> None"
    if "(k, sid) \<in> set (sc_byKey (storm_run c h))" for k sid
    using ok that by (fastforce simp: storm_ok_def indexed_ok_def split: option.splits)
  ultimately show ?thesis by blast
qed

subsection \<open>A storm has enough members in common\<close>

text \<open>The window once the observed incident is in it.\<close>

definition window_with :: "StormCorrelator \<Rightarrow> AncestorResolver \<Rightarrow> int option \<Rightarrow> gotime \<Rightarrow> Signal \<Rightarrow> pendingIncident list" where
  "window_with c resolver fleet now sig =
     window_put (pending_of now sig (if IsZero (te_LastSeen sig) then now else te_LastSeen sig)
         (minedValues (sc_mined (prune c now)) sig) (storm_candidates (prune c now) resolver fleet sig))
       (sc_pending (prune c now))"

text \<open>
  C30: a storm forms over exactly the incidents that share its key. In every well-formed state, when an
  observation reports a formed storm, no storm was open on that ancestor, and the group is exactly
  the part of the window, the observed incident in it, that carries the ancestor as a candidate key
  and lies in the window of that kind of key, or, for a mined key, that has the storm's value in the
  mined dimension. The group reaches the minimum of its kind of key and \<open>min\<close>, which is two or
  more. Its incidents are distinct and become the members, all uncleared; the window keeps the others.
\<close>

theorem storm_forms_over_group:
  assumes "storm_ok c" and "Observe_storm c resolver fleet now sig = (StormFormed info members member, c')"
  shows "\<exists>grp. gget (sc_storms (prune c now)) (si_ID info) = None
       \<and> shared_key (prune c now) fleet now (si_Ancestor info) (si_KeySource info) (window_with c resolver fleet now sig) grp
       \<and> 2 \<le> sc_min c \<and> sc_min c \<le> length grp \<and> distinct (pending_keys grp)
       \<and> CanonicalKey sig \<in> set (pending_keys grp)
       \<and> si_AffectedCount info = length grp
       \<and> (\<exists>st. gget (sc_storms c') (si_ID info) = Some st \<and> uncleared st = set (pending_keys grp)
              \<and> fst ` set (st_resolved st) = set (pending_keys grp))
       \<and> sc_pending c' = filter (\<lambda>q. sm_Key (pi_member q) \<notin> set (pending_keys grp)) (window_with c resolver fleet now sig)"
  using assms(1)
proof (cases rule: observe_cases[of c now resolver fleet sig])
  case (formed a src grp)
  let ?W = "window_with c resolver fleet now sig"
  let ?c1 = "(prune c now)\<lparr>sc_pending := ?W\<rparr>"
  let ?st = "fst (form ?c1 a src grp now)"
  have eq: "info = storm_info ?st" "c' = snd (form ?c1 a src grp now)"
    using assms(2) formed(7) by (simp_all add: Storm.formed_def window_with_def)
  have f: "formed_storm a grp ?st" using form_storm[OF formed(4)] by blast
  have st: "st_id ?st = Ancestor_Key a" "st_ancestor ?st = a" using f by (simp_all add: formed_storm_def)
  have p: "CanonicalKey sig \<in> set (pending_keys grp)"
    using formed(6) by (force simp: pending_keys_def)
  show ?thesis
  proof (intro exI[of _ grp] conjI)
    show "gget (sc_storms (prune c now)) (si_ID info) = None" using formed(1) st by (simp add: eq storm_info_def)
    show "2 \<le> sc_min c" using assms(1) by (simp add: storm_ok_def)
    show "sc_min c \<le> length grp" using formed(2) by simp
    show "shared_key (prune c now) fleet now (si_Ancestor info) (si_KeySource info) ?W grp"
      using formed(5) st form_keySource[of ?c1 a src grp now] by (simp add: eq storm_info_def window_with_def)
    show "si_AffectedCount info = length grp" using formed_count[OF f formed(4)] by (simp add: eq storm_info_def)
    show "\<exists>st. gget (sc_storms c') (si_ID info) = Some st \<and> uncleared st = set (pending_keys grp)
        \<and> fst ` set (st_resolved st) = set (pending_keys grp)"
      using formed_uncleared[OF f] formed_keys[OF f] unfolding eq
      by (intro exI[of _ ?st]) (subst form_correlator, simp add: storm_info_def)
    show "sc_pending c' = filter (\<lambda>q. sm_Key (pi_member q) \<notin> set (pending_keys grp)) ?W"
      unfolding eq by (subst form_correlator) simp
  qed (use formed(4) p in simp_all)
qed (use assms(2) in \<open>auto simp: Let_def\<close>)

text \<open>Three pods of one node, ten seconds apart; the third arrives now.\<close>

definition node_a :: Ancestor where "node_a = \<lparr>an_Kind = ''Node'', an_Namespace = [], an_Name = ''a''\<rparr>"

definition on_node_a :: AncestorResolver where "on_node_a = (\<lambda>ref. [node_a])"

definition pod_down :: "string \<Rightarrow> Signal" where
  "pod_down uid = zero_signal\<lparr>te_Key := \<lparr>ek_UID = uid, ek_Reason = ''NodeNotReady''\<rparr>, te_KindOfObject := ''Pod'',
     te_Namespace := ''ns'', te_Name := uid, sg_Severity := SeverityWarning\<rparr>"

definition fresh_correlator :: StormCorrelator where
  "fresh_correlator = \<lparr>sc_window = 60 * Second, sc_min = 3, sc_external = DefaultExternalAncestors,
     sc_mined = [], sc_minedMin = 0, sc_pending = [], sc_storms = [], sc_byKey = []\<rparr>"

definition two_down :: StormCorrelator where
  "two_down = snd (observe_all fresh_correlator on_node_a None [(Minute, pod_down ''x''), (Minute + 10 * Second, pod_down ''y'')])"

lemma fresh_correlator_new: "NewStormCorrelator (60 * Second) (int 3) = Inr fresh_correlator"
  by (simp add: NewStormCorrelator_def fresh_correlator_def dur_defs)

theorem storm_forms_over_group_witness:
  "\<exists>info grp. (\<exists>members member. fst (Observe_storm two_down on_node_a None (Minute + 20 * Second) (pod_down ''z'')) = StormFormed info members member)
     \<and> si_AffectedCount info = length grp \<and> 3 \<le> length grp
     \<and> shared_key (prune two_down (Minute + 20 * Second)) None (Minute + 20 * Second) (si_Ancestor info) (si_KeySource info)
         (window_with two_down on_node_a None (Minute + 20 * Second) (pod_down ''z'')) grp"
proof -
  let ?t = "Minute + 20 * Second"
  have ok: "storm_ok two_down"
    by (simp add: two_down_def Let_def Observe_ok New_ok[OF fresh_correlator_new])
  let ?h = "[(Minute, pod_down ''x''), (Minute + 10 * Second, pod_down ''y'')]"
  have h: "burst fresh_correlator on_node_a None node_a Minute ?h" "distinct ([] @ arrival_keys ?h)"
    "length ([]::EventKey list) + length ?h < sc_min fresh_correlator" "0 < sc_window fresh_correlator" by code_simp+
  have "gathering fresh_correlator node_a Minute [] fresh_correlator"
    by (simp add: gathering_def fresh_correlator_def pending_keys_def)
  from gather_all[OF this h] have g: "gathering fresh_correlator node_a Minute (arrival_keys ?h) two_down"
    by (simp add: two_down_def)
  have b: "best_candidate fresh_correlator on_node_a None node_a (pod_down ''z'')" by code_simp
  have t: "Minute \<le> ?t" "?t < Minute + sc_window fresh_correlator" by code_simp+
  have k: "CanonicalKey (pod_down ''z'') \<notin> set (arrival_keys ?h)" "0 < sc_window fresh_correlator"
    "distinct (arrival_keys ?h)" "Suc (length (arrival_keys ?h)) = sc_min fresh_correlator" by code_simp+
  obtain info members member where v: "fst (Observe_storm two_down on_node_a None ?t (pod_down ''z'')) = StormFormed info members member"
    using gathering_forms(1)[OF g b t k] by blast
  from v have f: "Observe_storm two_down on_node_a None ?t (pod_down ''z'') =
      (StormFormed info members member, snd (Observe_storm two_down on_node_a None ?t (pod_down ''z'')))"
    by (metis prod.collapse)
  have "sc_min two_down = 3" using g by (simp add: gathering_def fresh_correlator_def)
  with storm_forms_over_group[OF ok f] v show ?thesis by (intro exI[of _ info]) (elim exE conjE, intro exI conjI, auto)
qed

theorem burst_is_one_storm_witness:
  "\<exists>vs1 info members member vs2.
     fst (observe_all fresh_correlator on_node_a None
       ([(Minute, pod_down ''x''), (Minute + 10 * Second, pod_down ''y'')] @ (Minute + 20 * Second, pod_down ''z'')
        # [(Minute + 30 * Second, pod_down ''u''), (Minute + 59 * Second, pod_down ''v'')]))
     = vs1 @ StormFormed info members member # vs2
     \<and> length vs1 = 3 - 1 \<and> set vs1 \<subseteq> {StormNone}
     \<and> si_Ancestor info = node_a \<and> si_AffectedCount info = 3
     \<and> list_all (\<lambda>v. \<exists>info' member' upd. v = StormAttached info' member' upd \<and> si_ID info' = Ancestor_Key node_a) vs2"
  unfolding list_all_iff
proof (rule burst_is_one_storm)
  show "NewStormCorrelator (60 * Second) (int 3) = Inr fresh_correlator" by (rule fresh_correlator_new)
  show "60 * Second \<le> stormIdleTTL" by code_simp
  show "burst fresh_correlator on_node_a None node_a Minute
      ([(Minute, pod_down ''x''), (Minute + 10 * Second, pod_down ''y'')] @ (Minute + 20 * Second, pod_down ''z'')
        # [(Minute + 30 * Second, pod_down ''u''), (Minute + 59 * Second, pod_down ''v'')])" by code_simp
  show "distinct (arrival_keys ([(Minute, pod_down ''x''), (Minute + 10 * Second, pod_down ''y'')]
      @ (Minute + 20 * Second, pod_down ''z'')
        # [(Minute + 30 * Second, pod_down ''u''), (Minute + 59 * Second, pod_down ''v'')]))" by code_simp
  show "Suc (length [(Minute, pod_down ''x''), (Minute + 10 * Second, pod_down ''y'')]) = 3" by simp
qed

theorem storm_books_balance_witness:
  "list_all (\<lambda>(sid, st). st_id st = sid \<and> st_unresolved st = int (card (uncleared st)))
     (sc_storms (storm_run fresh_correlator (map (\<lambda>u. (Minute, on_node_a, None, OpStormObserve (pod_down u))) [''x'', ''y'', ''z''])))"
  using storm_books_balance[OF fresh_correlator_new,
      of "map (\<lambda>u. (Minute, on_node_a, None, OpStormObserve (pod_down u))) [''x'', ''y'', ''z'']"]
  unfolding list_all_iff by blast

end
