(* ===== verification/StormEnd.thy ===== *)
theory StormEnd
  imports StormBurst
begin

section \<open>The end of a storm\<close>

text \<open>Clearing the members of storms one by one, with the answers of \<^verbatim>\<open>MemberResolved\<close>.\<close>

fun resolve_all :: "StormCorrelator \<Rightarrow> EventKey list \<Rightarrow> (StormInfo \<times> bool) option list \<times> StormCorrelator" where
  "resolve_all c [] = ([], c)"
| "resolve_all c (k # ks) =
     (let r = MemberResolved c k; rest = resolve_all (snd r) ks in (fst r # fst rest, snd rest))"

lemma clear_member_uncleared: "uncleared (clear_member k st) = uncleared st - {k}"
  by (auto simp: uncleared_def clear_member_def)

lemma clear_member_count [simp]: "st_memberCount (clear_member k st) = st_memberCount st"
  by (simp add: clear_member_def)

lemma MemberResolved_owned:
  assumes "gget (sc_byKey c) k = Some sid" and "canon_key k = k" and "gget (sc_storms c) sid = Some st" and "storm_wf st"
  shows "MemberResolved c k =
     (if uncleared st - {k} = {}
      then (Some (storm_info (clear_member k st), True), close_storm sid (c\<lparr>sc_storms := gput sid (clear_member k st) (sc_storms c)\<rparr>))
      else (Some (storm_info (clear_member k st), False), c\<lparr>sc_storms := gput sid (clear_member k st) (sc_storms c)\<rparr>))"
proof -
  have "0 < st_unresolved (clear_member k st) \<longleftrightarrow> uncleared st - {k} \<noteq> {}"
    using clear_member_wf[OF assms(4), of k] clear_member_uncleared[of k st] card_gt_0_iff[of "uncleared st - {k}"]
    by (simp add: storm_wf_def)
  then show ?thesis using assms by (auto simp: MemberResolved_def Let_def)
qed

lemma resolve_in_order:
  assumes "storm_ok c" and "gget (sc_storms c) sid = Some st"
    and "\<forall>k \<in> uncleared st. gget (sc_byKey c) k = Some sid \<and> canon_key k = k"
    and "distinct (ks @ [k])" and "set (ks @ [k]) = uncleared st"
  shows "\<exists>infos info. fst (resolve_all c (ks @ [k])) = map (\<lambda>i. Some (i, False)) infos @ [Some (info, True)]
           \<and> si_ID info = sid \<and> si_AffectedCount info = st_memberCount st
           \<and> gget (sc_storms (snd (resolve_all c (ks @ [k])))) sid = None
           \<and> (\<forall>sid'. sid' \<noteq> sid \<longrightarrow> gget (sc_storms (snd (resolve_all c (ks @ [k])))) sid' = gget (sc_storms c) sid')
           \<and> (\<forall>x \<in> set (sc_byKey (snd (resolve_all c (ks @ [k])))). snd x \<noteq> sid)"
  using assms
proof (induction ks arbitrary: c st)
  case Nil
  note okD = storm_okD[OF Nil.prems(1,2)]
  have k: "gget (sc_byKey c) k = Some sid" "canon_key k = k" "uncleared st = {k}" using Nil.prems(3,5) by auto
  have "MemberResolved c k = (Some (storm_info (clear_member k st), True),
      close_storm sid (c\<lparr>sc_storms := gput sid (clear_member k st) (sc_storms c)\<rparr>))"
    using MemberResolved_owned[OF k(1,2) Nil.prems(2) okD(2)] k(3) by simp
  then show ?case
    using okD(1) by (intro exI[of _ "[]"] exI[of _ "storm_info (clear_member k st)"])
      (auto simp: Let_def storm_info_def close_storm_def gget_gdel)
next
  case (Cons k1 ks)
  note okD = storm_okD[OF Cons.prems(1,2)]
  let ?st = "clear_member k1 st"
  let ?c = "c\<lparr>sc_storms := gput sid ?st (sc_storms c)\<rparr>"
  have k: "gget (sc_byKey c) k1 = Some sid" "canon_key k1 = k1" "uncleared st - {k1} = set (ks @ [k])"
    using Cons.prems(3-5) by auto
  have r: "MemberResolved c k1 = (Some (storm_info ?st, False), ?c)"
    using MemberResolved_owned[OF k(1,2) Cons.prems(2) okD(2)] k(3) by auto
  have ok: "storm_ok ?c" using Resolved_ok[OF Cons.prems(1), of k1] r by simp
  have "\<exists>infos info. fst (resolve_all ?c (ks @ [k])) = map (\<lambda>i. Some (i, False)) infos @ [Some (info, True)]
      \<and> si_ID info = sid \<and> si_AffectedCount info = st_memberCount ?st
      \<and> gget (sc_storms (snd (resolve_all ?c (ks @ [k])))) sid = None
      \<and> (\<forall>sid'. sid' \<noteq> sid \<longrightarrow> gget (sc_storms (snd (resolve_all ?c (ks @ [k])))) sid' = gget (sc_storms ?c) sid')
      \<and> (\<forall>x \<in> set (sc_byKey (snd (resolve_all ?c (ks @ [k])))). snd x \<noteq> sid)"
  proof (rule Cons.IH[OF ok, of ?st])
    show "gget (sc_storms ?c) sid = Some ?st" by simp
    show "\<forall>k \<in> uncleared ?st. gget (sc_byKey ?c) k = Some sid \<and> canon_key k = k"
      using Cons.prems(3) by (simp add: clear_member_uncleared)
    show "distinct (ks @ [k])" using Cons.prems(4) by simp
    show "set (ks @ [k]) = uncleared ?st" using k(3) by (simp add: clear_member_uncleared)
  qed
  then obtain infos info where h: "fst (resolve_all ?c (ks @ [k])) = map (\<lambda>i. Some (i, False)) infos @ [Some (info, True)]"
      "si_ID info = sid" "si_AffectedCount info = st_memberCount ?st"
      "gget (sc_storms (snd (resolve_all ?c (ks @ [k])))) sid = None"
      "\<forall>sid'. sid' \<noteq> sid \<longrightarrow> gget (sc_storms (snd (resolve_all ?c (ks @ [k])))) sid' = gget (sc_storms ?c) sid'"
      "\<forall>x \<in> set (sc_byKey (snd (resolve_all ?c (ks @ [k])))). snd x \<noteq> sid" by blast
  show ?case
    by (rule exI[of _ "storm_info ?st # infos"], rule exI[of _ info]) (use h r in \<open>auto simp: Let_def\<close>)
qed

text \<open>
  C17: a storm is over exactly when its last member clears. If every member of an open storm that
  has not cleared is indexed to it, then clearing those members in any order answers \<open>done = false\<close>
  until the last one, whose answer is \<open>done = true\<close> with the storm's identity and full affected
  count; then the storm is closed, nothing is indexed to it and the other storms are untouched.
\<close>

theorem storm_ends_with_last_member:
  assumes "storm_ok c" and "gget (sc_storms c) sid = Some st"
    and "\<forall>k \<in> uncleared st. gget (sc_byKey c) k = Some sid \<and> canon_key k = k"
    and "distinct ks" and "set ks = uncleared st"
  shows "\<exists>infos info. fst (resolve_all c ks) = map (\<lambda>i. Some (i, False)) infos @ [Some (info, True)]
           \<and> si_ID info = sid \<and> si_AffectedCount info = st_memberCount st
           \<and> gget (sc_storms (snd (resolve_all c ks))) sid = None
           \<and> (\<forall>sid'. sid' \<noteq> sid \<longrightarrow> gget (sc_storms (snd (resolve_all c ks))) sid' = gget (sc_storms c) sid')
           \<and> (\<forall>x \<in> set (sc_byKey (snd (resolve_all c ks))). snd x \<noteq> sid)"
proof -
  have "card (uncleared st) > 0" using storm_okD[OF assms(1,2)] by (simp add: storm_wf_def)
  then have "ks \<noteq> []" using assms(5) by auto
  then obtain ks' k where "ks = ks' @ [k]" by (cases ks rule: rev_cases) auto
  then show ?thesis using resolve_in_order[OF assms(1-3), of ks' k] assms(4,5) by simp
qed

subsection \<open>A member in two storms\<close>

lemma stranded_step:
  assumes "gget (sc_storms c) sid = Some st" and "k \<in> uncleared st" and "gget (sc_byKey c) k \<noteq> Some sid" and "storm_ok c"
  shows "\<exists>st'. gget (sc_storms (snd (MemberResolved c k0))) sid = Some st' \<and> k \<in> uncleared st'
       \<and> gget (sc_byKey (snd (MemberResolved c k0))) k \<noteq> Some sid"
proof (cases "gget (sc_byKey c) (canon_key k0)")
  case (Some sid0)
  note owner = Some
  have "indexed_ok (sc_storms c) (canon_key k0, sid0)" using assms(4) owner map_of_SomeD by (fastforce simp: storm_ok_def)
  then obtain st0 where st0: "gget (sc_storms c) sid0 = Some st0" by (auto simp: indexed_ok_def split: option.splits)
  let ?st = "clear_member (canon_key k0) st0"
  have other: "sid0 = sid \<Longrightarrow> canon_key k0 \<noteq> k" using assms(3) owner by auto
  have keep: "sid0 = sid \<Longrightarrow> k \<in> uncleared ?st"
    using other assms(1,2) st0 by (simp add: clear_member_uncleared)
  have bk: "gget (filter (\<lambda>(k, owner). owner \<noteq> s) (sc_byKey c)) k \<noteq> Some sid" for s
    using assms(3,4) gget_filterD[of "sc_byKey c" "\<lambda>(k, owner). owner \<noteq> s" k sid] by (auto simp: storm_ok_def)
  have wf: "storm_wf ?st" using clear_member_wf storm_okD(2)[OF assms(4) st0] by simp
  have "0 < st_unresolved ?st" if "sid0 = sid"
  proof -
    have "0 < card (uncleared ?st)" using keep[OF that] card_gt_0_iff finite_uncleared by blast
    then show ?thesis using wf by (simp add: storm_wf_def)
  qed
  then show ?thesis
    using owner st0 keep assms(1-3) bk
    by (cases "0 < st_unresolved ?st"; cases "sid0 = sid")
       (auto simp: MemberResolved_def Let_def close_storm_def gget_gdel)
qed (use assms in \<open>auto simp: MemberResolved_def Let_def\<close>)

lemma stranded_for_good:
  assumes "gget (sc_storms c) sid = Some st" and "k \<in> uncleared st" and "gget (sc_byKey c) k \<noteq> Some sid" and "storm_ok c"
  shows "\<exists>st'. gget (sc_storms (snd (resolve_all c ks))) sid = Some st' \<and> k \<in> uncleared st'"
  using assms
proof (induction ks arbitrary: c st)
  case (Cons k0 ks)
  obtain st' where "gget (sc_storms (snd (MemberResolved c k0))) sid = Some st'" "k \<in> uncleared st'"
    "gget (sc_byKey (snd (MemberResolved c k0))) k \<noteq> Some sid" using stranded_step[OF Cons.prems] by blast
  then show ?case using Cons.IH Resolved_ok[OF Cons.prems(4)] by (simp add: Let_def)
qed auto

text \<open>
  C38: a member that joins a second storm strands the first. When an incident that has not cleared
  in one open storm fires again and is attached to another (its best key has changed, say because
  its message now names a throttled registry), the index moves to the second storm but the first
  still counts it: no sequence of members clearing, not even all of them, ever resolves the first
  storm.
\<close>

theorem moved_member_strands_storm:
  assumes "storm_ok c" and "Observe_storm c resolver fleet now sig = (StormAttached info member upd, c')"
    and "gget (sc_storms c') sid = Some st" and "CanonicalKey sig \<in> uncleared st" and "si_ID info \<noteq> sid"
  shows "\<exists>st'. gget (sc_storms (snd (resolve_all c' ks))) sid = Some st' \<and> CanonicalKey sig \<in> uncleared st'"
proof -
  have ok: "storm_ok c'" using Observe_ok[OF assms(1), of resolver fleet now sig] assms(2) by simp
  have "gget (sc_byKey c') (CanonicalKey sig) = Some (si_ID info)"
    using assms(1)
  proof (cases rule: observe_cases[of c now resolver fleet sig])
    case (attached st0 a)
    then show ?thesis using assms(2) by (auto simp: Let_def storm_info_def split del: if_split)
  next
    case (formed a src grp)
    then show ?thesis using assms(2) by (simp add: Storm.formed_def)
  qed (use assms(2) in simp_all)
  then show ?thesis using stranded_for_good[OF assms(3,4) _ ok] assms(5) by simp
qed

subsection \<open>Two storms\<close>

text \<open>
  A storm of node \<open>a\<close> with pods \<open>x\<close> and \<open>y\<close>, and one of registry \<open>q.io\<close> with \<open>u\<close> and \<open>v\<close>; then
  the pull of \<open>x\<close> is throttled.
\<close>

definition pull_key :: "string \<Rightarrow> EventKey" where
  "pull_key uid = \<lparr>ek_UID = uid, ek_Reason = ''ImagePullBackOff''\<rparr>"

definition pull_member :: "string \<Rightarrow> StormMember" where
  "pull_member uid = \<lparr>sm_Key = pull_key uid, sm_Fingerprint = [], sm_Namespace = ''ns'', sm_KindOfObject = ''Pod'',
     sm_Name = uid, sm_Reason = ''ImagePullBackOff'', sm_ReasonClass = ''ImagePullBackOff'', sm_SessionID = [],
     sm_FirstSeen = Minute\<rparr>"

definition pull_storm :: "Ancestor \<Rightarrow> string list \<Rightarrow> stormState" where
  "pull_storm a uids =
     \<lparr>st_id = Ancestor_Key a, st_ancestor = a, st_fingerprint = ''f'', st_reason = ''ImagePullBackOff'',
      st_keySource = KeySourceTopology, st_sessionID = ''s'', st_maxSeverity = SeverityWarning,
      st_firstSeen = Minute, st_lastSeen = Minute, st_lastActive = Minute, st_members = map pull_member uids,
      st_memberCount = length uids, st_namespaces = [''ns''], st_fingerprints = map (\<lambda>_. []) uids,
      st_resolved = map (\<lambda>u. (pull_key u, False)) uids, st_unresolved = int (length uids),
      st_idleTTL = stormIdleTTL, st_reportedCount = length uids, st_reportedAt = Minute\<rparr>"

definition quay :: Ancestor where
  "quay = \<lparr>an_Kind = AncestorKindRegistry, an_Namespace = [], an_Name = ''q.io''\<rparr>"

definition two_storms :: StormCorrelator where
  "two_storms = fresh_correlator\<lparr>
     sc_storms := [(Ancestor_Key node_a, pull_storm node_a [''x'', ''y'']), (Ancestor_Key quay, pull_storm quay [''u'', ''v''])],
     sc_byKey := [(pull_key ''x'', Ancestor_Key node_a), (pull_key ''y'', Ancestor_Key node_a),
                  (pull_key ''u'', Ancestor_Key quay), (pull_key ''v'', Ancestor_Key quay)]\<rparr>"

definition throttled :: Signal where
  "throttled = zero_signal\<lparr>te_Key := pull_key ''x'', te_KindOfObject := ''Pod'', te_Namespace := ''ns'', te_Name := ''x'',
     te_Message := image_anchor @ ''q.io/app:v1'' @ [dquote], sg_PullClass := PullClassRetryable, sg_Severity := SeverityWarning\<rparr>"

theorem storm_ends_with_last_member_witness:
  "\<exists>infos info. fst (resolve_all two_storms [pull_key ''y'', pull_key ''x'']) = map (\<lambda>i. Some (i, False)) infos @ [Some (info, True)]
     \<and> si_ID info = Ancestor_Key node_a \<and> si_AffectedCount info = 2"
proof -
  let ?st = "pull_storm node_a [''x'', ''y'']"
  have ok: "storm_ok two_storms" by code_simp
  have st: "gget (sc_storms two_storms) (Ancestor_Key node_a) = Some ?st" by (simp add: two_storms_def)
  have h: "\<forall>k \<in> uncleared ?st. gget (sc_byKey two_storms) k = Some (Ancestor_Key node_a) \<and> canon_key k = k"
    "distinct [pull_key ''y'', pull_key ''x'']" "set [pull_key ''y'', pull_key ''x''] = uncleared ?st" by code_simp+
  have "st_memberCount ?st = 2" by (simp add: pull_storm_def)
  with storm_ends_with_last_member[OF ok st h] show ?thesis by auto
qed

theorem moved_member_strands_storm_witness:
  "let c' = snd (Observe_storm two_storms on_node_a None (2 * Minute) throttled) in
   \<exists>st'. gget (sc_storms (snd (resolve_all c' (map pull_key [''x'', ''y'', ''u'', ''v''])))) (Ancestor_Key node_a) = Some st'
     \<and> CanonicalKey throttled \<in> uncleared st'"
proof -
  let ?r = "Observe_storm two_storms on_node_a None (2 * Minute) throttled"
  have ok: "storm_ok two_storms" by code_simp
  have "case fst ?r of StormAttached info member upd \<Rightarrow> si_ID info \<noteq> Ancestor_Key node_a | _ \<Rightarrow> False" by code_simp
  then obtain info member upd where f: "?r = (StormAttached info member upd, snd ?r)" "si_ID info \<noteq> Ancestor_Key node_a"
    by (cases ?r) (auto split: StormVerdict.splits)
  have "case gget (sc_storms (snd ?r)) (Ancestor_Key node_a) of None \<Rightarrow> False | Some st \<Rightarrow> CanonicalKey throttled \<in> uncleared st"
    by code_simp
  then obtain st where st: "gget (sc_storms (snd ?r)) (Ancestor_Key node_a) = Some st" "CanonicalKey throttled \<in> uncleared st"
    by (auto split: option.splits)
  show ?thesis unfolding Let_def by (rule moved_member_strands_storm[OF ok f(1) st f(2)])
qed

end
