(* ===== verification/Apportion.thy ===== *)
theory Apportion
  imports Prelude "HOL-Library.Product_Lexorder"
begin

section \<open>Apportionment\<close>

text \<open>
  \<^verbatim>\<open>pkg/leeway/apportion.go\<close>: the largest-remainder apportionment of \<open>n\<close> objects over weighted
  domains, with caps applied by water-filling. A float64 weight is a rational, an infinity or NaN;
  the arithmetic on finite weights is exact. The loop over the still active domains terminates
  because every round but the last freezes one.
\<close>

datatype float64 = Fin rat | Inf | NegInf | NaN

definition Uncapped :: int where "Uncapped = -1"

record Apportionment =
  ap_Expected :: "int list"
  ap_Placed :: int
  ap_Unplaceable :: int
  ap_Saturated :: "bool list"

definition sanitiseWeights :: "float64 list \<Rightarrow> rat list" where
  "sanitiseWeights ws = map (\<lambda>w. case w of Fin r \<Rightarrow> if r < 0 then 0 else r | _ \<Rightarrow> 0) ws"

definition EqualWeights :: "nat \<Rightarrow> float64 list" where
  "EqualWeights m = replicate m (Fin 1)"

subsection \<open>Largest remainder\<close>

text \<open>The weights the quotas are computed from: equal ones where all are zero.\<close>

definition effective_weights :: "rat list \<Rightarrow> rat list" where
  "effective_weights ws = (if sum_list ws \<le> 0 then replicate (length ws) 1 else ws)"

definition quota :: "int \<Rightarrow> rat list \<Rightarrow> nat \<Rightarrow> rat" where
  "quota n ws i = of_int n * ws ! i / sum_list ws"

definition remainder_order :: "int \<Rightarrow> rat list \<Rightarrow> nat list" where
  "remainder_order n ws = sort_key (\<lambda>i. (- frac (quota n ws i), i)) [0..<length ws]"

fun hand_out :: "nat list \<Rightarrow> nat \<Rightarrow> int list \<Rightarrow> int list" where
  "hand_out order 0 out = out"
| "hand_out order (Suc k) out =
     (let out' = hand_out order k out; i = order ! (k mod length order) in out'[i := out' ! i + 1])"

definition hamilton :: "int \<Rightarrow> rat list \<Rightarrow> int list" where
  "hamilton n weights =
     (if n \<le> 0 then replicate (length weights) 0
      else (let ws = effective_weights weights;
                out = map (\<lambda>i. \<lfloor>quota n ws i\<rfloor>) [0..<length ws];
                deficit = n - sum_list out
            in if deficit \<le> 0 then out else hand_out (remainder_order n ws) (nat deficit) out))"

subsection \<open>Water-filling\<close>

record fill_state =
  fs_active :: "bool list"
  fs_budget :: int
  fs_Expected :: "int list"
  fs_Saturated :: "bool list"

definition active_idx :: "bool list \<Rightarrow> nat list" where
  "active_idx act = filter (\<lambda>i. act ! i) [0..<length act]"

definition over_cap :: "int list option \<Rightarrow> nat \<Rightarrow> int \<Rightarrow> bool" where
  "over_cap caps i want = (case caps of None \<Rightarrow> False | Some cs \<Rightarrow> cs ! i \<ge> 0 \<and> want > cs ! i)"

definition freeze :: "int list \<Rightarrow> nat \<Rightarrow> fill_state \<Rightarrow> fill_state" where
  "freeze cs i s =
     s\<lparr>fs_Expected := (fs_Expected s)[i := cs ! i], fs_Saturated := (fs_Saturated s)[i := True],
       fs_active := (fs_active s)[i := False], fs_budget := fs_budget s - cs ! i\<rparr>"

definition freeze_round :: "int list option \<Rightarrow> (nat \<times> int) list \<Rightarrow> fill_state \<Rightarrow> fill_state" where
  "freeze_round caps shares s =
     foldl (\<lambda>s (i, want). if over_cap caps i want then freeze (the caps) i s else s) s shares"

definition grant :: "(nat \<times> int) list \<Rightarrow> int list \<Rightarrow> int list" where
  "grant shares e = foldl (\<lambda>e (i, want). e[i := want]) e shares"

lemma freeze_lengths [simp]:
  "length (fs_active (freeze cs i s)) = length (fs_active s)"
  "length (fs_Expected (freeze cs i s)) = length (fs_Expected s)"
  "length (fs_Saturated (freeze cs i s)) = length (fs_Saturated s)"
  by (simp_all add: freeze_def)

lemma freeze_round_Nil [simp]: "freeze_round caps [] s = s"
  by (simp add: freeze_round_def)

lemma freeze_round_Cons [simp]:
  "freeze_round caps ((i, want) # xs) s =
     freeze_round caps xs (if over_cap caps i want then freeze (the caps) i s else s)"
  by (simp add: freeze_round_def)

lemma freeze_round_lengths [simp]:
  "length (fs_active (freeze_round caps xs s)) = length (fs_active s)"
  "length (fs_Expected (freeze_round caps xs s)) = length (fs_Expected s)"
  "length (fs_Saturated (freeze_round caps xs s)) = length (fs_Saturated s)"
  by (induction xs arbitrary: s) auto

lemma freeze_round_active:
  "fs_active (freeze_round caps xs s) ! i = (fs_active s ! i \<and> (\<forall>want. (i, want) \<in> set xs \<longrightarrow> \<not> over_cap caps i want))"
  if "i < length (fs_active s)"
  using that
proof (induction xs arbitrary: s)
  case (Cons x xs)
  obtain j want where x: "x = (j, want)" by (cases x)
  let ?s = "if over_cap caps j want then freeze (the caps) j s else s"
  have "fs_active ?s ! i = (fs_active s ! i \<and> \<not> (i = j \<and> over_cap caps j want))"
    using Cons.prems by (cases "j < length (fs_active s)") (auto simp: freeze_def nth_list_update)
  moreover have "fs_active (freeze_round caps xs ?s) ! i =
      (fs_active ?s ! i \<and> (\<forall>want. (i, want) \<in> set xs \<longrightarrow> \<not> over_cap caps i want))"
    using Cons.prems by (intro Cons.IH) simp
  ultimately show ?case by (auto simp: x)
qed simp

lemma active_idx_set [simp]: "set (active_idx act) = {i. i < length act \<and> act ! i}"
  by (auto simp: active_idx_def)

lemma active_idx_distinct [simp]: "distinct (active_idx act)"
  by (simp add: active_idx_def)

lemma active_idx_length: "length (active_idx act) = card {i. i < length act \<and> act ! i}"
  using distinct_card[of "active_idx act"] by simp

definition round_shares :: "rat list \<Rightarrow> fill_state \<Rightarrow> (nat \<times> int) list" where
  "round_shares clean s =
     (let idx = active_idx (fs_active s) in zip idx (hamilton (fs_budget s) (map (\<lambda>i. clean ! i) idx)))"

lemma hand_out_length [simp]: "length (hand_out order k out) = length out"
  by (induction k) (auto simp: Let_def)

lemma effective_length [simp]: "length (effective_weights ws) = length ws"
  by (simp add: effective_weights_def)

lemma hamilton_length [simp]: "length (hamilton n ws) = length ws"
  by (simp add: hamilton_def Let_def)

lemma round_shares_fst [simp]: "map fst (round_shares clean s) = active_idx (fs_active s)"
  by (simp add: round_shares_def Let_def)

lemma freeze_round_shrinks:
  assumes "\<exists>(i, want) \<in> set (round_shares clean s). over_cap caps i want"
  shows "length (active_idx (fs_active (freeze_round caps (round_shares clean s) s))) < length (active_idx (fs_active s))"
proof -
  let ?s = "freeze_round caps (round_shares clean s) s"
  obtain i want where i: "(i, want) \<in> set (round_shares clean s)" "over_cap caps i want" using assms by auto
  have "i \<in> set (active_idx (fs_active s))" using i(1) round_shares_fst by (metis fst_conv image_eqI list.set_map)
  then have a: "i < length (fs_active s)" "fs_active s ! i" by simp_all
  have "{i. i < length (fs_active ?s) \<and> fs_active ?s ! i} \<subset> {i. i < length (fs_active s) \<and> fs_active s ! i}"
  proof (rule psubsetI)
    show "{i. i < length (fs_active ?s) \<and> fs_active ?s ! i} \<subseteq> {i. i < length (fs_active s) \<and> fs_active s ! i}"
      using freeze_round_active[of _ s caps "round_shares clean s"] by auto
    have "\<not> fs_active ?s ! i" using freeze_round_active[OF a(1), of caps "round_shares clean s"] i by blast
    then show "{i. i < length (fs_active ?s) \<and> fs_active ?s ! i} \<noteq> {i. i < length (fs_active s) \<and> fs_active s ! i}"
      using a by blast
  qed
  then show ?thesis unfolding active_idx_length by (intro psubset_card_mono) auto
qed

function water_fill :: "int list option \<Rightarrow> rat list \<Rightarrow> fill_state \<Rightarrow> int list \<times> bool list \<times> int" where
  "water_fill caps clean s =
     (if active_idx (fs_active s) = [] then (fs_Expected s, fs_Saturated s, fs_budget s)
      else (let shares = round_shares clean s in
            if \<exists>(i, want) \<in> set shares. over_cap caps i want
            then water_fill caps clean (freeze_round caps shares s)
            else (grant shares (fs_Expected s), fs_Saturated s, 0)))"
  by pat_completeness auto
termination
  by (relation "measure (\<lambda>(caps, clean, s). length (active_idx (fs_active s)))") (auto intro: freeze_round_shrinks)

declare water_fill.simps [simp del]

definition Apportion :: "int \<Rightarrow> float64 list \<Rightarrow> int list option \<Rightarrow> Apportionment" where
  "Apportion n weights caps =
     (let m = length weights;
          none = \<lparr>ap_Expected = replicate m 0, ap_Placed = 0, ap_Unplaceable = 0, ap_Saturated = replicate m False\<rparr>
      in if m = 0 \<or> n \<le> 0 then none\<lparr>ap_Unplaceable := (if n > 0 then n else 0)\<rparr>
         else (case water_fill caps (sanitiseWeights weights)
                      \<lparr>fs_active = replicate m True, fs_budget = n, fs_Expected = replicate m 0,
                       fs_Saturated = replicate m False\<rparr> of
                 (e, sat, unplaceable) \<Rightarrow>
                   \<lparr>ap_Expected = e, ap_Placed = sum_list e, ap_Unplaceable = unplaceable, ap_Saturated = sat\<rparr>))"

definition CapacityWeightingRatioTrigger :: rat where "CapacityWeightingRatioTrigger = 5 / 4"

definition usable :: "float64 list \<Rightarrow> rat list" where
  "usable cs = List.map_filter (\<lambda>c. case c of Fin r \<Rightarrow> if r < 0 then None else Some r | _ \<Rightarrow> None) cs"

definition NeedsCapacityWeightingAt :: "float64 list \<Rightarrow> rat \<Rightarrow> bool" where
  "NeedsCapacityWeightingAt capacities trigger0 =
     (let trigger = (if trigger0 \<le> 0 then CapacityWeightingRatioTrigger else trigger0);
          us = usable capacities
      in if length capacities < 2 then False
         else if us = [] then False
         else if Min (set us) \<le> 0 then True
         else Max (set us) / Min (set us) > trigger)"

definition NeedsCapacityWeighting :: "float64 list \<Rightarrow> bool" where
  "NeedsCapacityWeighting capacities = NeedsCapacityWeightingAt capacities CapacityWeightingRatioTrigger"

end
