(* ===== verification/Intent.thy ===== *)
theory Intent
  imports Distribution Apportion
begin

section \<open>Placement intents\<close>

text \<open>
  \<^verbatim>\<open>pkg/leeway/intent.go\<close> and \<^verbatim>\<open>pkg/leeway/parse.go\<close>: what a subject wants on one topology key,
  the precedence of the sources that can say so, and the reduction of all candidates to at most
  one intent per key. Enumerations hold the declared constants. \<^verbatim>\<open>IntentSource\<close> is ordered by
  precedence, highest first. The Kubernetes API's string types \<^verbatim>\<open>UnsatisfiableConstraintAction\<close> and
  \<^verbatim>\<open>NodeInclusionPolicy\<close> are datatypes with the constants the code compares with and a constructor
  for every other value; an absent pointer is \<open>None\<close>.
\<close>

subsection \<open>Vocabulary\<close>

datatype IntentMode = ModeSpread | ModeColocate | ModeIgnore

definition IntentMode_String :: "IntentMode \<Rightarrow> string" where
  "IntentMode_String m =
     (case m of ModeSpread \<Rightarrow> ''Spread'' | ModeColocate \<Rightarrow> ''Colocate'' | ModeIgnore \<Rightarrow> ''Ignore'')"

datatype IntentSource =
  SourcePolicyCRD | SourceWorkloadAnnotation | SourceTopologySpreadConstraint
| SourcePodAntiAffinityRequired | SourcePodAffinityRequired | SourceClusterDefaultDeclared
| SourcePodAntiAffinityPreferred | SourcePodAffinityPreferred | SourceLearnedBaseline
| SourceClusterDefaultAssumed

definition IntentSources :: "IntentSource list" where
  "IntentSources =
     [SourcePolicyCRD, SourceWorkloadAnnotation, SourceTopologySpreadConstraint,
      SourcePodAntiAffinityRequired, SourcePodAffinityRequired, SourceClusterDefaultDeclared,
      SourcePodAntiAffinityPreferred, SourcePodAffinityPreferred, SourceLearnedBaseline,
      SourceClusterDefaultAssumed]"

text \<open>The value of the constant: its position in the declaration.\<close>

definition source_value :: "IntentSource \<Rightarrow> nat" where
  "source_value s =
     (case s of
        SourcePolicyCRD \<Rightarrow> 0 | SourceWorkloadAnnotation \<Rightarrow> 1 | SourceTopologySpreadConstraint \<Rightarrow> 2
      | SourcePodAntiAffinityRequired \<Rightarrow> 3 | SourcePodAffinityRequired \<Rightarrow> 4 | SourceClusterDefaultDeclared \<Rightarrow> 5
      | SourcePodAntiAffinityPreferred \<Rightarrow> 6 | SourcePodAffinityPreferred \<Rightarrow> 7 | SourceLearnedBaseline \<Rightarrow> 8
      | SourceClusterDefaultAssumed \<Rightarrow> 9)"

definition Outranks :: "IntentSource \<Rightarrow> IntentSource \<Rightarrow> bool" where
  "Outranks s other = (source_value s < source_value other)"

definition IntentSource_String :: "IntentSource \<Rightarrow> string" where
  "IntentSource_String s =
     (case s of
        SourcePolicyCRD \<Rightarrow> ''policy-crd''
      | SourceWorkloadAnnotation \<Rightarrow> ''workload-annotation''
      | SourceTopologySpreadConstraint \<Rightarrow> ''topology-spread-constraint''
      | SourcePodAntiAffinityRequired \<Rightarrow> ''pod-anti-affinity-required''
      | SourcePodAffinityRequired \<Rightarrow> ''pod-affinity-required''
      | SourceClusterDefaultDeclared \<Rightarrow> ''cluster-default-declared''
      | SourceClusterDefaultAssumed \<Rightarrow> ''cluster-default-assumed''
      | SourcePodAntiAffinityPreferred \<Rightarrow> ''pod-anti-affinity-preferred''
      | SourcePodAffinityPreferred \<Rightarrow> ''pod-affinity-preferred''
      | SourceLearnedBaseline \<Rightarrow> ''learned-baseline'')"

datatype Confidence = ConfidenceDeclared | ConfidenceInferred | ConfidenceAssumed | ConfidenceLearned

definition Confidence_String :: "Confidence \<Rightarrow> string" where
  "Confidence_String c =
     (case c of ConfidenceDeclared \<Rightarrow> ''declared'' | ConfidenceInferred \<Rightarrow> ''inferred''
      | ConfidenceAssumed \<Rightarrow> ''assumed'' | ConfidenceLearned \<Rightarrow> ''learned'')"

datatype Weighting =
  WeightAuto | WeightEqual | WeightNodeCount | WeightAllocatableCPU | WeightAllocatableMemory

definition Weighting_String :: "Weighting \<Rightarrow> string" where
  "Weighting_String w =
     (case w of WeightAuto \<Rightarrow> ''Auto'' | WeightEqual \<Rightarrow> ''Equal'' | WeightNodeCount \<Rightarrow> ''NodeCount''
      | WeightAllocatableCPU \<Rightarrow> ''AllocatableCPU'' | WeightAllocatableMemory \<Rightarrow> ''AllocatableMemory'')"

subsection \<open>Reading the vocabulary back\<close>

definition enum_fold :: "string \<Rightarrow> string" where
  "enum_fold s = strings_ReplaceAll (strings_ReplaceAll (strings_ToLower (strings_TrimSpace s)) ''-'' '''') ''_'' ''''"

text \<open>The loop the three parsers share: the first value whose folded name matches.\<close>

fun parse_enum :: "('a \<Rightarrow> string) \<Rightarrow> 'a list \<Rightarrow> 'a \<Rightarrow> string \<Rightarrow> 'a \<times> bool" where
  "parse_enum name [] fallback s = (fallback, False)"
| "parse_enum name (v # vs) fallback s =
     (if enum_fold (name v) = enum_fold s then (v, True) else parse_enum name vs fallback s)"

definition ParseIntentMode :: "string \<Rightarrow> IntentMode \<times> bool" where
  "ParseIntentMode s = parse_enum IntentMode_String [ModeSpread, ModeColocate, ModeIgnore] ModeSpread s"

definition ParseWeighting :: "string \<Rightarrow> Weighting \<times> bool" where
  "ParseWeighting s =
     parse_enum Weighting_String
       [WeightAuto, WeightEqual, WeightNodeCount, WeightAllocatableCPU, WeightAllocatableMemory] WeightEqual s"

definition ParseIntentSource :: "string \<Rightarrow> IntentSource \<times> bool" where
  "ParseIntentSource s = parse_enum IntentSource_String IntentSources SourcePolicyCRD s"

definition api_part :: "string \<Rightarrow> string" where
  "api_part p =
     (if p = '''' then ''''
      else if p = ''crd'' then ''CRD''
      else strings_ToUpper (take 1 p) @ drop 1 p)"

definition APIName :: "IntentSource \<Rightarrow> string" where
  "APIName s = concat (map api_part (strings_SplitByte (IntentSource_String s) CHR ''-''))"

subsection \<open>Intents\<close>

datatype UnsatisfiableConstraintAction = NoAction | DoNotSchedule | ScheduleAnyway | OtherAction string

datatype NodeInclusionPolicy =
  NoInclusionPolicy | NodeInclusionPolicyHonor | NodeInclusionPolicyIgnore | OtherInclusionPolicy string

record NodeInclusionPolicies =
  np_NodeAffinityPolicy :: NodeInclusionPolicy
  np_NodeTaintsPolicy :: NodeInclusionPolicy

definition DefaultNodeInclusionPolicies :: NodeInclusionPolicies where
  "DefaultNodeInclusionPolicies =
     \<lparr>np_NodeAffinityPolicy = NodeInclusionPolicyHonor, np_NodeTaintsPolicy = NodeInclusionPolicyIgnore\<rparr>"

record EvidenceItem =
  ei_Source :: IntentSource
  ei_Detail :: string
  ei_Ignored :: bool

record Intent =
  it_TopologyKey :: TopologyKey
  it_Mode :: IntentMode
  it_Source :: IntentSource
  it_MaxSkew :: "int option"
  it_MinDomains :: "int option"
  it_WhenUnsatisfiable :: UnsatisfiableConstraintAction
  it_MaxPerDomain :: "int option"
  it_Weighting :: Weighting
  it_EligibleDomains :: "Domain list"
  it_DomainCaps :: "(Domain \<times> int) list"
  it_ExplicitShares :: "(Domain \<times> float64) list"
  it_Bands :: "(Domain \<times> rat) list"
  it_Policies :: NodeInclusionPolicies
  it_Severity :: string
  it_Confidence :: Confidence
  it_Evidence :: "EvidenceItem list"

text \<open>\<^verbatim>\<open>Intent{}\<close>; a nil intent is \<open>None\<close>.\<close>

definition zero_intent :: Intent where
  "zero_intent =
     \<lparr>it_TopologyKey = [], it_Mode = ModeSpread, it_Source = SourcePolicyCRD, it_MaxSkew = None,
      it_MinDomains = None, it_WhenUnsatisfiable = NoAction, it_MaxPerDomain = None,
      it_Weighting = WeightAuto, it_EligibleDomains = [], it_DomainCaps = [], it_ExplicitShares = [],
      it_Bands = [],
      it_Policies = \<lparr>np_NodeAffinityPolicy = NoInclusionPolicy, np_NodeTaintsPolicy = NoInclusionPolicy\<rparr>,
      it_Severity = [], it_Confidence = ConfidenceDeclared, it_Evidence = []\<rparr>"

definition EligibilityPolicies :: "Intent option \<Rightarrow> NodeInclusionPolicies" where
  "EligibilityPolicies i =
     (case i of
        None \<Rightarrow> DefaultNodeInclusionPolicies
      | Some it \<Rightarrow>
          (let out = DefaultNodeInclusionPolicies; p = it_Policies it;
               out = (if np_NodeAffinityPolicy p \<noteq> NoInclusionPolicy
                      then out\<lparr>np_NodeAffinityPolicy := np_NodeAffinityPolicy p\<rparr> else out)
           in if np_NodeTaintsPolicy p \<noteq> NoInclusionPolicy
              then out\<lparr>np_NodeTaintsPolicy := np_NodeTaintsPolicy p\<rparr> else out))"

definition declaredContract :: "Intent option \<Rightarrow> bool" where
  "declaredContract i = (case i of None \<Rightarrow> False | Some it \<Rightarrow> it_Source it \<noteq> SourceClusterDefaultAssumed)"

definition HardPerDomainContract :: "Intent option \<Rightarrow> bool" where
  "HardPerDomainContract i = (declaredContract i \<and> it_MaxPerDomain (the i) \<noteq> None)"

definition HardSkewContract :: "Intent option \<Rightarrow> bool" where
  "HardSkewContract i =
     (declaredContract i \<and> it_MaxSkew (the i) \<noteq> None \<and> it_WhenUnsatisfiable (the i) = DoNotSchedule)"

definition HardContract :: "Intent option \<Rightarrow> bool" where
  "HardContract i = (HardPerDomainContract i \<or> HardSkewContract i)"

subsection \<open>Resolution\<close>

definition demote :: "Intent \<Rightarrow> EvidenceItem list" where
  "demote losing =
     \<lparr>ei_Source = it_Source losing, ei_Detail = ''superseded by higher-precedence source'', ei_Ignored = True\<rparr>
     # map (\<lambda>e. e\<lparr>ei_Ignored := True\<rparr>) (it_Evidence losing)"

definition carryContract :: "Intent \<Rightarrow> Intent \<Rightarrow> Intent" where
  "carryContract winner losing =
     (if it_Mode winner = ModeIgnore then winner
      else if it_MaxSkew winner \<noteq> None \<or> it_MaxSkew losing = None then winner
      else if it_Source losing = SourceClusterDefaultAssumed \<or> it_WhenUnsatisfiable losing \<noteq> DoNotSchedule
      then winner
      else winner\<lparr>it_MaxSkew := it_MaxSkew losing, it_WhenUnsatisfiable := it_WhenUnsatisfiable losing\<rparr>)"

text \<open>The winner and the loser of one comparison; the loser becomes evidence of the winner.\<close>

definition defeat :: "Intent \<Rightarrow> Intent \<Rightarrow> Intent" where
  "defeat winner losing =
     carryContract (winner\<lparr>it_Evidence := it_Evidence winner @ demote losing\<rparr>) losing"

definition contest :: "Intent option \<Rightarrow> Intent \<Rightarrow> Intent" where
  "contest incumbent c =
     (case incumbent of
        None \<Rightarrow> c
      | Some cur \<Rightarrow> if Outranks (it_Source c) (it_Source cur) then defeat c cur else defeat cur c)"

definition ResolveIntents :: "Intent list \<Rightarrow> (TopologyKey \<times> Intent) list" where
  "ResolveIntents candidates =
     foldl (\<lambda>winners c. gput (it_TopologyKey c) (contest (gget winners (it_TopologyKey c)) c) winners)
       [] candidates"

definition SortedKeys :: "(TopologyKey \<times> 'v) list \<Rightarrow> TopologyKey list" where
  "SortedKeys byKey = sort (map fst byKey)"

end
