(* ===== verification/Eligible.thy ===== *)
theory Eligible
  imports Intent
begin

section \<open>Eligible domains\<close>

text \<open>
  \<^verbatim>\<open>pkg/leeway/eligible.go\<close>: the domains that hold at least one node the subject could be scheduled
  onto, what they weigh, and why the others were left out. The maps the code ranges over are
  association lists; their order does not reach the result because the domains are sorted.
  Allocatable amounts are exact rationals.
\<close>

subsection \<open>Nodes and options\<close>

record NodeView =
  nv_Name :: string
  nv_Domain :: Domain
  nv_Ready :: bool
  nv_Schedulable :: bool
  nv_MatchesSelector :: bool
  nv_Tolerated :: bool
  nv_AllocatableCPU :: rat
  nv_AllocatableMemory :: rat

record EligibilityOptions =
  eo_Policies :: NodeInclusionPolicies
  eo_MinDomains :: "int option"
  eo_RequireReady :: bool
  eo_RequireSchedulable :: bool
  eo_CapacityRatioTrigger :: rat
  eo_UndeclaredWeighting :: Weighting

definition DefaultEligibilityOptions :: EligibilityOptions where
  "DefaultEligibilityOptions =
     \<lparr>eo_Policies = DefaultNodeInclusionPolicies, eo_MinDomains = None, eo_RequireReady = True,
      eo_RequireSchedulable = True, eo_CapacityRatioTrigger = CapacityWeightingRatioTrigger,
      eo_UndeclaredWeighting = WeightAuto\<rparr>"

record Eligibility =
  el_Domains :: "Domain list"
  el_CapacityCPU :: "rat list"
  el_CapacityMemory :: "rat list"
  el_CapacityRatioTrigger :: rat
  el_UndeclaredWeighting :: Weighting
  el_NodeCount :: "int list"
  el_Excluded :: "(Domain \<times> string) list"
  el_Unready :: "Domain list"
  el_SyntheticDomains :: int

definition NormaliseDomain :: "Domain \<Rightarrow> Domain" where
  "NormaliseDomain d = (if d = [] then DomainUnknown else d)"

definition nodeUsable :: "NodeView \<Rightarrow> EligibilityOptions \<Rightarrow> string \<times> bool" where
  "nodeUsable n opts =
     (if np_NodeAffinityPolicy (eo_Policies opts) = NodeInclusionPolicyHonor \<and> \<not> nv_MatchesSelector n
      then (''selector or required affinity does not match'', False)
      else if np_NodeTaintsPolicy (eo_Policies opts) = NodeInclusionPolicyHonor \<and> \<not> nv_Tolerated n
      then (''tainted against this subject'', False)
      else if eo_RequireReady opts \<and> \<not> nv_Ready n then (''NotReady'', False)
      else if eo_RequireSchedulable opts \<and> \<not> nv_Schedulable n then (''cordoned'', False)
      else ('''', True))"

definition nodeReachable :: "NodeView \<Rightarrow> EligibilityOptions \<Rightarrow> bool" where
  "nodeReachable n opts =
     (if np_NodeAffinityPolicy (eo_Policies opts) = NodeInclusionPolicyHonor \<and> \<not> nv_MatchesSelector n then False
      else np_NodeTaintsPolicy (eo_Policies opts) \<noteq> NodeInclusionPolicyHonor \<or> nv_Tolerated n)"

subsection \<open>The tally of one domain\<close>

record domainAgg =
  da_seen :: int
  da_eligible :: int
  da_unready :: int
  da_cpu :: rat
  da_memory :: rat
  da_reasons :: "string list"

definition zero_agg :: domainAgg where
  "zero_agg = \<lparr>da_seen = 0, da_eligible = 0, da_unready = 0, da_cpu = 0, da_memory = 0, da_reasons = []\<rparr>"

definition agg_note :: "string \<Rightarrow> domainAgg \<Rightarrow> domainAgg" where
  "agg_note r a = (if r \<in> set (da_reasons a) then a else a\<lparr>da_reasons := da_reasons a @ [r]\<rparr>)"

definition agg_reason :: "domainAgg \<Rightarrow> string" where
  "agg_reason a =
     (if da_reasons a = [] then ''no nodes in this domain''
      else ''no usable nodes: '' @ strings_Join (da_reasons a) '', '')"

definition agg_node :: "EligibilityOptions \<Rightarrow> NodeView \<Rightarrow> domainAgg \<Rightarrow> domainAgg" where
  "agg_node opts n a0 =
     (let a = a0\<lparr>da_seen := da_seen a0 + 1\<rparr>; (reason, ok) = nodeUsable n opts
      in if \<not> ok then
           (let a' = agg_note reason a
            in if eo_RequireReady opts \<and> \<not> nv_Ready n \<and> nodeReachable n opts
               then a'\<lparr>da_unready := da_unready a' + 1\<rparr> else a')
         else a\<lparr>da_eligible := da_eligible a + 1, da_cpu := da_cpu a + nv_AllocatableCPU n,
                da_memory := da_memory a + nv_AllocatableMemory n\<rparr>)"

definition aggregate :: "EligibilityOptions \<Rightarrow> NodeView list \<Rightarrow> (Domain \<times> domainAgg) list" where
  "aggregate opts nodes =
     foldl (\<lambda>agg n. let d = NormaliseDomain (nv_Domain n);
                        a = (case gget agg d of None \<Rightarrow> zero_agg | Some a \<Rightarrow> a)
                    in gput d (agg_node opts n a) agg) [] nodes"

subsection \<open>The eligible set\<close>

definition syntheticPrefix :: string where "syntheticPrefix = ''__absent__/''"

definition syntheticDomain :: "nat \<Rightarrow> Domain" where
  "syntheticDomain i = syntheticPrefix @ strconv_Itoa (int i)"

definition IsSynthetic :: "Domain \<Rightarrow> bool" where
  "IsSynthetic d = (length d > length syntheticPrefix \<and> strings_HasPrefix d syntheticPrefix)"

text \<open>The padding for \<open>MinDomains\<close>: the indices from the number of real domains on.\<close>

definition padding :: "int option \<Rightarrow> nat \<Rightarrow> nat list" where
  "padding minDomains m =
     (case minDomains of None \<Rightarrow> [] | Some want \<Rightarrow> if want > int m then [m..<nat want] else [])"

definition EligibleDomains :: "NodeView list \<Rightarrow> EligibilityOptions \<Rightarrow> Eligibility" where
  "EligibleDomains nodes opts =
     (let agg = aggregate opts nodes;
          excluded = filter (\<lambda>(d, a). da_eligible a = 0) agg;
          domains = SortDomains (map fst (filter (\<lambda>(d, a). da_eligible a > 0) agg));
          tally = (\<lambda>d. the (gget agg d));
          pad = padding (eo_MinDomains opts) (length domains)
      in \<lparr>el_Domains = domains @ map syntheticDomain pad,
          el_CapacityCPU = map (\<lambda>d. da_cpu (tally d)) domains @ map (\<lambda>_. 0) pad,
          el_CapacityMemory = map (\<lambda>d. da_memory (tally d)) domains @ map (\<lambda>_. 0) pad,
          el_CapacityRatioTrigger = eo_CapacityRatioTrigger opts,
          el_UndeclaredWeighting = eo_UndeclaredWeighting opts,
          el_NodeCount = map (\<lambda>d. da_eligible (tally d)) domains @ map (\<lambda>_. 0) pad,
          el_Excluded = map (\<lambda>(d, a). (d, agg_reason a)) excluded,
          el_Unready = SortDomains (map fst (filter (\<lambda>(d, a). da_unready a > 0) excluded)),
          el_SyntheticDomains = int (length pad)\<rparr>)"

text \<open>\<^verbatim>\<open>slices.Index\<close> and \<^verbatim>\<open>slices.Delete(s, i, i+1)\<close>.\<close>

fun slices_Index :: "'a list \<Rightarrow> 'a \<Rightarrow> nat option" where
  "slices_Index [] x = None"
| "slices_Index (y # ys) x = (if y = x then Some 0 else map_option Suc (slices_Index ys x))"

definition slices_Delete :: "nat \<Rightarrow> 'a list \<Rightarrow> 'a list" where
  "slices_Delete i xs = take i xs @ drop (Suc i) xs"

definition unlabelled_reason :: string where
  "unlabelled_reason = ''nodes carry no value for the topology key and hold none of this subject's objects''"

definition DropEmptyUnknown :: "Eligibility \<Rightarrow> int list \<Rightarrow> Eligibility \<times> int list" where
  "DropEmptyUnknown e actual =
     (case slices_Index (el_Domains e) DomainUnknown of
        None \<Rightarrow> (e, actual)
      | Some i \<Rightarrow>
          if i \<ge> length actual \<or> actual ! i \<noteq> 0 then (e, actual)
          else
            (let cut = (\<lambda>xs. if i < length xs then slices_Delete i xs else xs)
             in (e\<lparr>el_Domains := slices_Delete i (el_Domains e),
                   el_CapacityCPU := cut (el_CapacityCPU e),
                   el_CapacityMemory := cut (el_CapacityMemory e),
                   el_NodeCount := (if i < length (el_NodeCount e) then slices_Delete i (el_NodeCount e)
                                    else el_NodeCount e),
                   el_Excluded :=
                     gput DomainUnknown unlabelled_reason (el_Excluded e)\<rparr>,
                 slices_Delete i actual)))"

subsection \<open>Weights\<close>

definition Weights :: "Eligibility \<Rightarrow> Weighting \<Rightarrow> float64 list" where
  "Weights e w =
     (case w of
        WeightNodeCount \<Rightarrow> map (\<lambda>c. Fin (of_int c)) (el_NodeCount e)
      | WeightAllocatableCPU \<Rightarrow> map Fin (el_CapacityCPU e)
      | WeightAllocatableMemory \<Rightarrow> map Fin (el_CapacityMemory e)
      | _ \<Rightarrow> EqualWeights (length (el_Domains e)))"

definition realCapacityCPU :: "Eligibility \<Rightarrow> rat list" where
  "realCapacityCPU e =
     (let n = int (length (el_CapacityCPU e)) - el_SyntheticDomains e
      in take (nat (if n < 0 then 0 else n)) (el_CapacityCPU e))"

definition EffectiveWeighting :: "Eligibility \<Rightarrow> Intent option \<Rightarrow> Weighting" where
  "EffectiveWeighting e i =
     (let undeclared =
            (if el_UndeclaredWeighting e \<noteq> WeightAuto then el_UndeclaredWeighting e
             else if NeedsCapacityWeightingAt (map Fin (realCapacityCPU e)) (el_CapacityRatioTrigger e)
             then WeightAllocatableCPU else WeightEqual)
      in case i of
           None \<Rightarrow> undeclared
         | Some it \<Rightarrow>
             if it_Weighting it \<noteq> WeightAuto then it_Weighting it
             else if it_MaxSkew it \<noteq> None \<or> it_MaxPerDomain it \<noteq> None then WeightEqual
             else undeclared)"

definition WeightsFor :: "Eligibility \<Rightarrow> Intent option \<Rightarrow> float64 list" where
  "WeightsFor e i =
     (case i of
        Some it \<Rightarrow>
          if it_ExplicitShares it \<noteq> []
          then map (\<lambda>d. case gget (it_ExplicitShares it) d of None \<Rightarrow> Fin 0 | Some s \<Rightarrow> s) (el_Domains e)
          else Weights e (EffectiveWeighting e i)
      | None \<Rightarrow> Weights e (EffectiveWeighting e i))"

end
