(* ===== verification/Score.thy ===== *)
theory Score
  imports Eligible
begin

section \<open>Scoring and judging a placement\<close>

text \<open>
  \<^verbatim>\<open>pkg/leeway/score.go\<close>, \<^verbatim>\<open>tier.go\<close>, \<^verbatim>\<open>transient.go\<close> and the evaluation of one axis in
  \<^verbatim>\<open>pkg/sources/topologydrift/score.go\<close>: the metrics of a distribution against its expectation, the
  breach rules, the tier and severity of a breach, and what a transient state of the cluster does
  to the verdict. Shares and thresholds are exact rationals.
\<close>

subsection \<open>Scores\<close>

record Thresholds =
  th_MinReplicasForScoring :: int
  th_SmallNThreshold :: int
  th_MinRelocationSmallN :: int
  th_Drift :: rat
  th_MaxDomainShare :: rat

definition DefaultThresholds :: Thresholds where
  "DefaultThresholds =
     \<lparr>th_MinReplicasForScoring = 3, th_SmallNThreshold = 10, th_MinRelocationSmallN = 2,
      th_Drift = 1 / 5, th_MaxDomainShare = 1 / 2\<rparr>"

datatype GateReason = GateNone | GateNoDomains | GateNoObjects | GateBelowMinReplicas | GateModeIgnore

definition GateReason_String :: "GateReason \<Rightarrow> string" where
  "GateReason_String g =
     (case g of GateNone \<Rightarrow> '''' | GateNoDomains \<Rightarrow> ''no eligible domains'' | GateNoObjects \<Rightarrow> ''no objects counted''
      | GateBelowMinReplicas \<Rightarrow> ''below minReplicasForScoring'' | GateModeIgnore \<Rightarrow> ''intent mode is Ignore'')"

record Scores =
  sc_Domains :: "Domain list"
  sc_Actual :: "int list"
  sc_Expected :: "int list"
  sc_Total :: int
  sc_MaxDomainObjects :: int
  sc_ObservedSkew :: int
  sc_MinAchievableSkew :: int
  sc_ExcessSkew :: int
  sc_Relocation :: int
  sc_Drift :: rat
  sc_Concentration :: rat
  sc_MaxDomainShare :: rat
  sc_ChiSquare :: rat
  sc_ChiSquareValid :: bool
  sc_DegreesOfFreedom :: int
  sc_Unplaceable :: int
  sc_Evaluable :: bool
  sc_Gate :: GateReason

definition spread_of :: "int list \<Rightarrow> int" where
  "spread_of xs = Max (set xs) - Min (set xs)"

definition relocation :: "int list \<Rightarrow> int list \<Rightarrow> int" where
  "relocation actual expected = (\<Sum>i\<leftarrow>[0..<length actual]. max 0 (actual ! i - expected ! i))"

definition chiSquare :: "int list \<Rightarrow> int list \<Rightarrow> rat \<times> bool" where
  "chiSquare actual expected =
     (if length actual \<noteq> length expected \<or> actual = [] then (0, False)
      else ((\<Sum>(a, e)\<leftarrow>zip actual expected.
               if e \<le> 0 then 0 else of_int (a - e) * of_int (a - e) / of_int e),
            list_all (\<lambda>e. 5 \<le> e) expected))"

definition Score ::
  "Domain list \<Rightarrow> int list \<Rightarrow> Apportionment \<Rightarrow> int option \<Rightarrow> Thresholds \<Rightarrow> Scores" where
  "Score domains actual ap maxSkew t =
     (let n = sum_list actual; m = length domains;
          s = \<lparr>sc_Domains = domains, sc_Actual = actual, sc_Expected = ap_Expected ap, sc_Total = 0,
               sc_MaxDomainObjects = 0, sc_ObservedSkew = 0, sc_MinAchievableSkew = 0, sc_ExcessSkew = 0,
               sc_Relocation = 0, sc_Drift = 0, sc_Concentration = 0, sc_MaxDomainShare = 0,
               sc_ChiSquare = 0, sc_ChiSquareValid = False, sc_DegreesOfFreedom = 0,
               sc_Unplaceable = ap_Unplaceable ap, sc_Evaluable = False, sc_Gate = GateNone\<rparr>
      in if m = 0 then s\<lparr>sc_Gate := GateNoDomains\<rparr>
         else if n = 0 then s\<lparr>sc_Gate := GateNoObjects\<rparr>
         else
           (let aligned = length (ap_Expected ap) = m;
                observed = spread_of actual;
                achievable = (if aligned then spread_of (ap_Expected ap) else 0);
                bound = (case maxSkew of None \<Rightarrow> achievable | Some b \<Rightarrow> if b > achievable then b else achievable);
                r = (if aligned then relocation actual (ap_Expected ap) else 0);
                chi = chiSquare actual (ap_Expected ap)
            in s\<lparr>sc_Total := n,
                 sc_ObservedSkew := observed,
                 sc_MaxDomainObjects := Max (set actual),
                 sc_MaxDomainShare := of_int (Max (set actual)) / of_int n,
                 sc_MinAchievableSkew := achievable,
                 sc_ExcessSkew := (if observed - bound > 0 then observed - bound else 0),
                 sc_Relocation := r,
                 sc_Drift := of_int r / of_int n,
                 sc_Concentration := (\<Sum>a\<leftarrow>actual. (of_int a / of_int n) * (of_int a / of_int n)),
                 sc_ChiSquare := fst chi, sc_ChiSquareValid := snd chi,
                 sc_DegreesOfFreedom := int m - 1,
                 sc_Gate := (if n < th_MinReplicasForScoring t then GateBelowMinReplicas else GateNone),
                 sc_Evaluable := (n \<ge> th_MinReplicasForScoring t)\<rparr>))"

definition Dispersion :: "Scores \<Rightarrow> rat" where
  "Dispersion s = (if sc_Total s = 0 then 0 else 1 - sc_MaxDomainShare s)"

definition Scattered :: "Scores \<Rightarrow> int" where
  "Scattered s = sc_Total s - sc_MaxDomainObjects s"

definition Escalate :: "Scores \<Rightarrow> Thresholds \<Rightarrow> bool" where
  "Escalate s t = (sc_Evaluable s \<and> sc_MaxDomainShare s > th_MaxDomainShare t)"

definition ExpectedShares :: "Scores \<Rightarrow> rat list" where
  "ExpectedShares s =
     (let total = sum_list (sc_Expected s)
      in if total = 0 then map (\<lambda>_. 0) (sc_Expected s)
         else map (\<lambda>e. of_int e / of_int total) (sc_Expected s))"

subsection \<open>Breaches\<close>

datatype BreachKind = BreachNone | BreachPerDomainCeiling | BreachMaxSkew | BreachDrift | BreachBaseline

definition BreachKind_String :: "BreachKind \<Rightarrow> string" where
  "BreachKind_String b =
     (case b of BreachNone \<Rightarrow> '''' | BreachPerDomainCeiling \<Rightarrow> ''per-domain-ceiling'' | BreachMaxSkew \<Rightarrow> ''max-skew''
      | BreachDrift \<Rightarrow> ''drift'' | BreachBaseline \<Rightarrow> ''baseline'')"

definition Contract :: "BreachKind \<Rightarrow> bool" where
  "Contract b = (b = BreachPerDomainCeiling \<or> b = BreachMaxSkew)"

definition breachColocate :: "Scores \<Rightarrow> Thresholds \<Rightarrow> BreachKind \<times> string" where
  "breachColocate s t =
     (if Dispersion s \<le> th_Drift t then (BreachNone, '''')
      else if sc_Total s < th_SmallNThreshold t \<and> Scattered s < th_MinRelocationSmallN t
      then (BreachNone, ''small-n: scattered objects below floor'')
      else (BreachDrift, ''objects scattered across domains against a colocation intent''))"

text \<open>How far domain \<open>i\<close> is from its learned share, where the baseline knows it.\<close>

definition deviation :: "Scores \<Rightarrow> nat \<Rightarrow> rat" where
  "deviation s i =
     (let share = (if sc_Total s > 0 \<and> i < length (sc_Actual s)
                   then of_int (sc_Actual s ! i) / of_int (sc_Total s) else 0);
          want = (if i < length (ExpectedShares s) then ExpectedShares s ! i else 0)
      in abs (share - want))"

definition worst_step ::
  "Scores \<Rightarrow> (Domain \<times> rat) list \<Rightarrow> (Domain \<times> rat) option \<Rightarrow> nat \<times> Domain \<Rightarrow> (Domain \<times> rat) option" where
  "worst_step s bands worst iw =
     (case gget bands (snd iw) of
        None \<Rightarrow> worst
      | Some band \<Rightarrow>
          (let dev = deviation s (fst iw); worstDev = (case worst of None \<Rightarrow> 0 | Some (_, w) \<Rightarrow> w)
           in if dev > band \<and> dev > worstDev then Some (snd iw, dev) else worst))"

definition breachBaseline :: "Scores \<Rightarrow> Intent \<Rightarrow> Thresholds \<Rightarrow> BreachKind \<times> string" where
  "breachBaseline s intent t =
     (case foldl (worst_step s (it_Bands intent)) None (zip [0..<length (sc_Domains s)] (sc_Domains s)) of
        None \<Rightarrow> (BreachNone, '''')
      | Some (worst, _) \<Rightarrow>
          if sc_Total s < th_SmallNThreshold t \<and> sc_Relocation s < th_MinRelocationSmallN t
          then (BreachNone, ''small-n: relocation below floor'')
          else (BreachBaseline, ''domain '' @ worst @ '' is outside its learned band''))"

definition breach :: "Scores \<Rightarrow> Intent option \<Rightarrow> Thresholds \<Rightarrow> BreachKind \<times> string" where
  "breach s intent t =
     (if intent \<noteq> None \<and> it_Mode (the intent) = ModeIgnore then (BreachNone, GateReason_String GateModeIgnore)
      else if \<not> sc_Evaluable s then (BreachNone, GateReason_String (sc_Gate s))
      else if HardPerDomainContract intent \<and> sc_MaxDomainObjects s > the (it_MaxPerDomain (the intent))
      then (BreachPerDomainCeiling, ''a domain holds more objects than the declared per-domain ceiling'')
      else if HardSkewContract intent then
        (if sc_ExcessSkew s > 0 then (BreachMaxSkew, ''observed skew exceeds the declared maxSkew'')
         else (BreachNone, ''observed skew within the declared maxSkew''))
      else if intent \<noteq> None \<and> it_Mode (the intent) = ModeColocate then breachColocate s t
      else if intent \<noteq> None \<and> it_Bands (the intent) \<noteq> [] then breachBaseline s (the intent) t
      else if sc_Drift s \<le> th_Drift t then (BreachNone, '''')
      else if sc_Total s < th_SmallNThreshold t \<and> sc_Relocation s < th_MinRelocationSmallN t
      then (BreachNone, ''small-n: relocation below floor'')
      else (BreachDrift, ''normalised drift over threshold''))"

definition Breach :: "Scores \<Rightarrow> Intent option \<Rightarrow> Thresholds \<Rightarrow> bool \<times> string" where
  "Breach s intent t = (let (k, reason) = breach s intent t in (k \<noteq> BreachNone, reason))"

subsection \<open>Tiers\<close>

datatype Tier = TierNone | TierA | TierB | TierC

definition Tier_String :: "Tier \<Rightarrow> string" where
  "Tier_String t = (case t of TierA \<Rightarrow> ''A'' | TierB \<Rightarrow> ''B'' | TierC \<Rightarrow> ''C'' | TierNone \<Rightarrow> '''')"

definition severityInfo :: string where "severityInfo = ''info''"
definition severityWarning :: string where "severityWarning = ''warning''"
definition severityCritical :: string where "severityCritical = ''critical''"

definition ValidSeverity :: "string \<Rightarrow> bool" where
  "ValidSeverity s = (s = severityInfo \<or> s = severityWarning \<or> s = severityCritical)"

definition Severities :: "string list" where
  "Severities = [severityInfo, severityWarning, severityCritical]"

definition Tier_Severity :: "Tier \<Rightarrow> string" where
  "Tier_Severity t =
     (case t of TierA \<Rightarrow> severityCritical | TierB \<Rightarrow> severityWarning | TierC \<Rightarrow> severityInfo | TierNone \<Rightarrow> '''')"

definition leeway_classify :: "Intent option \<Rightarrow> BreachKind \<Rightarrow> Tier" where
  "leeway_classify intent k =
     (if intent = None \<or> it_Source (the intent) = SourceLearnedBaseline then TierC
      else if Contract k then TierA else TierB)"

datatype TransientState =
  TransientNone | TransientWarmup | TransientDomainOutage | TransientRollout | TransientDrain | TransientScale

definition TransientState_String :: "TransientState \<Rightarrow> string" where
  "TransientState_String s =
     (case s of TransientNone \<Rightarrow> '''' | TransientWarmup \<Rightarrow> ''cluster-warmup'' | TransientDomainOutage \<Rightarrow> ''domain-outage''
      | TransientRollout \<Rightarrow> ''rollout'' | TransientDrain \<Rightarrow> ''node-drain'' | TransientScale \<Rightarrow> ''recent-scale'')"

record Verdict =
  ve_Breached :: bool
  ve_Kind :: BreachKind
  ve_Tier :: Tier
  ve_Severity :: string
  ve_Reason :: string
  ve_Escalated :: bool
  ve_Transient :: TransientState
  ve_Suppressed :: bool
  ve_Relaxed :: bool
  ve_SeverityFromPolicy :: bool

definition zero_verdict :: Verdict where
  "zero_verdict =
     \<lparr>ve_Breached = False, ve_Kind = BreachNone, ve_Tier = TierNone, ve_Severity = [], ve_Reason = [],
      ve_Escalated = False, ve_Transient = TransientNone, ve_Suppressed = False, ve_Relaxed = False,
      ve_SeverityFromPolicy = False\<rparr>"

definition Judge :: "Scores \<Rightarrow> Intent option \<Rightarrow> Thresholds \<Rightarrow> Verdict" where
  "Judge s intent t =
     (let (kind, reason) = breach s intent t;
          v = zero_verdict\<lparr>ve_Kind := kind, ve_Reason := reason, ve_Breached := (kind \<noteq> BreachNone)\<rparr>
      in if kind = BreachNone then v
         else
           (let tier = leeway_classify intent kind;
                escalated = ((intent = None \<or> it_Mode (the intent) \<noteq> ModeColocate) \<and> Escalate s t);
                severity = (if escalated \<and> tier = TierC then severityWarning else Tier_Severity tier);
                override = (intent \<noteq> None \<and> ValidSeverity (it_Severity (the intent)))
            in v\<lparr>ve_Tier := tier, ve_Escalated := escalated,
                 ve_Severity := (if override then it_Severity (the intent) else severity),
                 ve_SeverityFromPolicy := override\<rparr>))"

record Delivery =
  dy_Signal :: bool
  dy_Severity :: string
  dy_Reason :: string

definition Verdict_Route :: "Verdict \<Rightarrow> bool \<Rightarrow> Delivery" where
  "Verdict_Route v tierCSignals =
     (if ve_Suppressed v then \<lparr>dy_Signal = False, dy_Severity = [], dy_Reason = ve_Reason v\<rparr>
      else if \<not> ve_Breached v then \<lparr>dy_Signal = False, dy_Severity = [], dy_Reason = ''no breach''\<rparr>
      else if ve_Tier v = TierC \<and> \<not> tierCSignals \<and> \<not> ve_SeverityFromPolicy v
      then \<lparr>dy_Signal = False, dy_Severity = [], dy_Reason = ''tier C is metrics-only unless enabled by policy''\<rparr>
      else \<lparr>dy_Signal = True, dy_Severity = ve_Severity v, dy_Reason = []\<rparr>)"

subsection \<open>Transient states\<close>

record TransientConfig =
  tc_ScaleSettleWindow :: duration
  tc_DrainSettleWindow :: duration
  tc_OutageWindow :: duration
  tc_Multiplier :: rat

definition DefaultTransientConfig :: TransientConfig where
  "DefaultTransientConfig =
     \<lparr>tc_ScaleSettleWindow = 5 * Minute, tc_DrainSettleWindow = 10 * Minute, tc_OutageWindow = 15 * Minute,
      tc_Multiplier = 5 / 2\<rparr>"

definition transient_normalize :: "TransientConfig \<Rightarrow> TransientConfig" where
  "transient_normalize c =
     (let d = DefaultTransientConfig
      in \<lparr>tc_ScaleSettleWindow =
            (if tc_ScaleSettleWindow c \<le> 0 then tc_ScaleSettleWindow d else tc_ScaleSettleWindow c),
          tc_DrainSettleWindow =
            (if tc_DrainSettleWindow c \<le> 0 then tc_DrainSettleWindow d else tc_DrainSettleWindow c),
          tc_OutageWindow = (if tc_OutageWindow c \<le> 0 then tc_OutageWindow d else tc_OutageWindow c),
          tc_Multiplier = (if tc_Multiplier c < 1 then tc_Multiplier d else tc_Multiplier c)\<rparr>)"

record Transients =
  tr_RolloutInProgress :: bool
  tr_ScaledAt :: gotime
  tr_DrainedAt :: gotime
  tr_Warming :: bool
  tr_DomainOutage :: bool

record Suppression =
  sp_State :: TransientState
  sp_Suppress :: bool
  sp_Relax :: bool
  sp_Multiplier :: rat
  sp_Reason :: string

definition zero_suppression :: Suppression where
  "zero_suppression =
     \<lparr>sp_State = TransientNone, sp_Suppress = False, sp_Relax = False, sp_Multiplier = 0, sp_Reason = []\<rparr>"

definition relaxed :: "TransientState \<Rightarrow> string \<Rightarrow> rat \<Rightarrow> Suppression" where
  "relaxed s reason factor =
     zero_suppression\<lparr>sp_State := s, sp_Relax := True, sp_Multiplier := factor, sp_Reason := reason\<rparr>"

definition recent :: "gotime \<Rightarrow> gotime \<Rightarrow> duration \<Rightarrow> bool" where
  "recent now since window =
     (if IsZero since then False
      else (let age = time_Sub now since in age < window \<and> age > - window))"

definition Transients_Classify :: "Transients \<Rightarrow> gotime \<Rightarrow> TransientConfig \<Rightarrow> Suppression" where
  "Transients_Classify tr now c0 =
     (let c = transient_normalize c0 in
      if tr_Warming tr then
        zero_suppression\<lparr>sp_State := TransientWarmup, sp_Suppress := True,
          sp_Reason := ''the cluster sentinel has not armed, so the counts are a partial view''\<rparr>
      else if tr_DomainOutage tr then
        zero_suppression\<lparr>sp_State := TransientDomainOutage, sp_Suppress := True,
          sp_Reason := ''an eligible domain lost more than half its ready nodes''\<rparr>
      else if tr_RolloutInProgress tr then
        relaxed TransientRollout ''a rollout is in progress'' (tc_Multiplier c)
      else if recent now (tr_DrainedAt tr) (tc_DrainSettleWindow c) then
        relaxed TransientDrain ''a node was cordoned inside the drain settle window'' (tc_Multiplier c)
      else if recent now (tr_ScaledAt tr) (tc_ScaleSettleWindow c) then
        relaxed TransientScale ''the replica count changed inside the scale settle window'' (tc_Multiplier c)
      else zero_suppression)"

record ReadyCount =
  rd_At :: gotime
  rd_Ready :: int

definition DomainOutage :: "TransientConfig \<Rightarrow> ReadyCount list \<Rightarrow> int \<Rightarrow> gotime \<Rightarrow> bool" where
  "DomainOutage c history ready now =
     (let cutoff = now - tc_OutageWindow (transient_normalize c);
          seen = foldl (\<lambda>peak h. if rd_At h > cutoff \<and> rd_Ready h > peak then rd_Ready h else peak) 0 history;
          peak = (if ready > seen then ready else seen)
      in peak > 0 \<and> ready * 2 < peak)"

definition scaleCount :: "int \<Rightarrow> rat \<Rightarrow> int" where
  "scaleCount n factor = (if n \<le> 0 then n else \<lceil>of_int n * factor\<rceil>)"

definition Relaxed :: "Thresholds \<Rightarrow> rat \<Rightarrow> Thresholds" where
  "Relaxed t factor =
     (if factor \<le> 1 then t
      else t\<lparr>th_Drift := th_Drift t * factor,
             th_MaxDomainShare := min 1 (th_MaxDomainShare t * factor),
             th_SmallNThreshold := scaleCount (th_SmallNThreshold t) factor,
             th_MinRelocationSmallN := scaleCount (th_MinRelocationSmallN t) factor\<rparr>)"

definition JudgeTransient :: "Scores \<Rightarrow> Intent option \<Rightarrow> Thresholds \<Rightarrow> Suppression \<Rightarrow> Verdict" where
  "JudgeTransient s intent t sp =
     (if sp_Suppress sp then
        zero_verdict\<lparr>ve_Transient := sp_State sp, ve_Suppressed := True, ve_Reason := sp_Reason sp\<rparr>
      else
        (let t' = (if sp_Relax sp then Relaxed t (sp_Multiplier sp) else t);
             v = (Judge s intent t')\<lparr>ve_Transient := sp_State sp, ve_Relaxed := sp_Relax sp\<rparr>
         in if sp_Relax sp \<and> ve_Breached v
            then v\<lparr>ve_Reason := ve_Reason v @ ''; '' @ sp_Reason sp @ '', and the relaxed threshold was exceeded anyway''\<rparr>
            else v))"

subsection \<open>One axis of one subject\<close>

record Evaluation =
  ea_Key :: TopologyKey
  ea_Intent :: "Intent option"
  ea_Eligible :: Eligibility
  ea_Apportionment :: Apportionment
  ea_Scores :: Scores
  ea_Suppression :: Suppression
  ea_Verdict :: Verdict

definition capsFor :: "Intent option \<Rightarrow> Eligibility \<Rightarrow> int list option" where
  "capsFor intent eligible =
     (case intent of
        None \<Rightarrow> None
      | Some it \<Rightarrow>
          if it_MaxPerDomain it = None \<and> it_DomainCaps it = [] then None
          else Some (map (\<lambda>d. case gget (it_DomainCaps it) d of
                                Some c \<Rightarrow> c
                              | None \<Rightarrow> (case it_MaxPerDomain it of Some b \<Rightarrow> b | None \<Rightarrow> Uncapped))
                      (el_Domains eligible)))"

definition ScoreAxis ::
  "TopologyKey \<Rightarrow> Intent option \<Rightarrow> Eligibility \<Rightarrow> Distribution option \<Rightarrow> Thresholds \<Rightarrow> Suppression \<Rightarrow> Evaluation" where
  "ScoreAxis key intent eligible0 placed t sp =
     (let actual0 = (case placed of Some d \<Rightarrow> Counts d (el_Domains eligible0) [StateRunning]
                                | None \<Rightarrow> map (\<lambda>_. 0) (el_Domains eligible0));
          (eligible, actual) = DropEmptyUnknown eligible0 actual0;
          n = sum_list actual;
          maxSkew = (case intent of None \<Rightarrow> None | Some it \<Rightarrow> it_MaxSkew it);
          ap = Apportion n (WeightsFor eligible intent) (capsFor intent eligible);
          scores = Score (el_Domains eligible) actual ap maxSkew t
      in \<lparr>ea_Key = key, ea_Intent = intent, ea_Eligible = eligible, ea_Apportionment = ap,
          ea_Scores = scores, ea_Suppression = sp, ea_Verdict = JudgeTransient scores intent t sp\<rparr>)"

definition ScoreSubject ::
  "(TopologyKey \<times> Intent) list \<Rightarrow> (TopologyKey \<times> Eligibility) list \<Rightarrow> (TopologyKey \<times> Distribution) list
   \<Rightarrow> Thresholds \<Rightarrow> (TopologyKey \<Rightarrow> Eligibility \<Rightarrow> Suppression) option \<Rightarrow> Evaluation list" where
  "ScoreSubject intents eligible dists t sp =
     map (\<lambda>key. let e = the (gget eligible key);
                    s = (case sp of None \<Rightarrow> zero_suppression | Some f \<Rightarrow> f key e)
                in ScoreAxis key (gget intents key) e (gget dists key) t s)
       (SortedKeys eligible)"

end
