(* ===== verification/EligibleLaws.thy ===== *)
theory EligibleLaws
  imports Eligible
begin

section \<open>Laws of the eligible set\<close>

text \<open>
  The eligible domains are exactly those with a usable node, in canonical order, followed by the
  padding for \<open>MinDomains\<close>; the parallel slices stay aligned with them.
\<close>

subsection \<open>The tally of a domain is a function of its nodes\<close>

definition nodes_in :: "Domain \<Rightarrow> NodeView list \<Rightarrow> NodeView list" where
  "nodes_in d nodes = filter (\<lambda>n. NormaliseDomain (nv_Domain n) = d) nodes"

definition usable_in :: "EligibilityOptions \<Rightarrow> Domain \<Rightarrow> NodeView list \<Rightarrow> NodeView list" where
  "usable_in opts d nodes = filter (\<lambda>n. snd (nodeUsable n opts)) (nodes_in d nodes)"

definition tally_of :: "EligibilityOptions \<Rightarrow> NodeView list \<Rightarrow> domainAgg" where
  "tally_of opts ns = foldl (\<lambda>a n. agg_node opts n a) zero_agg ns"

lemma nodes_in_snoc:
  "nodes_in d (ns @ [n]) = nodes_in d ns @ (if NormaliseDomain (nv_Domain n) = d then [n] else [])"
  by (simp add: nodes_in_def)

lemma aggregate_get:
  "gget (aggregate opts nodes) d =
     (if nodes_in d nodes = [] then None else Some (tally_of opts (nodes_in d nodes)))"
proof (induction nodes arbitrary: d rule: rev_induct)
  case (snoc n ns)
  have "aggregate opts (ns @ [n]) =
      (let d = NormaliseDomain (nv_Domain n);
           a = (case gget (aggregate opts ns) d of None \<Rightarrow> zero_agg | Some a \<Rightarrow> a)
       in gput d (agg_node opts n a) (aggregate opts ns))"
    by (simp add: aggregate_def)
  then show ?case using snoc by (simp add: Let_def nodes_in_snoc tally_of_def)
qed (simp add: aggregate_def nodes_in_def)

lemma aggregate_gokeys: "gokeys (aggregate opts nodes)"
  unfolding aggregate_def
  by (rule foldl_invariant) (auto simp: Let_def)

lemma aggregate_keys: "d \<in> fst ` set (aggregate opts nodes) \<longleftrightarrow> nodes_in d nodes \<noteq> []"
  using gget_in_keys[of "aggregate opts nodes" d] by (simp add: aggregate_get split: if_splits)

lemma agg_node_fields:
  "da_eligible (agg_node opts n a) = da_eligible a + (if snd (nodeUsable n opts) then 1 else 0)"
  "da_cpu (agg_node opts n a) = da_cpu a + (if snd (nodeUsable n opts) then nv_AllocatableCPU n else 0)"
  "da_memory (agg_node opts n a) = da_memory a + (if snd (nodeUsable n opts) then nv_AllocatableMemory n else 0)"
  by (simp_all add: agg_node_def agg_note_def Let_def split: prod.splits)

lemma tally_fields:
  "da_eligible (tally_of opts ns) = int (length (filter (\<lambda>n. snd (nodeUsable n opts)) ns))"
  "da_cpu (tally_of opts ns) = (\<Sum>n\<leftarrow>filter (\<lambda>n. snd (nodeUsable n opts)) ns. nv_AllocatableCPU n)"
  "da_memory (tally_of opts ns) = (\<Sum>n\<leftarrow>filter (\<lambda>n. snd (nodeUsable n opts)) ns. nv_AllocatableMemory n)"
  by (induction ns rule: rev_induct) (auto simp: tally_of_def zero_agg_def agg_node_fields)

subsection \<open>Which domains are eligible\<close>

definition real_domains :: "EligibilityOptions \<Rightarrow> NodeView list \<Rightarrow> Domain list" where
  "real_domains opts nodes = SortDomains (map fst (filter (\<lambda>(d, a). da_eligible a > 0) (aggregate opts nodes)))"

lemma aggregate_entry:
  "(d, a) \<in> set (aggregate opts nodes) \<longleftrightarrow> nodes_in d nodes \<noteq> [] \<and> a = tally_of opts (nodes_in d nodes)"
  using map_of_eq_Some_iff[OF aggregate_gokeys, of opts nodes d a] by (auto simp: aggregate_get split: if_splits)

lemma real_domains_set: "d \<in> set (real_domains opts nodes) \<longleftrightarrow> usable_in opts d nodes \<noteq> []"
proof -
  have "d \<in> set (real_domains opts nodes) \<longleftrightarrow> (\<exists>a. (d, a) \<in> set (aggregate opts nodes) \<and> da_eligible a > 0)"
    by (force simp: real_domains_def SortDomains_def)
  also have "\<dots> \<longleftrightarrow> usable_in opts d nodes \<noteq> []"
    by (auto simp: aggregate_entry tally_fields usable_in_def)
  finally show ?thesis .
qed

lemma real_domains_canonical:
  "sorted (map (\<lambda>d. (d = DomainUnknown, d)) (real_domains opts nodes))" "distinct (real_domains opts nodes)"
  using aggregate_gokeys by (simp_all add: real_domains_def SortDomains_def)

subsection \<open>Alignment\<close>

text \<open>
  The parallel slices have one entry per domain, and the padding is the tail of them. Every
  operation that narrows an eligibility keeps this.
\<close>

definition el_aligned :: "Eligibility \<Rightarrow> bool" where
  "el_aligned e =
     (length (el_CapacityCPU e) = length (el_Domains e) \<and> length (el_CapacityMemory e) = length (el_Domains e)
      \<and> length (el_NodeCount e) = length (el_Domains e)
      \<and> 0 \<le> el_SyntheticDomains e \<and> el_SyntheticDomains e \<le> int (length (el_Domains e))
      \<and> (\<forall>i. length (el_Domains e) - nat (el_SyntheticDomains e) \<le> i \<and> i < length (el_Domains e) \<longrightarrow>
             IsSynthetic (el_Domains e ! i) \<and> el_CapacityCPU e ! i = 0 \<and> el_NodeCount e ! i = 0))"

lemma EligibleDomains_eq:
  "EligibleDomains nodes opts =
     (let domains = real_domains opts nodes; pad = padding (eo_MinDomains opts) (length domains)
      in \<lparr>el_Domains = domains @ map syntheticDomain pad,
          el_CapacityCPU = map (\<lambda>d. \<Sum>n\<leftarrow>usable_in opts d nodes. nv_AllocatableCPU n) domains @ map (\<lambda>_. 0) pad,
          el_CapacityMemory = map (\<lambda>d. \<Sum>n\<leftarrow>usable_in opts d nodes. nv_AllocatableMemory n) domains @ map (\<lambda>_. 0) pad,
          el_CapacityRatioTrigger = eo_CapacityRatioTrigger opts,
          el_UndeclaredWeighting = eo_UndeclaredWeighting opts,
          el_NodeCount = map (\<lambda>d. int (length (usable_in opts d nodes))) domains @ map (\<lambda>_. 0) pad,
          el_Excluded = el_Excluded (EligibleDomains nodes opts),
          el_Unready = el_Unready (EligibleDomains nodes opts),
          el_SyntheticDomains = int (length pad)\<rparr>)"
proof -
  have t: "the (gget (aggregate opts nodes) d) = tally_of opts (nodes_in d nodes)"
    if "d \<in> set (real_domains opts nodes)" for d
    using that by (auto simp: real_domains_set usable_in_def aggregate_get)
  show ?thesis
    unfolding EligibleDomains_def real_domains_def[symmetric] Let_def
    by (simp add: t tally_fields usable_in_def)
qed

lemma decimal_ne [simp]: "decimal n \<noteq> []"
  by (subst decimal.simps) simp

lemma syntheticDomain_IsSynthetic [simp]: "IsSynthetic (syntheticDomain i)"
  by (simp add: IsSynthetic_def syntheticDomain_def strings_HasPrefix_def strconv_Itoa_def)

lemma EligibleDomains_aligned: "el_aligned (EligibleDomains nodes opts)"
  by (subst EligibleDomains_eq) (auto simp: el_aligned_def Let_def nth_append)

lemma slices_Index_Some: "slices_Index xs x = Some i \<Longrightarrow> i < length xs \<and> xs ! i = x"
  by (induction xs arbitrary: i) (auto split: if_splits)

lemma slices_Index_None: "slices_Index xs x = None \<longleftrightarrow> x \<notin> set xs"
  by (induction xs) auto

lemma slices_Delete_length [simp]: "i < length xs \<Longrightarrow> length (slices_Delete i xs) = length xs - 1"
  by (simp add: slices_Delete_def)

lemma slices_Delete_nth: "i < length xs \<Longrightarrow> j < length xs - 1 \<Longrightarrow> slices_Delete i xs ! j = xs ! (if j < i then j else Suc j)"
  by (auto simp: slices_Delete_def nth_append)

lemma unknown_not_synthetic: "\<not> IsSynthetic DomainUnknown"
  by (simp add: IsSynthetic_def DomainUnknown_def syntheticPrefix_def strings_HasPrefix_def)

lemma DropEmptyUnknown_aligned:
  assumes "el_aligned e" "length actual = length (el_Domains e)" "DropEmptyUnknown e actual = (e', actual')"
  shows "el_aligned e'" "length actual' = length (el_Domains e')"
proof -
  let ?i = "slices_Index (el_Domains e) DomainUnknown"
  show "length actual' = length (el_Domains e')"
    using assms by (auto simp: DropEmptyUnknown_def Let_def split: option.splits if_splits dest: slices_Index_Some)
  show "el_aligned e'"
  proof (cases ?i)
    case None
    then show ?thesis using assms by (simp add: DropEmptyUnknown_def)
  next
    case (Some i)
    note i = slices_Index_Some[OF Some]
    show ?thesis
    proof (cases "actual ! i \<noteq> 0")
      case True
      then show ?thesis using assms Some i by (simp add: DropEmptyUnknown_def)
    next
      case False
      have real: "i < length (el_Domains e) - nat (el_SyntheticDomains e)"
      proof (rule ccontr)
        assume "\<not> ?thesis"
        then have "IsSynthetic (el_Domains e ! i)" using assms(1) i unfolding el_aligned_def not_less by blast
        then show False using i unknown_not_synthetic by simp
      qed
      let ?m = "length (el_Domains e)" and ?k = "nat (el_SyntheticDomains e)"
      have e': "el_Domains e' = slices_Delete i (el_Domains e)" "el_CapacityCPU e' = slices_Delete i (el_CapacityCPU e)"
        "el_CapacityMemory e' = slices_Delete i (el_CapacityMemory e)" "el_NodeCount e' = slices_Delete i (el_NodeCount e)"
        "el_SyntheticDomains e' = el_SyntheticDomains e"
        using assms Some i False by (auto simp: DropEmptyUnknown_def Let_def el_aligned_def)
      have al: "length (el_CapacityCPU e) = ?m" "length (el_CapacityMemory e) = ?m" "length (el_NodeCount e) = ?m"
        "0 \<le> el_SyntheticDomains e"
        "\<And>j. ?m - ?k \<le> j \<Longrightarrow> j < ?m \<Longrightarrow> IsSynthetic (el_Domains e ! j) \<and> el_CapacityCPU e ! j = 0 \<and> el_NodeCount e ! j = 0"
        using assms(1) by (auto simp: el_aligned_def)
      have "IsSynthetic (el_Domains e' ! j) \<and> el_CapacityCPU e' ! j = 0 \<and> el_NodeCount e' ! j = 0"
        if "?m - 1 - ?k \<le> j" "j < ?m - 1" for j
      proof -
        have "\<not> j < i" "?m - ?k \<le> Suc j" "Suc j < ?m" using that real by auto
        then show ?thesis using al(5)[of "Suc j"] al(1-3) i that by (simp add: e' slices_Delete_nth)
      qed
      moreover have "el_SyntheticDomains e \<le> int (?m - 1)" using real al(4) by linarith
      ultimately show ?thesis using al(1-4) i by (auto simp: el_aligned_def e')
    qed
  qed
qed

subsection \<open>What was left out\<close>

lemma EligibleDomains_excluded:
  "fst ` set (el_Excluded (EligibleDomains nodes opts)) = {d. nodes_in d nodes \<noteq> [] \<and> usable_in opts d nodes = []}"
proof -
  have "fst ` set (el_Excluded (EligibleDomains nodes opts)) =
      {d. \<exists>a. (d, a) \<in> set (aggregate opts nodes) \<and> da_eligible a = 0}"
    by (force simp: EligibleDomains_def Let_def)
  also have "\<dots> = {d. nodes_in d nodes \<noteq> [] \<and> usable_in opts d nodes = []}"
    by (simp add: aggregate_entry tally_fields usable_in_def cong: conj_cong)
  finally show ?thesis .
qed

text \<open>
  C25: a domain is scored exactly when the subject could be placed there. The eligible domains are
  the domains with a node that passes the selector, taint, readiness and cordon checks, each once
  and in canonical order with the unknown domain last, followed by the placeholders that bring
  their number up to \<open>MinDomains\<close>. Capacity and node count of a domain are those of its usable nodes,
  a placeholder has none, and every other domain of the cluster is listed as excluded. The slices
  stay aligned with the domains, also after the empty unknown domain is dropped, and dropping it
  loses no object.
\<close>

theorem eligible_set_exact:
  fixes nodes opts
  defines "e \<equiv> EligibleDomains nodes opts"
  defines "m \<equiv> length (el_Domains e) - nat (el_SyntheticDomains e)"
  shows "set (take m (el_Domains e)) = {d. \<exists>n \<in> set nodes. NormaliseDomain (nv_Domain n) = d \<and> snd (nodeUsable n opts)}
       \<and> distinct (take m (el_Domains e)) \<and> sorted (map (\<lambda>d. (d = DomainUnknown, d)) (take m (el_Domains e)))
       \<and> el_Domains e = take m (el_Domains e) @ map syntheticDomain [m..<length (el_Domains e)]
       \<and> length (el_Domains e) = (case eo_MinDomains opts of None \<Rightarrow> m | Some w \<Rightarrow> max m (nat w))
       \<and> el_CapacityCPU e = map (\<lambda>d. \<Sum>n\<leftarrow>usable_in opts d nodes. nv_AllocatableCPU n) (take m (el_Domains e))
                             @ replicate (length (el_Domains e) - m) 0
       \<and> el_NodeCount e = map (\<lambda>d. int (length (usable_in opts d nodes))) (take m (el_Domains e))
                             @ replicate (length (el_Domains e) - m) 0
       \<and> fst ` set (el_Excluded e) = (\<lambda>n. NormaliseDomain (nv_Domain n)) ` set nodes - set (take m (el_Domains e))
       \<and> (\<forall>actual. length actual = length (el_Domains e) \<longrightarrow>
            (case DropEmptyUnknown e actual of (e', actual') \<Rightarrow>
               el_aligned e' \<and> length actual' = length (el_Domains e') \<and> sum_list actual' = sum_list actual))"
proof -
  let ?R = "real_domains opts nodes"
  let ?pad = "padding (eo_MinDomains opts) (length ?R)"
  have eq: "el_Domains e = ?R @ map syntheticDomain ?pad" "el_SyntheticDomains e = int (length ?pad)"
    "el_CapacityCPU e = map (\<lambda>d. \<Sum>n\<leftarrow>usable_in opts d nodes. nv_AllocatableCPU n) ?R @ map (\<lambda>_. 0) ?pad"
    "el_NodeCount e = map (\<lambda>d. int (length (usable_in opts d nodes))) ?R @ map (\<lambda>_. 0) ?pad"
    unfolding e_def by (subst EligibleDomains_eq, simp add: Let_def)+
  then have m: "m = length ?R" by (simp add: m_def)
  have pad: "?pad = [m..<length (el_Domains e)]"
    "length (el_Domains e) = (case eo_MinDomains opts of None \<Rightarrow> m | Some w \<Rightarrow> max m (nat w))"
    by (auto simp: eq padding_def m split: option.splits)
  have zeros: "map (\<lambda>_. 0) ?pad = replicate (length (el_Domains e) - m) (0 :: 'z :: zero)"
    by (simp add: pad(1) map_replicate_const)
  have R: "set ?R = {d. \<exists>n \<in> set nodes. NormaliseDomain (nv_Domain n) = d \<and> snd (nodeUsable n opts)}"
    by (auto simp: real_domains_set usable_in_def nodes_in_def filter_empty_conv)
  have ex: "fst ` set (el_Excluded e) = (\<lambda>n. NormaliseDomain (nv_Domain n)) ` set nodes - set ?R"
    unfolding e_def EligibleDomains_excluded
    by (auto simp: real_domains_set nodes_in_def filter_empty_conv)
  have drop: "case DropEmptyUnknown e actual of (e', actual') \<Rightarrow>
               el_aligned e' \<and> length actual' = length (el_Domains e') \<and> sum_list actual' = sum_list actual"
    if len: "length actual = length (el_Domains e)" for actual
  proof -
    obtain e' actual' where d: "DropEmptyUnknown e actual = (e', actual')" by (cases "DropEmptyUnknown e actual")
    have "sum_list actual' = sum_list actual"
    proof -
      have "sum_list (slices_Delete i xs) = sum_list xs" if "i < length xs" "xs ! i = 0" for i and xs :: "int list"
        using that id_take_nth_drop[of i xs] by (metis add_0 slices_Delete_def sum_list.append sum_list.Cons)
      then show ?thesis
        using d len by (auto simp: DropEmptyUnknown_def Let_def split: option.splits if_splits)
    qed
    then show ?thesis
      using DropEmptyUnknown_aligned[OF EligibleDomains_aligned[of nodes opts, folded e_def] len d] d by simp
  qed
  have t: "take m (el_Domains e) = ?R" by (simp add: eq m)
  show ?thesis
    unfolding t
    using R real_domains_canonical[of opts nodes] eq(1)[unfolded pad(1)] eq(3)[unfolded zeros] eq(4)[unfolded zeros]
      pad(2) ex drop by blast
qed

definition three_zones :: "NodeView list" where
  "three_zones =
     map (\<lambda>(nm, zn, ready, cpu). \<lparr>nv_Name = nm, nv_Domain = zn, nv_Ready = ready, nv_Schedulable = True,
            nv_MatchesSelector = True, nv_Tolerated = False, nv_AllocatableCPU = cpu, nv_AllocatableMemory = 0\<rparr>)
       [(''n1'', ''b'', True, 4), (''n2'', [], True, 8), (''n3'', ''a'', True, 4), (''n4'', ''c'', False, 4)]"

theorem eligible_set_exact_witness:
  "el_Domains (EligibleDomains three_zones (DefaultEligibilityOptions\<lparr>eo_MinDomains := Some 4\<rparr>)) =
     [''a'', ''b'', DomainUnknown, ''__absent__/3'']
   \<and> (\<exists>e'. DropEmptyUnknown (EligibleDomains three_zones (DefaultEligibilityOptions\<lparr>eo_MinDomains := Some 4\<rparr>)) [2, 1, 0, 0]
           = (e', [2, 1, 0]) \<and> el_aligned e')"
proof -
  let ?o = "DefaultEligibilityOptions\<lparr>eo_MinDomains := Some 4\<rparr>"
  let ?e = "EligibleDomains three_zones ?o"
  have d: "el_Domains ?e = [''a'', ''b'', DomainUnknown, ''__absent__/3'']" by code_simp
  then have len: "length [2, 1, 0, 0 :: int] = length (el_Domains ?e)" by simp
  have a: "snd (DropEmptyUnknown ?e [2, 1, 0, 0]) = [2, 1, 0]" by code_simp
  have "case DropEmptyUnknown ?e [2, 1, 0, 0] of (e', actual') \<Rightarrow>
          el_aligned e' \<and> length actual' = length (el_Domains e') \<and> sum_list actual' = sum_list [2, 1, 0, 0]"
    by (rule eligible_set_exact[where nodes = three_zones and opts = ?o, THEN conjunct2, THEN conjunct2, THEN conjunct2,
          THEN conjunct2, THEN conjunct2, THEN conjunct2, THEN conjunct2, THEN conjunct2, rule_format, OF len])
  then have "el_aligned (fst (DropEmptyUnknown ?e [2, 1, 0, 0]))" by (simp only: split_beta)
  then show ?thesis using d a by (metis prod.collapse)
qed

end
