(* ===== verification/IntentLaws.thy ===== *)
theory IntentLaws
  imports Intent
begin

section \<open>Laws of intent resolution\<close>

text \<open>
  What \<open>ResolveIntents\<close> keeps of the candidates: the description of the highest-precedence one, the
  losers as evidence, and a scheduler-enforced skew bound whoever declared it. The enumeration
  names read back in both spellings.
\<close>

subsection \<open>One key at a time\<close>

definition settle :: "Intent list \<Rightarrow> Intent option" where
  "settle cs = foldl (\<lambda>incumbent c. Some (contest incumbent c)) None cs"

lemma settle_snoc [simp]: "settle (cs @ [c]) = Some (contest (settle cs) c)"
  by (simp add: settle_def)

lemma settle_Nil [simp]: "settle [] = None"
  by (simp add: settle_def)

lemma ResolveIntents_get: "gget (ResolveIntents cs) k = settle (filter (\<lambda>c. it_TopologyKey c = k) cs)"
proof (induction cs arbitrary: k rule: rev_induct)
  case (snoc c cs)
  then show ?case by (simp add: ResolveIntents_def)
qed (simp add: ResolveIntents_def)

lemma carryContract_keeps [simp]:
  "it_Source (carryContract w l) = it_Source w" "it_Mode (carryContract w l) = it_Mode w"
  "it_Evidence (carryContract w l) = it_Evidence w" "it_TopologyKey (carryContract w l) = it_TopologyKey w"
  by (simp_all add: carryContract_def)

lemma defeat_keeps [simp]:
  "it_Source (defeat w l) = it_Source w" "it_Mode (defeat w l) = it_Mode w"
  "it_Evidence (defeat w l) = it_Evidence w @ demote l"
  by (simp_all add: defeat_def)

definition redescribed :: "Intent \<Rightarrow> Intent \<Rightarrow> bool" where
  "redescribed b w =
     (w = b\<lparr>it_MaxSkew := it_MaxSkew w, it_WhenUnsatisfiable := it_WhenUnsatisfiable w,
            it_Evidence := it_Evidence w\<rparr>)"

lemma redescribed_refl [simp]: "redescribed b b"
  by (simp add: redescribed_def)

lemma redescribed_defeat: "redescribed b w \<Longrightarrow> redescribed b (defeat w l)"
  by (cases b; cases w) (simp add: redescribed_def defeat_def carryContract_def)

lemma redescribed_source: "redescribed b w \<Longrightarrow> it_Source w = it_Source b"
  by (cases b; cases w) (simp add: redescribed_def)

lemma redescribed_mode: "redescribed b w \<Longrightarrow> it_Mode w = it_Mode b"
  by (cases b; cases w) (simp add: redescribed_def)

definition mentions :: "Intent \<Rightarrow> IntentSource \<Rightarrow> bool" where
  "mentions w s = (\<exists>e \<in> set (it_Evidence w). ei_Source e = s \<and> ei_Ignored e)"

lemma mentions_defeat:
  "mentions (defeat w l) (it_Source l)" "mentions w s \<Longrightarrow> mentions (defeat w l) s"
  "mentions l s \<Longrightarrow> mentions (defeat w l) s"
proof -
  show "mentions (defeat w l) (it_Source l)" by (simp add: mentions_def demote_def)
  show "mentions w s \<Longrightarrow> mentions (defeat w l) s" by (auto simp: mentions_def)
  assume "mentions l s"
  then obtain e where "e \<in> set (it_Evidence l)" "ei_Source e = s" unfolding mentions_def by blast
  then have "e\<lparr>ei_Ignored := True\<rparr> \<in> set (it_Evidence (defeat w l))" by (simp add: demote_def)
  moreover have "ei_Source (e\<lparr>ei_Ignored := True\<rparr>) = s" using \<open>ei_Source e = s\<close> by simp
  ultimately show "mentions (defeat w l) s" unfolding mentions_def by fastforce
qed

text \<open>The winner is the first of the candidates no other outranks.\<close>

definition leads :: "Intent \<Rightarrow> Intent list \<Rightarrow> Intent list \<Rightarrow> bool" where
  "leads b pre post =
     ((\<forall>c \<in> set pre. Outranks (it_Source b) (it_Source c)) \<and>
      (\<forall>c \<in> set post. \<not> Outranks (it_Source c) (it_Source b)))"

lemma settle_winner:
  assumes "cs \<noteq> []"
  shows "\<exists>pre b post w. cs = pre @ b # post \<and> leads b pre post \<and> settle cs = Some w \<and> redescribed b w
           \<and> (\<forall>c \<in> set (pre @ post). mentions w (it_Source c))"
  using assms
proof (induction cs rule: rev_induct)
  case (snoc c cs)
  show ?case
  proof (cases "cs = []")
    case True
    have "leads c [] []" by (simp add: leads_def)
    then show ?thesis
      using True by (intro exI[of _ "[]"] exI[of _ c]) (simp add: settle_def contest_def)
  next
    case False
    then obtain pre b post w where
      w: "cs = pre @ b # post" "leads b pre post" "settle cs = Some w" "redescribed b w"
         "\<forall>c \<in> set (pre @ post). mentions w (it_Source c)"
      using snoc.IH by blast
    note src = redescribed_source[OF w(4)]
    show ?thesis
    proof (cases "Outranks (it_Source c) (it_Source b)")
      case True
      have "leads c cs []" using True w(1,2) by (auto simp: leads_def Outranks_def)
      moreover have "mentions (defeat c w) (it_Source x)" if "x \<in> set cs" for x
        using that w src by (auto intro: mentions_defeat simp: mentions_defeat(1)[of c w, unfolded src])
      ultimately show ?thesis
        using True w(3) src
        by (intro exI[of _ cs] exI[of _ c] exI[of _ "[]"] exI[of _ "defeat c w"])
           (simp add: contest_def redescribed_defeat)
    next
      case out: False
      have "leads b pre (post @ [c])" using out w(2) by (auto simp: leads_def)
      moreover have "settle (cs @ [c]) = Some (defeat w c)" using out w(3) src by (simp add: contest_def)
      moreover have "\<forall>x \<in> set (pre @ post @ [c]). mentions (defeat w c) (it_Source x)"
        using w(5) by (auto intro: mentions_defeat)
      moreover have "cs @ [c] = pre @ b # (post @ [c])" using w(1) by simp
      ultimately show ?thesis using redescribed_defeat[OF w(4)] by blast
    qed
  qed
qed simp

subsection \<open>The contract survives\<close>

definition bounds_are_hard :: "Intent list \<Rightarrow> bool" where
  "bounds_are_hard cs = (\<forall>c \<in> set cs. it_MaxSkew c \<noteq> None \<longrightarrow> it_WhenUnsatisfiable c = DoNotSchedule)"

lemma outranks_assumed: "\<not> Outranks s SourceClusterDefaultAssumed \<longleftrightarrow> s = SourceClusterDefaultAssumed"
  by (cases s) (simp_all add: Outranks_def source_value_def)

lemma assumed_last: "\<not> Outranks SourceClusterDefaultAssumed s"
  by (cases s) (simp_all add: Outranks_def source_value_def)

lemma HardSkewContract_Some:
  "HardSkewContract (Some w) \<longleftrightarrow>
     it_Source w \<noteq> SourceClusterDefaultAssumed \<and> it_MaxSkew w \<noteq> None \<and> it_WhenUnsatisfiable w = DoNotSchedule"
  by (simp add: HardSkewContract_def declaredContract_def)

lemma HardSkewContract_defeat:
  assumes "it_Mode w \<noteq> ModeIgnore" "\<not> Outranks (it_Source l) (it_Source w)"
    "it_MaxSkew w \<noteq> None \<longrightarrow> it_WhenUnsatisfiable w = DoNotSchedule"
    "it_MaxSkew l \<noteq> None \<longrightarrow> it_WhenUnsatisfiable l = DoNotSchedule"
  shows "HardSkewContract (Some (defeat w l)) \<longleftrightarrow> HardSkewContract (Some w) \<or> HardSkewContract (Some l)"
    and "it_MaxSkew (defeat w l) \<noteq> None \<longrightarrow> it_WhenUnsatisfiable (defeat w l) = DoNotSchedule"
proof -
  have "it_Source w = SourceClusterDefaultAssumed \<Longrightarrow> it_Source l = SourceClusterDefaultAssumed"
    using assms(2) outranks_assumed by auto
  then show "HardSkewContract (Some (defeat w l)) \<longleftrightarrow> HardSkewContract (Some w) \<or> HardSkewContract (Some l)"
    using assms(1,3,4) by (auto simp: HardSkewContract_Some defeat_def carryContract_def)
  show "it_MaxSkew (defeat w l) \<noteq> None \<longrightarrow> it_WhenUnsatisfiable (defeat w l) = DoNotSchedule"
    using assms by (auto simp: defeat_def carryContract_def)
qed

lemma settle_contract:
  assumes "cs \<noteq> []" "\<forall>c \<in> set cs. it_Mode c \<noteq> ModeIgnore" "bounds_are_hard cs" "settle cs = Some w"
  shows "(HardSkewContract (Some w) \<longleftrightarrow> list_ex (\<lambda>c. HardSkewContract (Some c)) cs)
       \<and> (it_MaxSkew w \<noteq> None \<longrightarrow> it_WhenUnsatisfiable w = DoNotSchedule) \<and> it_Mode w \<noteq> ModeIgnore"
  using assms
proof (induction cs arbitrary: w rule: rev_induct)
  case (snoc c cs)
  have c: "it_Mode c \<noteq> ModeIgnore" "it_MaxSkew c \<noteq> None \<longrightarrow> it_WhenUnsatisfiable c = DoNotSchedule"
    using snoc.prems by (auto simp: bounds_are_hard_def)
  show ?case
  proof (cases "settle cs")
    case None
    then have "cs = []" using settle_winner[of cs] by fastforce
    then show ?thesis using snoc.prems(4) c by (simp add: contest_def settle_def)
  next
    case (Some v)
    then have "cs \<noteq> []" by auto
    then have v: "HardSkewContract (Some v) \<longleftrightarrow> list_ex (\<lambda>c. HardSkewContract (Some c)) cs"
      "it_MaxSkew v \<noteq> None \<longrightarrow> it_WhenUnsatisfiable v = DoNotSchedule" "it_Mode v \<noteq> ModeIgnore"
      using snoc.IH[of v] snoc.prems Some by (auto simp: bounds_are_hard_def)
    have w: "w = (if Outranks (it_Source c) (it_Source v) then defeat c v else defeat v c)"
      using snoc.prems(4) Some by (simp add: contest_def)
    have "Outranks (it_Source c) (it_Source v) \<Longrightarrow> \<not> Outranks (it_Source v) (it_Source c)"
      by (simp add: Outranks_def)
    then show ?thesis
      using HardSkewContract_defeat[of c v] HardSkewContract_defeat[of v c] c v w
      by (cases "Outranks (it_Source c) (it_Source v)") auto
  qed
qed simp

text \<open>
  Which bound is kept. A candidate leads if it outranks all that come before it. The bound is the one
  of the last leader that declares one; where no leader does, of the first candidate that does.
\<close>

fun leaders_after :: "Intent list \<Rightarrow> Intent list \<Rightarrow> Intent list" where
  "leaders_after seen [] = []"
| "leaders_after seen (c # cs) =
     (if list_all (\<lambda>x. Outranks (it_Source c) (it_Source x)) seen then [c] else []) @ leaders_after (c # seen) cs"

abbreviation leaders :: "Intent list \<Rightarrow> Intent list" where
  "leaders \<equiv> leaders_after []"

definition bounded :: "Intent \<Rightarrow> bool" where
  "bounded c = (it_Source c \<noteq> SourceClusterDefaultAssumed \<and> it_MaxSkew c \<noteq> None)"

definition kept_bound :: "Intent list \<Rightarrow> int option" where
  "kept_bound cs =
     (case rev (filter bounded (leaders cs)) of
        c # _ \<Rightarrow> it_MaxSkew c
      | [] \<Rightarrow> (case filter bounded cs of c # _ \<Rightarrow> it_MaxSkew c | [] \<Rightarrow> None))"

lemma leaders_snoc:
  "leaders (cs @ [c]) = leaders cs @ (if \<forall>x \<in> set cs. Outranks (it_Source c) (it_Source x) then [c] else [])"
proof -
  have "leaders_after seen (cs @ [c]) = leaders_after seen cs
    @ (if \<forall>x \<in> set seen \<union> set cs. Outranks (it_Source c) (it_Source x) then [c] else [])" for seen
    by (induction cs arbitrary: seen) (auto simp: list_all_iff)
  from this[of "[]"] show ?thesis by simp
qed

lemma leaders_subset: "set (leaders_after seen cs) \<subseteq> set cs"
  by (induction cs arbitrary: seen) (auto split: if_splits)

lemma kept_bound_None: "kept_bound cs = None \<longleftrightarrow> filter bounded cs = []"
proof -
  have "kept_bound cs \<noteq> None" if "filter bounded cs \<noteq> []"
  proof (cases "rev (filter bounded (leaders cs))")
    case Nil
    from that obtain d ds where d: "filter bounded cs = d # ds" by (cases "filter bounded cs") auto
    then have "bounded d" by (metis filter_eq_ConsD)
    then show ?thesis using Nil d by (simp add: kept_bound_def bounded_def)
  next
    case (Cons d ds)
    then have "d \<in> set (filter bounded (leaders cs))" by (metis list.set_intros(1) set_rev)
    then show ?thesis using Cons by (simp add: kept_bound_def bounded_def)
  qed
  moreover have "kept_bound cs = None" if "filter bounded cs = []"
  proof -
    have "filter bounded (leaders cs) = []" using that leaders_subset[of "[]" cs] by (auto simp: filter_empty_conv)
    then show ?thesis using that by (simp add: kept_bound_def)
  qed
  ultimately show ?thesis by blast
qed

lemma kept_bound_snoc:
  "kept_bound (cs @ [c]) =
     (if bounded c \<and> ((\<forall>x \<in> set cs. Outranks (it_Source c) (it_Source x)) \<or> kept_bound cs = None)
      then it_MaxSkew c else kept_bound cs)"
proof (cases "bounded c")
  case False
  then have "filter bounded (cs @ [c]) = filter bounded cs" "filter bounded (leaders (cs @ [c])) = filter bounded (leaders cs)"
    by (simp_all add: leaders_snoc)
  then show ?thesis using False by (simp only: kept_bound_def) simp
next
  case True
  show ?thesis
  proof (cases "kept_bound cs = None")
    case None: True
    then have "filter bounded cs = []" "filter bounded (leaders cs) = []"
      using kept_bound_None leaders_subset[of "[]" cs] by (auto simp: filter_empty_conv)
    then show ?thesis using True by (simp add: kept_bound_def leaders_snoc)
  next
    case some: False
    then have "filter bounded cs \<noteq> []" using kept_bound_None[of cs] by argo
    then show ?thesis using True some by (auto simp: kept_bound_def leaders_snoc split: list.splits)
  qed
qed

lemma settle_bound:
  assumes "\<forall>c \<in> set cs. it_Mode c \<noteq> ModeIgnore" "bounds_are_hard cs" "settle cs = Some w"
  shows "(it_Source w = SourceClusterDefaultAssumed \<longrightarrow> (\<forall>c \<in> set cs. it_Source c = SourceClusterDefaultAssumed))
       \<and> (it_Source w \<noteq> SourceClusterDefaultAssumed \<longrightarrow> it_MaxSkew w = kept_bound cs)"
  using assms
proof (induction cs arbitrary: w rule: rev_induct)
  case (snoc c cs)
  show ?case
  proof (cases "cs = []")
    case True
    then show ?thesis using snoc.prems(3)
      by (auto simp: contest_def settle_def kept_bound_def bounded_def)
  next
    case False
    obtain pre b post v where v: "cs = pre @ b # post" "leads b pre post" "settle cs = Some v" "redescribed b v"
      using settle_winner[OF False] by blast
    note src = redescribed_source[OF v(4)]
    have hard: "bounds_are_hard cs" "\<forall>c \<in> set cs. it_Mode c \<noteq> ModeIgnore"
      using snoc.prems by (auto simp: bounds_are_hard_def)
    note IH = snoc.IH[OF hard(2,1) v(3)] and con = settle_contract[OF False hard(2,1) v(3)]
    have lead: "(\<forall>x \<in> set cs. Outranks (it_Source c) (it_Source x)) \<longleftrightarrow> Outranks (it_Source c) (it_Source v)"
      unfolding src using v(1,2) by (auto simp: leads_def Outranks_def)
    have w: "w = (if Outranks (it_Source c) (it_Source v) then defeat c v else defeat v c)"
      using snoc.prems(3) v(3) by (simp add: contest_def)
    have c: "it_Mode c \<noteq> ModeIgnore" "it_MaxSkew c \<noteq> None \<longrightarrow> it_WhenUnsatisfiable c = DoNotSchedule"
      using snoc.prems by (auto simp: bounds_are_hard_def)
    have none: "it_Source v = SourceClusterDefaultAssumed \<Longrightarrow> kept_bound cs = None"
      using IH by (auto simp: kept_bound_None filter_empty_conv bounded_def)
    show ?thesis
      unfolding kept_bound_snoc lead w using IH con c none outranks_assumed[of "it_Source c"] assumed_last[of "it_Source v"]
      by (cases "Outranks (it_Source c) (it_Source v)"; cases "it_Source v = SourceClusterDefaultAssumed")
         (auto simp: defeat_def carryContract_def bounded_def)
  qed
qed simp

lemma kept_bound_lead:
  assumes "cs = pre @ b # post" "leads b pre post" "bounded b"
  shows "kept_bound cs = it_MaxSkew b"
  using assms
proof (induction post arbitrary: cs rule: rev_induct)
  case Nil
  then show ?case using kept_bound_snoc[of pre b] by (auto simp: leads_def)
next
  case (snoc c post)
  have "leads b pre post" "\<not> Outranks (it_Source c) (it_Source b)" using snoc.prems(2) by (auto simp: leads_def)
  then have "kept_bound (pre @ b # post) = it_MaxSkew b" using snoc.IH snoc.prems(3) by blast
  then show ?case
    using snoc.prems(1,3) kept_bound_snoc[of "pre @ b # post" c] \<open>\<not> Outranks (it_Source c) (it_Source b)\<close>
    by (auto simp: bounded_def)
qed

text \<open>
  C26: precedence decides the description, never the promise. On every topology key with a
  candidate, resolution gives one intent. It is the first candidate that no other outranks in every
  field but the skew bound and the evidence, and each loser is named in its evidence as ignored. If
  no candidate on the key asks to ignore it and every skew bound on it is enforced, the resolved
  intent carries an enforced skew contract exactly when some candidate other than an assumed cluster
  default declares one, however many sources outrank it and in whatever order they come, and the
  bound it carries is the declared one: its own, else that of the last candidate that led before it
  and declares one, else of the first that does.
\<close>

theorem resolution_keeps_contract:
  assumes "\<exists>c \<in> set candidates. it_TopologyKey c = k"
  defines "cs \<equiv> filter (\<lambda>c. it_TopologyKey c = k) candidates"
  shows "\<exists>pre b post w. cs = pre @ b # post \<and> leads b pre post
           \<and> gget (ResolveIntents candidates) k = Some w \<and> redescribed b w
           \<and> (\<forall>c \<in> set (pre @ post). mentions w (it_Source c))
           \<and> ((\<forall>c \<in> set cs. it_Mode c \<noteq> ModeIgnore) \<and> bounds_are_hard cs \<longrightarrow>
                (HardSkewContract (Some w) \<longleftrightarrow>
                 (\<exists>c \<in> set cs. it_Source c \<noteq> SourceClusterDefaultAssumed \<and> it_MaxSkew c \<noteq> None))
                \<and> (HardSkewContract (Some w) \<longrightarrow> it_MaxSkew w = kept_bound cs)
                \<and> (bounded b \<longrightarrow> it_MaxSkew w = it_MaxSkew b))"
proof -
  have ne: "cs \<noteq> []" using assms(1) by (auto simp: cs_def filter_empty_conv)
  obtain pre b post w where
    w: "cs = pre @ b # post" "leads b pre post" "settle cs = Some w" "redescribed b w"
       "\<forall>c \<in> set (pre @ post). mentions w (it_Source c)"
    using settle_winner[OF ne] by blast
  have "(HardSkewContract (Some w) \<longleftrightarrow>
      (\<exists>c \<in> set cs. it_Source c \<noteq> SourceClusterDefaultAssumed \<and> it_MaxSkew c \<noteq> None))
      \<and> (HardSkewContract (Some w) \<longrightarrow> it_MaxSkew w = kept_bound cs) \<and> (bounded b \<longrightarrow> it_MaxSkew w = it_MaxSkew b)"
    if h: "\<forall>c \<in> set cs. it_Mode c \<noteq> ModeIgnore" "bounds_are_hard cs"
  proof (intro conjI impI)
    show "HardSkewContract (Some w) \<longleftrightarrow>
      (\<exists>c \<in> set cs. it_Source c \<noteq> SourceClusterDefaultAssumed \<and> it_MaxSkew c \<noteq> None)"
      using settle_contract[OF ne h w(3)] h(2)
      by (auto simp: list_ex_iff HardSkewContract_Some bounds_are_hard_def)
    show "it_MaxSkew w = kept_bound cs" if "HardSkewContract (Some w)"
      using settle_bound[OF h w(3)] that by (simp add: HardSkewContract_Some)
    show "it_MaxSkew w = it_MaxSkew b" if b: "bounded b"
      using settle_bound[OF h w(3)] kept_bound_lead[OF w(1,2) b] redescribed_source[OF w(4)] b by (simp add: bounded_def)
  qed
  then show ?thesis using w unfolding ResolveIntents_get cs_def[symmetric] by blast
qed

definition policy_and_constraint :: "Intent list" where
  "policy_and_constraint =
     [zero_intent\<lparr>it_TopologyKey := ''zone'', it_Source := SourceTopologySpreadConstraint, it_MaxSkew := Some 1,
                  it_WhenUnsatisfiable := DoNotSchedule\<rparr>,
      zero_intent\<lparr>it_TopologyKey := ''zone'', it_Source := SourcePodAntiAffinityPreferred\<rparr>,
      zero_intent\<lparr>it_TopologyKey := ''zone'', it_Source := SourcePolicyCRD, it_Severity := ''critical''\<rparr>]"

theorem resolution_keeps_contract_witness:
  "\<exists>w. gget (ResolveIntents policy_and_constraint) ''zone'' = Some w \<and> it_Source w = SourcePolicyCRD
       \<and> HardSkewContract (Some w) \<and> it_MaxSkew w = Some 1 \<and> mentions w SourceTopologySpreadConstraint"
proof -
  let ?c = policy_and_constraint
  have k: "filter (\<lambda>c. it_TopologyKey c = ''zone'') ?c = ?c"
    by (simp add: policy_and_constraint_def)
  have h: "\<exists>c \<in> set ?c. it_TopologyKey c = ''zone''"
    "\<forall>c \<in> set ?c. it_Mode c \<noteq> ModeIgnore" "bounds_are_hard ?c"
    "\<exists>c \<in> set ?c. it_Source c \<noteq> SourceClusterDefaultAssumed \<and> it_MaxSkew c \<noteq> None"
    by (simp_all add: policy_and_constraint_def zero_intent_def bounds_are_hard_def)
  obtain pre b post w where
    w: "?c = pre @ b # post" "leads b pre post" "gget (ResolveIntents ?c) ''zone'' = Some w"
       "redescribed b w" "\<forall>c \<in> set (pre @ post). mentions w (it_Source c)" "HardSkewContract (Some w)" "it_MaxSkew w = kept_bound ?c"
    using resolution_keeps_contract[OF h(1), unfolded k] h(2-4) by blast
  have bound: "it_MaxSkew w = Some 1" unfolding w(7) by code_simp
  have len: "length pre < 3" using arg_cong[OF w(1), of length] by (simp add: policy_and_constraint_def)
  have "pre = take (length pre) ?c" "b = ?c ! length pre" "post = drop (Suc (length pre)) ?c" "length pre < 3"
    by (simp_all add: w(1) len)
  then have "pre = take 2 ?c \<and> b = ?c ! 2"
    using w(2) by (auto simp: policy_and_constraint_def leads_def Outranks_def source_value_def zero_intent_def
        less_Suc_eq numeral_3_eq_3 numeral_2_eq_2)
  then show ?thesis
    using w(3-6) bound redescribed_source[OF w(4)]
    by (intro exI[of _ w]) (auto simp: policy_and_constraint_def zero_intent_def numeral_2_eq_2)
qed

subsection \<open>Names read back\<close>

lemma ReplaceAll_char: "strings_ReplaceAll s [c] [] = filter (\<lambda>x. x \<noteq> c) s"
proof (induction s)
  case (Cons x xs)
  then show ?case by (subst strings_ReplaceAll.simps) simp
qed (simp add: strings_ReplaceAll.simps)

lemma lower_char_letters:
  "lower_char CHR ''a'' = CHR ''a''" "lower_char CHR ''b'' = CHR ''b''" "lower_char CHR ''c'' = CHR ''c''" "lower_char CHR ''d'' = CHR ''d''"
  "lower_char CHR ''e'' = CHR ''e''" "lower_char CHR ''f'' = CHR ''f''" "lower_char CHR ''g'' = CHR ''g''" "lower_char CHR ''h'' = CHR ''h''"
  "lower_char CHR ''i'' = CHR ''i''" "lower_char CHR ''j'' = CHR ''j''" "lower_char CHR ''k'' = CHR ''k''" "lower_char CHR ''l'' = CHR ''l''"
  "lower_char CHR ''m'' = CHR ''m''" "lower_char CHR ''n'' = CHR ''n''" "lower_char CHR ''o'' = CHR ''o''" "lower_char CHR ''p'' = CHR ''p''"
  "lower_char CHR ''q'' = CHR ''q''" "lower_char CHR ''r'' = CHR ''r''" "lower_char CHR ''s'' = CHR ''s''" "lower_char CHR ''t'' = CHR ''t''"
  "lower_char CHR ''u'' = CHR ''u''" "lower_char CHR ''v'' = CHR ''v''" "lower_char CHR ''w'' = CHR ''w''" "lower_char CHR ''x'' = CHR ''x''"
  "lower_char CHR ''y'' = CHR ''y''" "lower_char CHR ''z'' = CHR ''z''" "lower_char CHR ''-'' = CHR ''-''"
  "lower_char CHR ''A'' = CHR ''a''" "lower_char CHR ''B'' = CHR ''b''" "lower_char CHR ''C'' = CHR ''c''" "lower_char CHR ''D'' = CHR ''d''"
  "lower_char CHR ''E'' = CHR ''e''" "lower_char CHR ''F'' = CHR ''f''" "lower_char CHR ''G'' = CHR ''g''" "lower_char CHR ''H'' = CHR ''h''"
  "lower_char CHR ''I'' = CHR ''i''" "lower_char CHR ''J'' = CHR ''j''" "lower_char CHR ''K'' = CHR ''k''" "lower_char CHR ''L'' = CHR ''l''"
  "lower_char CHR ''M'' = CHR ''m''" "lower_char CHR ''N'' = CHR ''n''" "lower_char CHR ''O'' = CHR ''o''" "lower_char CHR ''P'' = CHR ''p''"
  "lower_char CHR ''Q'' = CHR ''q''" "lower_char CHR ''R'' = CHR ''r''" "lower_char CHR ''S'' = CHR ''s''" "lower_char CHR ''T'' = CHR ''t''"
  "lower_char CHR ''U'' = CHR ''u''" "lower_char CHR ''V'' = CHR ''v''" "lower_char CHR ''W'' = CHR ''w''" "lower_char CHR ''X'' = CHR ''x''"
  "lower_char CHR ''Y'' = CHR ''y''" "lower_char CHR ''Z'' = CHR ''z''"
  by code_simp+

lemma upper_char_letters:
  "upper_char CHR ''p'' = CHR ''P''" "upper_char CHR ''w'' = CHR ''W''" "upper_char CHR ''a'' = CHR ''A''"
  "upper_char CHR ''t'' = CHR ''T''" "upper_char CHR ''s'' = CHR ''S''" "upper_char CHR ''c'' = CHR ''C''"
  "upper_char CHR ''r'' = CHR ''R''" "upper_char CHR ''d'' = CHR ''D''" "upper_char CHR ''l'' = CHR ''L''"
  "upper_char CHR ''b'' = CHR ''B''"
  by code_simp+

lemmas fold_simps =
  enum_fold_def strings_TrimSpace_def strings_ToLower_def is_space_def ReplaceAll_char lower_char_letters

definition folded_source :: "IntentSource \<Rightarrow> string" where
  "folded_source s =
     (case s of
        SourcePolicyCRD \<Rightarrow> ''policycrd'' | SourceWorkloadAnnotation \<Rightarrow> ''workloadannotation''
      | SourceTopologySpreadConstraint \<Rightarrow> ''topologyspreadconstraint''
      | SourcePodAntiAffinityRequired \<Rightarrow> ''podantiaffinityrequired''
      | SourcePodAffinityRequired \<Rightarrow> ''podaffinityrequired''
      | SourceClusterDefaultDeclared \<Rightarrow> ''clusterdefaultdeclared''
      | SourceClusterDefaultAssumed \<Rightarrow> ''clusterdefaultassumed''
      | SourcePodAntiAffinityPreferred \<Rightarrow> ''podantiaffinitypreferred''
      | SourcePodAffinityPreferred \<Rightarrow> ''podaffinitypreferred'' | SourceLearnedBaseline \<Rightarrow> ''learnedbaseline'')"

lemma fold_source: "enum_fold (IntentSource_String s) = folded_source s"
  by (cases s) (simp_all add: fold_simps IntentSource_String_def folded_source_def)

lemma fold_api_name: "enum_fold (APIName s) = folded_source s"
  by (cases s) (simp_all add: fold_simps APIName_def api_part_def IntentSource_String_def folded_source_def
      strings_ToUpper_def upper_char_letters)

lemma intent_source_names:
  "ParseIntentSource (IntentSource_String s) = (s, True)" "ParseIntentSource (APIName s) = (s, True)"
  by (cases s; simp add: ParseIntentSource_def IntentSources_def fold_source fold_api_name folded_source_def)+

lemma intent_mode_names: "ParseIntentMode (IntentMode_String m) = (m, True)"
  by (cases m) (simp_all add: ParseIntentMode_def IntentMode_String_def fold_simps)

lemma weighting_names: "ParseWeighting (Weighting_String w) = (w, True)"
  by (cases w) (simp_all add: ParseWeighting_def Weighting_String_def fold_simps)

end
