(* ===== verification/ApportionLaws.thy ===== *)
theory ApportionLaws
  imports Apportion
begin

section \<open>What an apportionment guarantees\<close>

text \<open>
  The largest-remainder step places exactly its budget, each domain within one of its quota and
  in the order of the weights; water-filling then respects the caps and leaves over only what no
  domain has room for.
\<close>

subsection \<open>Quotas\<close>

definition weights_ok :: "rat list \<Rightarrow> bool" where
  "weights_ok ws = (ws \<noteq> [] \<and> (\<forall>w \<in> set ws. 0 \<le> w))"

lemma sum_upt: "sum_list (map f [0..<m]) = (\<Sum>i<m. f i)"
  by (simp add: interv_sum_list_conv_sum_set_nat atLeast0LessThan)

lemma sum_nth: "sum_list xs = (\<Sum>i<length xs. xs ! i)"
  by (simp add: sum_list_sum_nth atLeast0LessThan)

lemma effective_ok:
  assumes "weights_ok ws"
  shows "weights_ok (effective_weights ws)" "0 < sum_list (effective_weights ws)"
proof -
  show "weights_ok (effective_weights ws)" using assms by (auto simp: weights_ok_def effective_weights_def)
  show "0 < sum_list (effective_weights ws)"
    using assms by (auto simp: weights_ok_def effective_weights_def sum_list_replicate)
qed

lemma quota_sum: "0 < sum_list ws \<Longrightarrow> (\<Sum>i<length ws. quota n ws i) = of_int n"
proof -
  assume s: "0 < sum_list ws"
  have "(\<Sum>i<length ws. quota n ws i) = of_int n * (\<Sum>i<length ws. ws ! i) / sum_list ws"
    by (simp add: quota_def sum_divide_distrib sum_distrib_left)
  then show ?thesis using s by (simp flip: sum_nth)
qed

lemma quota_nonneg: "0 \<le> n \<Longrightarrow> weights_ok ws \<Longrightarrow> i < length ws \<Longrightarrow> 0 < sum_list ws \<Longrightarrow> 0 \<le> quota n ws i"
  by (auto simp: quota_def weights_ok_def)

lemma quota_mono:
  "0 \<le> n \<Longrightarrow> 0 < sum_list ws \<Longrightarrow> ws ! j \<le> ws ! i \<Longrightarrow> quota n ws j \<le> quota n ws i"
  by (simp add: quota_def divide_right_mono mult_left_mono)

definition floors :: "int \<Rightarrow> rat list \<Rightarrow> int list" where
  "floors n ws = map (\<lambda>i. \<lfloor>quota n ws i\<rfloor>) [0..<length ws]"

definition deficit :: "int \<Rightarrow> rat list \<Rightarrow> int" where
  "deficit n ws = n - sum_list (floors n ws)"

lemma deficit_frac:
  assumes "0 < sum_list ws" shows "of_int (deficit n ws) = (\<Sum>i<length ws. frac (quota n ws i))"
proof -
  have "(\<Sum>i<length ws. frac (quota n ws i)) = (\<Sum>i<length ws. quota n ws i) - (\<Sum>i<length ws. of_int \<lfloor>quota n ws i\<rfloor>)"
    by (simp add: frac_def sum_subtractf)
  then show ?thesis using assms by (simp add: quota_sum deficit_def floors_def sum_upt of_int_sum)
qed

lemma deficit_bounds:
  assumes "0 < sum_list ws" shows "0 \<le> deficit n ws" "deficit n ws < int (length ws)"
proof -
  have ne: "0 < length ws" using assms by (cases ws) auto
  have "(0::rat) \<le> of_int (deficit n ws)"
    unfolding deficit_frac[OF assms] by (intro sum_nonneg) (simp add: frac_ge_0)
  then show "0 \<le> deficit n ws" by simp
  have "(\<Sum>i<length ws. frac (quota n ws i)) < (\<Sum>i<length ws. (1::rat))"
    using ne by (intro sum_strict_mono) (auto simp: frac_lt_1)
  then have "of_int (deficit n ws) < (of_int (int (length ws)) :: rat)"
    unfolding deficit_frac[OF assms] by simp
  then show "deficit n ws < int (length ws)" by (simp only: of_int_less_iff)
qed

subsection \<open>Handing out the remainder\<close>

lemma order_props:
  "distinct (remainder_order n ws)" "set (remainder_order n ws) = {..<length ws}"
  "length (remainder_order n ws) = length ws"
  by (auto simp: remainder_order_def)

lemma hand_out_nth:
  assumes "distinct order" "set order \<subseteq> {..<length out}" "k \<le> length order" "i < length out"
  shows "hand_out order k out ! i = out ! i + (if i \<in> set (take k order) then 1 else 0)"
  using assms(3)
proof (induction k)
  case (Suc k)
  let ?j = "order ! k"
  have j: "?j < length out" using Suc.prems assms(2) nth_mem[of k order] by force
  have t: "take (Suc k) order = take k order @ [?j]" using Suc.prems by (simp add: take_Suc_conv_app_nth)
  have "distinct (take (Suc k) order)" using assms(1) by simp
  then have nj: "?j \<notin> set (take k order)" unfolding t by simp
  have "k mod length order = k" using Suc.prems by simp
  then show ?case using Suc j nj assms(4) by (auto simp: Let_def t nth_list_update)
qed simp

lemma hand_out_sum:
  assumes "distinct order" "set order \<subseteq> {..<length out}" "k \<le> length order"
  shows "sum_list (hand_out order k out) = sum_list out + int k"
proof -
  have "card ({..<length out} \<inter> set (take k order)) = k"
    using assms set_take_subset[of k order] distinct_card[of "take k order"] by (auto simp: Int_absorb1)
  then have "(\<Sum>i<length out. if i \<in> set (take k order) then 1 else 0) = int k"
    by (simp add: sum.If_cases)
  then show ?thesis
    using hand_out_nth[OF assms] by (simp add: sum_nth sum.distrib)
qed

definition extra :: "int \<Rightarrow> rat list \<Rightarrow> nat set" where
  "extra n ws = set (take (nat (deficit n ws)) (remainder_order n ws))"

lemma hamilton_nth:
  assumes "weights_ok ws" and "0 < n" and "i < length ws"
  shows "hamilton n ws ! i =
     \<lfloor>quota n (effective_weights ws) i\<rfloor> + (if i \<in> extra n (effective_weights ws) then 1 else 0)"
proof -
  let ?ws = "effective_weights ws"
  note s = effective_ok[OF assms(1)] and o = order_props[of n ?ws]
  note d = deficit_bounds[OF s(2), of n]
  have "hamilton n ws = hand_out (remainder_order n ?ws) (nat (deficit n ?ws)) (floors n ?ws)"
    using assms(2) d by (auto simp: hamilton_def Let_def deficit_def floors_def)
  then show ?thesis
    using hand_out_nth[of "remainder_order n ?ws" "floors n ?ws" "nat (deficit n ?ws)" i] o d assms(3)
    by (simp add: floors_def extra_def)
qed

lemma hamilton_sum:
  assumes "weights_ok ws" and "0 \<le> n" shows "sum_list (hamilton n ws) = n"
proof (cases "n = 0")
  case False
  let ?ws = "effective_weights ws"
  note s = effective_ok[OF assms(1)] and o = order_props[of n ?ws]
  note d = deficit_bounds[OF s(2), of n]
  have "hamilton n ws = hand_out (remainder_order n ?ws) (nat (deficit n ?ws)) (floors n ?ws)"
    using assms(2) False d by (auto simp: hamilton_def Let_def deficit_def floors_def)
  then show ?thesis
    using hand_out_sum[of "remainder_order n ?ws" "floors n ?ws" "nat (deficit n ?ws)"] o d
    by (simp add: floors_def) (simp add: deficit_def floors_def)
qed (simp add: hamilton_def sum_list_replicate)

lemma hamilton_nonneg:
  assumes "weights_ok ws" and "0 \<le> n" shows "\<forall>x \<in> set (hamilton n ws). 0 \<le> x"
proof (cases "n = 0")
  case False
  have "0 \<le> hamilton n ws ! i" if "i < length ws" for i
    using hamilton_nth[OF assms(1) _ that, of n] False assms(2)
      quota_nonneg[of n "effective_weights ws" i] effective_ok[OF assms(1)] that by simp
  then show ?thesis by (auto simp: in_set_conv_nth)
qed (simp add: hamilton_def)

subsection \<open>Within one of the quota, in the order of the weights\<close>

lemma take_sorted_before:
  assumes "j \<in> set (take k (remainder_order n ws))" and "i < length ws"
    and "(- frac (quota n ws i), i) < (- frac (quota n ws j), j)"
  shows "i \<in> set (take k (remainder_order n ws))"
proof (rule ccontr)
  assume ni: "i \<notin> set (take k (remainder_order n ws))"
  let ?o = "remainder_order n ws" and ?f = "\<lambda>i. (- frac (quota n ws i), i)"
  have "i \<in> set ?o" using assms(2) order_props(2)[of n ws] by simp
  then have "i \<in> set (drop k ?o)" using ni by (metis Un_iff append_take_drop_id set_append)
  moreover have "sorted (map ?f (take k ?o) @ map ?f (drop k ?o))"
    by (simp add: remainder_order_def flip: map_append)
  ultimately have "?f j \<le> ?f i" using assms(1) unfolding sorted_append set_map by blast
  then show False using assms(3) leD by blast
qed

lemma extra_has_remainder:
  assumes s: "0 < sum_list ws" and i: "i \<in> extra n ws" shows "0 < frac (quota n ws i)"
proof (rule ccontr)
  assume "\<not> 0 < frac (quota n ws i)"
  then have z: "frac (quota n ws i) = 0" using frac_ge_0[of "quota n ws i"] by linarith
  let ?m = "length ws" and ?k = "nat (deficit n ws)" and ?f = "\<lambda>i. frac (quota n ws i)"
  note d = deficit_bounds[OF s, of n] and o = order_props[of n ws]
  have sub: "extra n ws \<subseteq> {..<?m}" using set_take_subset[of ?k "remainder_order n ws"] o(2) by (auto simp: extra_def)
  have card: "card (extra n ws) = ?k"
    unfolding extra_def using distinct_card[of "take ?k (remainder_order n ws)"] o d by simp
  have out: "?f j = 0" if "j \<in> {..<?m} - extra n ws" for j
  proof (rule ccontr)
    assume "?f j \<noteq> 0"
    then have "0 < ?f j" using frac_ge_0[of "quota n ws j"] by linarith
    then have "- ?f j < - ?f i" using z by linarith
    then have "(- ?f j, j) < (- ?f i, i)" unfolding less_prod_simp by blast
    then have "j \<in> extra n ws"
      using take_sorted_before[of i ?k n ws j] i that unfolding extra_def by blast
    then show False using that by simp
  qed
  have rest: "(\<Sum>j \<in> {..<?m} - extra n ws. ?f j) = 0" by (rule sum.neutral) (use out in blast)
  have "of_int (deficit n ws) = (\<Sum>j \<in> {..<?m} - extra n ws. ?f j) + (\<Sum>j \<in> extra n ws. ?f j)"
    unfolding deficit_frac[OF s] using sum.subset_diff[OF sub, of ?f] by simp
  also have "\<dots> = (\<Sum>j \<in> extra n ws. ?f j)" by (simp only: rest add_0)
  also have "\<dots> < (\<Sum>j \<in> extra n ws. 1)"
  proof (rule sum_strict_mono_ex1)
    show "finite (extra n ws)" using sub finite_subset by blast
    show "\<forall>j \<in> extra n ws. ?f j \<le> 1" by (simp add: less_imp_le[OF frac_lt_1])
    show "\<exists>j \<in> extra n ws. ?f j < 1" using i frac_lt_1 by blast
  qed
  also have "\<dots> = of_int (deficit n ws)" using card d by (simp add: of_nat_nat)
  finally show False by simp
qed

lemma hamilton_quota:
  assumes "weights_ok ws" and "0 < n" and "i < length ws"
  shows "\<bar>of_int (hamilton n ws ! i) - quota n (effective_weights ws) i\<bar> < 1"
proof -
  let ?q = "quota n (effective_weights ws) i"
  have q: "of_int \<lfloor>?q\<rfloor> \<le> ?q" "?q < of_int \<lfloor>?q\<rfloor> + 1" by linarith+
  have "0 < frac ?q" if "i \<in> extra n (effective_weights ws)"
    by (rule extra_has_remainder[OF effective_ok(2)[OF assms(1)] that])
  then show ?thesis using hamilton_nth[OF assms] q by (auto simp: frac_def)
qed

lemma hamilton_mono:
  assumes "weights_ok ws" and "0 < n" and "i < length ws" and "j < length ws"
    and "ws ! j < ws ! i \<or> ws ! j = ws ! i \<and> i < j"
  shows "hamilton n ws ! j \<le> hamilton n ws ! i"
proof -
  let ?ws = "effective_weights ws"
  let ?q = "quota n ?ws"
  have w: "?ws ! j < ?ws ! i \<or> ?ws ! j = ?ws ! i \<and> i < j"
  proof (cases "sum_list ws \<le> 0")
    case True
    have "sum_list ws \<ge> ws ! i"
      using assms(1,3) by (auto simp: weights_ok_def intro!: member_le_sum_list)
    moreover have "0 \<le> ws ! j" using assms(1,4) by (simp add: weights_ok_def)
    ultimately have "ws ! j = ws ! i" using True assms(5) by linarith
    then show ?thesis using assms(3-5) True by (simp add: effective_weights_def)
  qed (use assms(5) in \<open>simp add: effective_weights_def\<close>)
  have q: "?q j \<le> ?q i" using quota_mono[OF _ effective_ok(2)[OF assms(1)]] w assms(2) by auto
  have fl: "\<lfloor>?q j\<rfloor> \<le> \<lfloor>?q i\<rfloor>" using q by (rule floor_mono)
  have "i \<in> extra n ?ws" if "\<lfloor>?q j\<rfloor> = \<lfloor>?q i\<rfloor>" "j \<in> extra n ?ws"
  proof (cases "?q j = ?q i")
    case True
    have "?ws ! j = ?ws ! i"
      using True effective_ok(2)[OF assms(1)] assms(2) by (simp add: quota_def)
    then have "(- frac (?q i), i) < (- frac (?q j), j)" using w True unfolding less_prod_simp by simp
    then show ?thesis using take_sorted_before[of j _ n ?ws i] that(2) assms(3) by (simp add: extra_def)
  next
    case False
    then have "frac (?q j) < frac (?q i)" using q that(1) by (simp add: frac_def)
    then have "(- frac (?q i), i) < (- frac (?q j), j)" unfolding less_prod_simp by linarith
    then show ?thesis using take_sorted_before[of j _ n ?ws i] that(2) assms(3) by (simp add: extra_def)
  qed
  then show ?thesis using hamilton_nth[OF assms(1,2)] assms(3,4) fl by force
qed

subsection \<open>Water-filling keeps the books\<close>

lemma sum_list_put: "k < length xs \<Longrightarrow> sum_list (xs[k := (x::int)]) = sum_list xs + x - xs ! k"
  by (induction xs arbitrary: k) (auto split: nat.split)

definition caps_ok :: "nat \<Rightarrow> int list option \<Rightarrow> bool" where
  "caps_ok m caps = (case caps of None \<Rightarrow> True | Some cs \<Rightarrow> length cs = m)"

definition cap_at :: "int list option \<Rightarrow> nat \<Rightarrow> int option" where
  "cap_at caps i = (case caps of None \<Rightarrow> None | Some cs \<Rightarrow> if cs ! i \<ge> 0 then Some (cs ! i) else None)"

definition fill_ok :: "nat \<Rightarrow> int list option \<Rightarrow> int \<Rightarrow> fill_state \<Rightarrow> bool" where
  "fill_ok m caps n s =
     (length (fs_active s) = m \<and> length (fs_Expected s) = m \<and> length (fs_Saturated s) = m
      \<and> sum_list (fs_Expected s) + fs_budget s = n
      \<and> (\<forall>i<m. if fs_active s ! i then fs_Expected s ! i = 0 \<and> \<not> fs_Saturated s ! i
                else cap_at caps i = Some (fs_Expected s ! i) \<and> fs_Saturated s ! i))"

lemma over_cap_cap: "over_cap caps i want \<Longrightarrow> cap_at caps i = Some (the caps ! i) \<and> 0 \<le> the caps ! i \<and> the caps ! i < want"
  by (auto simp: over_cap_def cap_at_def split: option.splits)

lemma freeze_ok:
  assumes ok: "fill_ok m caps n s" and i: "i < m" "fs_active s ! i" and over: "over_cap caps i want"
  shows "fill_ok m caps n (freeze (the caps) i s)"
proof -
  have e: "fs_Expected s ! i = 0" "length (fs_Expected s) = m" using ok i by (auto simp: fill_ok_def)
  then have "sum_list ((fs_Expected s)[i := the caps ! i]) = sum_list (fs_Expected s) + the caps ! i"
    using i(1) sum_list_put[of i "fs_Expected s"] by simp
  then show ?thesis
    using ok i over_cap_cap[OF over] by (auto simp: fill_ok_def freeze_def nth_list_update)
qed

lemma freeze_round_ok:
  assumes "fill_ok m caps n s" and "distinct (map fst xs)" and "\<forall>(i, want) \<in> set xs. i < m \<and> fs_active s ! i \<and> 0 \<le> want"
    and "sum_list (map snd xs) \<le> fs_budget s"
  shows "fill_ok m caps n (freeze_round caps xs s) \<and> 0 \<le> fs_budget (freeze_round caps xs s)"
  using assms
proof (induction xs arbitrary: s)
  case (Cons x xs)
  obtain i want where x: "x = (i, want)" by (cases x)
  let ?s = "if over_cap caps i want then freeze (the caps) i s else s"
  have i: "i < m" "fs_active s ! i" "0 \<le> want" using Cons.prems(3) x by auto
  have ok: "fill_ok m caps n ?s" using freeze_ok[OF Cons.prems(1) i(1,2)] Cons.prems(1) by simp
  have len: "length (fs_active s) = m" using Cons.prems(1) by (simp add: fill_ok_def)
  have act: "fs_active ?s ! j" if "(j, w) \<in> set xs" for j w
  proof -
    have "j \<noteq> i" using Cons.prems(2) x that by force
    then show ?thesis using Cons.prems(3) that by (auto simp: freeze_def)
  qed
  have b: "sum_list (map snd xs) \<le> fs_budget ?s"
    using Cons.prems(4) x i(3) over_cap_cap[of caps i want] by (auto simp: freeze_def)
  have "fill_ok m caps n (freeze_round caps xs ?s) \<and> 0 \<le> fs_budget (freeze_round caps xs ?s)"
    by (rule Cons.IH[OF ok]) (use Cons.prems act b in auto)
  then show ?case by (simp add: x)
qed simp

lemma grant_nth:
  assumes "distinct (map fst xs)" and "\<forall>(i, want) \<in> set xs. i < length e" and "j < length e"
  shows "grant xs e ! j = (case map_of xs j of None \<Rightarrow> e ! j | Some want \<Rightarrow> want)" "length (grant xs e) = length e"
  using assms
proof (induction xs arbitrary: e)
  case (Cons x xs)
  obtain i want where x: "x = (i, want)" by (cases x)
  { case 1
    have "grant xs (e[i := want]) ! j = (case map_of xs j of None \<Rightarrow> e[i := want] ! j | Some want \<Rightarrow> want)"
      by (rule Cons.IH(1)) (use 1 in auto)
    moreover have "i \<notin> fst ` set xs" using 1 x by simp
    ultimately show ?case using 1 x map_of_eq_None_iff[of xs i] by (auto simp: grant_def nth_list_update split: option.split)
  next
    case 2
    then show ?case using Cons.IH(2)[of "e[i := want]"] x by (simp add: grant_def) }
qed (simp_all add: grant_def)

lemma grant_sum:
  assumes "distinct (map fst xs)" and "\<forall>(i, want) \<in> set xs. i < length e \<and> e ! i = 0"
  shows "sum_list (grant xs e) = sum_list e + sum_list (map snd xs)"
  using assms
proof (induction xs arbitrary: e)
  case (Cons x xs)
  obtain i want where x: "x = (i, want)" by (cases x)
  have i: "i < length e" "e ! i = 0" "i \<notin> fst ` set xs" using Cons.prems x by auto
  have "sum_list (grant xs (e[i := want])) = sum_list (e[i := want]) + sum_list (map snd xs)"
  proof (rule Cons.IH)
    show "\<forall>(j, w) \<in> set xs. j < length (e[i := want]) \<and> e[i := want] ! j = 0"
    proof (intro ballI, clarify)
      fix j w
      assume j: "(j, w) \<in> set xs"
      then have "j \<noteq> i" using i(3) by force
      then show "j < length (e[i := want]) \<and> e[i := want] ! j = 0" using Cons.prems(2) j by auto
    qed
  qed (use Cons.prems x in simp)
  then show ?case using i sum_list_put[of i e want] by (simp add: x grant_def)
qed (simp add: grant_def)

lemma round_shares_snd: "map snd (round_shares clean s) = hamilton (fs_budget s) (map (\<lambda>i. clean ! i) (active_idx (fs_active s)))"
  by (simp add: round_shares_def Let_def)

lemma round_shares_ok:
  assumes "length clean = m" and "\<forall>w \<in> set clean. 0 \<le> w" and "fill_ok m caps n s" and "0 \<le> fs_budget s"
    and "active_idx (fs_active s) \<noteq> []"
  shows "distinct (map fst (round_shares clean s))"
    and "\<forall>(i, want) \<in> set (round_shares clean s). i < m \<and> fs_active s ! i \<and> 0 \<le> want"
    and "sum_list (map snd (round_shares clean s)) = fs_budget s"
proof -
  let ?idx = "active_idx (fs_active s)"
  have len: "length (fs_active s) = m" using assms(3) by (simp add: fill_ok_def)
  have w: "weights_ok (map (\<lambda>i. clean ! i) ?idx)" using assms(1,2,5) len by (auto simp: weights_ok_def)
  show "distinct (map fst (round_shares clean s))" by simp
  show "sum_list (map snd (round_shares clean s)) = fs_budget s"
    using hamilton_sum[OF w assms(4)] by (simp only: round_shares_snd)
  show "\<forall>(i, want) \<in> set (round_shares clean s). i < m \<and> fs_active s ! i \<and> 0 \<le> want"
  proof (intro ballI, clarify)
    fix i want
    assume x: "(i, want) \<in> set (round_shares clean s)"
    have "i \<in> set (map fst (round_shares clean s))" "want \<in> set (map snd (round_shares clean s))"
      unfolding set_map by (rule rev_image_eqI[OF x], simp)+
    then show "i < m \<and> fs_active s ! i \<and> 0 \<le> want"
      using hamilton_nonneg[OF w assms(4)] len unfolding round_shares_fst round_shares_snd by auto
  qed
qed

text \<open>What the loop leaves: everything placed, or every domain at its cap and the rest left over.\<close>

definition filled :: "nat \<Rightarrow> int list option \<Rightarrow> int \<Rightarrow> int list \<times> bool list \<times> int \<Rightarrow> bool" where
  "filled m caps n r =
     (case r of (e, sat, left) \<Rightarrow>
        length e = m \<and> length sat = m \<and> sum_list e + left = n \<and> 0 \<le> left
        \<and> (\<forall>i<m. 0 \<le> e ! i \<and> (case cap_at caps i of None \<Rightarrow> True | Some cap \<Rightarrow> e ! i \<le> cap))
        \<and> (\<forall>i<m. sat ! i \<longrightarrow> cap_at caps i = Some (e ! i))
        \<and> (0 < left \<longrightarrow> (\<forall>i<m. cap_at caps i = Some (e ! i))))"

lemma cap_at_nonneg: "cap_at caps i = Some x \<Longrightarrow> 0 \<le> x"
  by (auto simp: cap_at_def split: option.splits if_splits)

lemma fill_ok_bounds:
  assumes "fill_ok m caps n s" and "i < m"
  shows "0 \<le> fs_Expected s ! i \<and> (case cap_at caps i of None \<Rightarrow> True | Some cap \<Rightarrow> fs_Expected s ! i \<le> cap)"
  using assms cap_at_nonneg[of caps i]
  by (cases "fs_active s ! i") (force simp: fill_ok_def split: option.split)+

lemma water_fill_filled:
  assumes "length clean = m" and "\<forall>w \<in> set clean. 0 \<le> w" and "fill_ok m caps n s" and "0 \<le> fs_budget s"
  shows "filled m caps n (water_fill caps clean s)"
  using assms
proof (induction caps clean s rule: water_fill.induct)
  case (1 caps clean s)
  let ?xs = "round_shares clean s"
  note ok = 1(4) and c = 1(2,3)
  have len: "length (fs_active s) = m" "length (fs_Expected s) = m" "length (fs_Saturated s) = m"
    "sum_list (fs_Expected s) + fs_budget s = n" using ok by (simp_all add: fill_ok_def)
  show ?case
  proof (cases "active_idx (fs_active s) = []")
    case True
    have "\<not> fs_active s ! i" if "i < m" for i
      using True that len(1) active_idx_set[of "fs_active s"] by auto
    then have "\<forall>i<m. cap_at caps i = Some (fs_Expected s ! i)" using ok by (auto simp: fill_ok_def)
    then show ?thesis
      using True 1(5) len fill_ok_bounds[OF ok] by (subst water_fill.simps) (simp add: filled_def)
  next
    case False
    note sh = round_shares_ok[OF c ok 1(5) False]
    show ?thesis
    proof (cases "\<exists>(i, want) \<in> set ?xs. over_cap caps i want")
      case True
      have r: "fill_ok m caps n (freeze_round caps ?xs s) \<and> 0 \<le> fs_budget (freeze_round caps ?xs s)"
        using freeze_round_ok[OF ok sh(1,2)] sh(3) by simp
      have "filled m caps n (water_fill caps clean (freeze_round caps ?xs s))"
        using 1(1)[OF False refl True c] r by simp
      then show ?thesis using False True by (subst water_fill.simps) (simp add: Let_def)
    next
      case nf: False
      let ?e = "grant ?xs (fs_Expected s)"
      have lt: "\<forall>(i, want) \<in> set ?xs. i < length (fs_Expected s)" using sh(2) len(2) by auto
      have zero: "\<forall>(i, want) \<in> set ?xs. i < length (fs_Expected s) \<and> fs_Expected s ! i = 0"
        using sh(2) len(2) ok by (fastforce simp: fill_ok_def)
      have sum: "sum_list ?e + 0 = n" using grant_sum[OF sh(1) zero] sh(3) len(4) by simp
      have nth: "?e ! i = (case map_of ?xs i of None \<Rightarrow> fs_Expected s ! i | Some want \<Rightarrow> want)" if "i < m" for i
        using grant_nth(1)[OF sh(1) lt] that len(2) by simp
      have leng: "length ?e = m"
      proof (cases "m = 0")
        case True
        then show ?thesis using False len(1) by (simp add: active_idx_def)
      next
        case False
        then show ?thesis using grant_nth(2)[OF sh(1) lt, of 0] len(2) by simp
      qed
      have b: "0 \<le> ?e ! i \<and> (case cap_at caps i of None \<Rightarrow> True | Some cap \<Rightarrow> ?e ! i \<le> cap)" if "i < m" for i
      proof (cases "map_of ?xs i")
        case None
        then show ?thesis using nth[OF that] fill_ok_bounds[OF ok that] by (cases "cap_at caps i") simp_all
      next
        case (Some want)
        then have "(i, want) \<in> set ?xs" by (rule map_of_SomeD)
        then have "0 \<le> want" "\<not> over_cap caps i want" using sh(2) nf by auto
        then show ?thesis using nth[OF that] Some by (auto simp: over_cap_def cap_at_def split: option.splits)
      qed
      have sat: "cap_at caps i = Some (?e ! i)" if "i < m" "fs_Saturated s ! i" for i
      proof -
        have "\<not> fs_active s ! i" using ok that by (auto simp: fill_ok_def)
        then have "i \<notin> fst ` set ?xs" using sh(2) by auto
        then have "map_of ?xs i = None" by (simp add: map_of_eq_None_iff)
        then show ?thesis using nth[OF that(1)] ok that \<open>\<not> fs_active s ! i\<close> by (auto simp: fill_ok_def)
      qed
      show ?thesis
        using False nf sum leng len(3) b sat by (subst water_fill.simps) (simp add: Let_def filled_def)
    qed
  qed
qed

lemma sanitise_ok: "\<forall>w \<in> set (sanitiseWeights ws). 0 \<le> w" "length (sanitiseWeights ws) = length ws"
  by (auto simp: sanitiseWeights_def split: float64.split)

lemma Apportion_filled:
  assumes "0 \<le> n" and "caps_ok (length ws) caps"
  shows "filled (length ws) caps n
     (ap_Expected (Apportion n ws caps), ap_Saturated (Apportion n ws caps), ap_Unplaceable (Apportion n ws caps))
   \<and> ap_Placed (Apportion n ws caps) = sum_list (ap_Expected (Apportion n ws caps))"
proof (cases "length ws = 0 \<or> n = 0")
  case True
  then show ?thesis
    using assms(1) by (auto simp: Apportion_def Let_def filled_def sum_list_replicate dest: cap_at_nonneg split: option.split)
next
  case False
  let ?s = "\<lparr>fs_active = replicate (length ws) True, fs_budget = n, fs_Expected = replicate (length ws) 0,
     fs_Saturated = replicate (length ws) False\<rparr>"
  have "fill_ok (length ws) caps n ?s" by (simp add: fill_ok_def sum_list_replicate)
  from water_fill_filled[OF sanitise_ok(2,1) this] show ?thesis
    using False assms(1) by (auto simp: Apportion_def Let_def split: prod.splits)
qed

text \<open>
  C22: an apportionment places what fits. For any weights, even corrupt ones, and any caps, the
  loop ends; every domain gets a non-negative count within its cap, the counts add up to what is
  reported placed, and placed and unplaceable add up to \<open>n\<close>. Objects are left over only when
  every domain is filled to its cap, so the number placed is the smaller of \<open>n\<close> and the sum of
  the caps; a domain marked saturated holds exactly its cap.
\<close>

theorem apportion_places_what_fits:
  assumes "0 \<le> n" and "caps_ok (length ws) caps"
  defines "A \<equiv> Apportion n ws caps"
  shows "length (ap_Expected A) = length ws \<and> sum_list (ap_Expected A) = ap_Placed A
       \<and> ap_Placed A + ap_Unplaceable A = n \<and> 0 \<le> ap_Unplaceable A
       \<and> (\<forall>i < length ws. 0 \<le> ap_Expected A ! i \<and> (case cap_at caps i of None \<Rightarrow> True | Some cap \<Rightarrow> ap_Expected A ! i \<le> cap))
       \<and> (\<forall>i < length ws. ap_Saturated A ! i \<longrightarrow> cap_at caps i = Some (ap_Expected A ! i))
       \<and> (0 < ap_Unplaceable A \<longrightarrow> (\<forall>i < length ws. cap_at caps i = Some (ap_Expected A ! i)))"
  using Apportion_filled[OF assms(1,2)] unfolding A_def filled_def by simp

theorem apportion_places_what_fits_witness:
  "ap_Placed (Apportion 10 [Fin 1, Fin 1, NaN] (Some [3, 2, 1])) + ap_Unplaceable (Apportion 10 [Fin 1, Fin 1, NaN] (Some [3, 2, 1])) = 10
   \<and> ap_Expected (Apportion 10 [Fin 1, Fin 1, NaN] (Some [3, 2, 1])) = [3, 2, 1]
   \<and> ap_Expected (Apportion 10 [Fin 1, Fin 1, Fin 1] (Some [2, -1, -1])) = [2, 4, 4]"
proof -
  have n: "(0::int) \<le> 10" by simp
  have c: "caps_ok (length [Fin 1, Fin 1, NaN]) (Some [3, 2, 1])" by code_simp
  have e: "ap_Expected (Apportion 10 [Fin 1, Fin 1, NaN] (Some [3, 2, 1])) = [3, 2, 1]"
    "ap_Expected (Apportion 10 [Fin 1, Fin 1, Fin 1] (Some [2, -1, -1])) = [2, 4, 4]" by code_simp+
  show ?thesis using apportion_places_what_fits[OF n c] e by blast
qed

lemma grant_all:
  fixes e ys :: "int list"
  assumes "length ys = m" and "length e = m" shows "grant (zip [0..<m] ys) e = ys"
proof -
  have d: "distinct (map fst (zip [0..<m] ys))" and lt: "\<forall>(i, want) \<in> set (zip [0..<m] ys). i < length e"
    using assms by (auto dest: set_zip_leftD)
  have "grant (zip [0..<m] ys) e ! k = ys ! k" if "k < m" for k
    using grant_nth(1)[OF d lt, of k] map_of_zip_nth[of "[0..<m]" ys k] that assms by simp
  moreover have "length (grant (zip [0..<m] ys) e) = m"
    using grant_nth(2)[OF d lt, of 0] assms by (cases m) (auto simp: grant_def)
  ultimately show ?thesis using assms by (intro nth_equalityI) auto
qed

lemma Apportion_uncapped:
  assumes "0 < n" and "ws \<noteq> []"
  shows "ap_Expected (Apportion n ws None) = hamilton n (sanitiseWeights ws)"
proof -
  let ?s = "\<lparr>fs_active = replicate (length ws) True, fs_budget = n, fs_Expected = replicate (length ws) 0,
     fs_Saturated = replicate (length ws) False\<rparr>"
  let ?W = "sanitiseWeights ws"
  have idx: "active_idx (replicate (length ws) True) = [0..<length ws]"
    by (simp add: active_idx_def filter_id_conv)
  have sh: "round_shares ?W ?s = zip [0..<length ws] (hamilton n ?W)"
    using map_nth[of ?W] by (simp add: round_shares_def idx Let_def sanitise_ok)
  have "ap_Expected (Apportion n ws None) = grant (zip [0..<length ws] (hamilton n ?W)) (replicate (length ws) 0)"
    using assms by (auto simp: Apportion_def Let_def water_fill.simps[of None _ ?s] idx over_cap_def sh)
  also have "\<dots> = hamilton n ?W" by (rule grant_all) (simp_all add: sanitise_ok)
  finally show ?thesis .
qed

text \<open>Equal weights leave a spread of at most one.\<close>

lemma Apportion_equal:
  assumes "0 < n" and "i < m" and "j < m"
  shows "ap_Expected (Apportion n (EqualWeights m) None) ! i \<le> ap_Expected (Apportion n (EqualWeights m) None) ! j + 1"
proof -
  let ?W = "sanitiseWeights (EqualWeights m)"
  have W: "?W = replicate m 1" by (simp add: sanitiseWeights_def EqualWeights_def)
  have ok: "weights_ok ?W" and len: "length ?W = m" using assms(2) by (auto simp: W weights_ok_def)
  have eff: "effective_weights ?W = replicate m 1" using assms(2) by (simp add: W effective_weights_def sum_list_replicate)
  have q: "quota n (effective_weights ?W) i = quota n (effective_weights ?W) j"
    using assms(2,3) by (simp add: eff quota_def)
  have "EqualWeights m \<noteq> []" using assms(2) by (simp add: EqualWeights_def)
  from Apportion_uncapped[OF assms(1) this] have E: "ap_Expected (Apportion n (EqualWeights m) None) = hamilton n ?W" .
  have "of_int (hamilton n ?W ! i) < quota n (effective_weights ?W) i + 1"
       "quota n (effective_weights ?W) j - 1 < of_int (hamilton n ?W ! j)"
    using hamilton_quota[OF ok assms(1), of i] hamilton_quota[OF ok assms(1), of j] assms(2,3) len by linarith+
  then have "of_int (hamilton n ?W ! i) < (of_int (hamilton n ?W ! j + 2) :: rat)" using q by simp
  then have "hamilton n ?W ! i < hamilton n ?W ! j + 2" by (simp only: of_int_less_iff)
  then show ?thesis by (simp add: E)
qed

text \<open>
  C23: without caps every domain is within one object of its exact share and a heavier domain never
  gets fewer. The share is \<open>n\<close> times the domain's part of the weights (equal parts where no weight
  is positive), and of two domains of equal weight the one that comes first never gets fewer. So the
  expectation never asks for what no placement could reach.
\<close>

theorem apportion_is_fair:
  assumes "0 < n" and "i < length ws" and "j < length ws"
  defines "E \<equiv> ap_Expected (Apportion n ws None)" and "W \<equiv> sanitiseWeights ws"
  shows "\<bar>of_int (E ! i) - quota n (effective_weights W) i\<bar> < 1
       \<and> (W ! j < W ! i \<or> W ! j = W ! i \<and> i < j \<longrightarrow> E ! j \<le> E ! i)"
proof -
  have w: "weights_ok W" using sanitise_ok[of ws] assms(2) by (auto simp: weights_ok_def W_def)
  have len: "length W = length ws" by (simp add: W_def sanitise_ok)
  have "ws \<noteq> []" using assms(2) by auto
  then have "E = hamilton n W" using Apportion_uncapped[OF assms(1)] by (simp add: E_def W_def)
  then show ?thesis using hamilton_quota[OF w assms(1)] hamilton_mono[OF w assms(1)] assms(2,3) len by simp
qed

theorem apportion_is_fair_witness:
  "\<bar>of_int (ap_Expected (Apportion 7 [Fin 1, Fin 2, Fin 1] None) ! 1) - quota 7 [1, 2, 1] 1\<bar> < 1
   \<and> ap_Expected (Apportion 7 [Fin 1, Fin 2, Fin 1] None) ! 0 \<le> ap_Expected (Apportion 7 [Fin 1, Fin 2, Fin 1] None) ! 1"
proof -
  let ?ws = "[Fin 1, Fin 2, Fin 1]"
  have h: "(0::int) < 7" "1 < length ?ws" "0 < length ?ws" by simp_all
  have w: "sanitiseWeights ?ws = [1, 2, 1]" by (simp add: sanitiseWeights_def)
  then have e: "effective_weights (sanitiseWeights ?ws) = [1, 2, 1]" by (simp add: effective_weights_def)
  show ?thesis using apportion_is_fair[OF h] unfolding e unfolding w by simp
qed

end
