(* ===== verification/ScoreLaws.thy ===== *)
theory ScoreLaws
  imports Score EligibleLaws IntentLaws ApportionLaws
begin

section \<open>Laws of the verdict\<close>

text \<open>
  The evaluation of one axis as a whole: eligibility, weights, apportionment, scores and verdict
  composed the way \<open>ScoreAxis\<close> composes them.
\<close>

subsection \<open>Relocation\<close>

lemma relocation_zip: "length expected = length actual \<Longrightarrow>
  relocation actual expected = (\<Sum>(a, e)\<leftarrow>zip actual expected. max 0 (a - e))"
proof -
  assume len: "length expected = length actual"
  have "zip actual expected = map (\<lambda>i. (actual ! i, expected ! i)) [0..<length actual]"
    using len by (intro nth_equalityI) auto
  then show ?thesis by (simp add: relocation_def comp_def)
qed

lemma relocation_balance:
  assumes "length expected = length actual"
  shows "2 * relocation actual expected =
     (\<Sum>(a, e)\<leftarrow>zip actual expected. \<bar>a - e\<bar>) + (sum_list actual - sum_list expected)"
  unfolding relocation_zip[OF assms] using assms
proof (induction actual expected rule: list_induct2')
  case (4 a as e es)
  then show ?case by (simp add: max_def)
qed auto

lemma relocation_bounds:
  assumes "length expected = length actual" "\<forall>a \<in> set actual. 0 \<le> a" "\<forall>e \<in> set expected. 0 \<le> e"
  shows "0 \<le> relocation actual expected" "relocation actual expected \<le> sum_list actual"
proof -
  have "0 \<le> relocation actual expected \<and> relocation actual expected \<le> sum_list actual"
    unfolding relocation_zip[OF assms(1)] using assms
  proof (induction actual expected rule: list_induct2')
    case (4 a as e es)
    then show ?case by (auto simp: max_def)
  qed auto
  then show "0 \<le> relocation actual expected" "relocation actual expected \<le> sum_list actual" by simp_all
qed

lemma relocation_zero:
  assumes "length expected = length actual" "sum_list expected = sum_list actual"
  shows "relocation actual expected = 0 \<longleftrightarrow> actual = expected"
proof
  assume "relocation actual expected = 0"
  then have "(\<Sum>(a, e)\<leftarrow>zip actual expected. \<bar>a - e\<bar>) = 0"
    using relocation_balance[OF assms(1)] assms(2) by simp
  with assms(1) show "actual = expected"
  proof (induction actual expected rule: list_induct2')
    case (4 a as e es)
    have "0 \<le> (\<Sum>(a, e)\<leftarrow>zip as es. \<bar>a - e\<bar>)" by (rule sum_list_nonneg) auto
    with 4 show ?case by auto
  qed auto
next
  assume "actual = expected"
  then show "relocation actual expected = 0" by (simp add: relocation_def)
qed

subsection \<open>Relaxing\<close>

lemma scaleCount_ge: "1 < factor \<Longrightarrow> n \<le> scaleCount n factor"
proof -
  assume m: "1 < factor"
  show ?thesis
  proof (cases "0 < n")
    case True
    then have "of_int n \<le> of_int n * factor" using m by simp
    then have "n \<le> \<lceil>of_int n * factor\<rceil>" by (meson le_of_int_ceiling of_int_le_iff order_trans)
    then show ?thesis by (simp add: scaleCount_def)
  qed (simp add: scaleCount_def)
qed

lemma Relaxed_le:
  assumes "0 \<le> th_Drift t"
  shows "th_Drift t \<le> th_Drift (Relaxed t factor)" "th_SmallNThreshold t \<le> th_SmallNThreshold (Relaxed t factor)"
    "th_MinRelocationSmallN t \<le> th_MinRelocationSmallN (Relaxed t factor)"
proof -
  show "th_Drift t \<le> th_Drift (Relaxed t factor)"
    using assms mult_left_mono[of 1 factor "th_Drift t"] by (simp add: Relaxed_def)
qed (simp_all add: Relaxed_def scaleCount_ge)

lemma colocate_relaxed:
  assumes "0 \<le> th_Drift t" "fst (breachColocate s (Relaxed t factor)) \<noteq> BreachNone"
  shows "breachColocate s (Relaxed t factor) = breachColocate s t"
  using assms(2) Relaxed_le[OF assms(1), of factor] by (auto simp: breachColocate_def split: if_splits)

lemma baseline_relaxed:
  assumes "0 \<le> th_Drift t" "fst (breachBaseline s it (Relaxed t factor)) \<noteq> BreachNone"
  shows "breachBaseline s it (Relaxed t factor) = breachBaseline s it t"
  using assms(2) Relaxed_le[OF assms(1), of factor]
  by (cases "foldl (worst_step s (it_Bands it)) None (zip [0..<length (sc_Domains s)] (sc_Domains s))")
     (auto simp: breachBaseline_def split: if_splits prod.splits)

definition drift_rule :: "Scores \<Rightarrow> Thresholds \<Rightarrow> BreachKind \<times> string" where
  "drift_rule s t =
     (if sc_Drift s \<le> th_Drift t then (BreachNone, [])
      else if sc_Total s < th_SmallNThreshold t \<and> sc_Relocation s < th_MinRelocationSmallN t
      then (BreachNone, ''small-n: relocation below floor'')
      else (BreachDrift, ''normalised drift over threshold''))"

lemma drift_relaxed:
  assumes "0 \<le> th_Drift t" "fst (drift_rule s (Relaxed t factor)) \<noteq> BreachNone"
  shows "drift_rule s (Relaxed t factor) = drift_rule s t"
  using assms(2) Relaxed_le[OF assms(1), of factor] by (auto simp: drift_rule_def split: if_splits)

text \<open>The rules in order; only the last three read the thresholds.\<close>

lemma breach_cases:
  "(\<exists>v. \<forall>t. breach s intent t = v) \<or> (\<forall>t. breach s intent t = breachColocate s t)
   \<or> (\<forall>t. breach s intent t = breachBaseline s (the intent) t) \<or> (\<forall>t. breach s intent t = drift_rule s t)"
proof -
  consider (fixed) "intent \<noteq> None \<and> it_Mode (the intent) = ModeIgnore \<or> \<not> sc_Evaluable s
        \<or> HardPerDomainContract intent \<and> sc_MaxDomainObjects s > the (it_MaxPerDomain (the intent))
        \<or> HardSkewContract intent"
    | (rules) "\<not> (intent \<noteq> None \<and> it_Mode (the intent) = ModeIgnore)" "sc_Evaluable s"
        "\<not> (HardPerDomainContract intent \<and> sc_MaxDomainObjects s > the (it_MaxPerDomain (the intent)))"
        "\<not> HardSkewContract intent"
    by blast
  then show ?thesis
  proof cases
    case fixed
    have "breach s intent t = breach s intent u" for t u
    proof (cases "intent \<noteq> None \<and> it_Mode (the intent) = ModeIgnore \<or> \<not> sc_Evaluable s")
      case True
      then show ?thesis by (elim disjE) (simp_all only: breach_def if_True if_False simp_thms if_cancel split: if_split)
    next
      case False
      with fixed show ?thesis
        by (cases "HardPerDomainContract intent \<and> sc_MaxDomainObjects s > the (it_MaxPerDomain (the intent))")
           (simp_all only: breach_def if_True if_False simp_thms de_Morgan_disj not_not)
    qed
    then show ?thesis by blast
  next
    case rules
    let ?A = "intent \<noteq> None \<and> it_Mode (the intent) = ModeColocate"
    let ?B = "intent \<noteq> None \<and> it_Bands (the intent) \<noteq> []"
    have r: "breach s intent t =
        (if ?A then breachColocate s t else if ?B then breachBaseline s (the intent) t else drift_rule s t)" for t
      using rules unfolding breach_def drift_rule_def by (simp only: if_False if_True simp_thms)
    consider (colocate) ?A | (baseline) "\<not> ?A" ?B | (drift) "\<not> ?A" "\<not> ?B" by blast
    then show ?thesis
    proof cases
      case colocate
      then show ?thesis using r[unfolded if_P[OF colocate]] by blast
    next
      case baseline
      then show ?thesis using r[unfolded if_not_P[OF baseline(1)] if_P[OF baseline(2)]] by blast
    next
      case drift
      then show ?thesis using r[unfolded if_not_P[OF drift(1)] if_not_P[OF drift(2)]] by blast
    qed
  qed
qed

lemma breach_relaxed:
  assumes "0 \<le> th_Drift t" "fst (breach s intent (Relaxed t factor)) \<noteq> BreachNone"
  shows "breach s intent (Relaxed t factor) = breach s intent t"
  using breach_cases[of s intent] assms(2) colocate_relaxed[OF assms(1)] baseline_relaxed[OF assms(1)]
    drift_relaxed[OF assms(1)]
  by metis

subsection \<open>The evaluated axis\<close>

lemma Score_fields:
  fixes t :: Thresholds and maxSkew :: "int option"
  assumes "domains \<noteq> []" "sum_list actual \<noteq> 0" "length (ap_Expected ap) = length domains"
  defines "s \<equiv> Score domains actual ap maxSkew t"
  defines "bound \<equiv> case maxSkew of None \<Rightarrow> spread_of (ap_Expected ap) | Some b \<Rightarrow> max b (spread_of (ap_Expected ap))"
  shows "sc_Total s = sum_list actual" "sc_Actual s = actual" "sc_Expected s = ap_Expected ap"
    "sc_ObservedSkew s = spread_of actual" "sc_MinAchievableSkew s = spread_of (ap_Expected ap)"
    "sc_ExcessSkew s = max 0 (spread_of actual - bound)"
    "sc_Relocation s = relocation actual (ap_Expected ap)"
    "sc_Drift s = of_int (relocation actual (ap_Expected ap)) / of_int (sum_list actual)"
    "sc_MaxDomainObjects s = Max (set actual)" "sc_Unplaceable s = ap_Unplaceable ap"
    "sc_Evaluable s \<longleftrightarrow> th_MinReplicasForScoring t \<le> sum_list actual" "sc_Domains s = domains"
  using assms(1-3) by (simp_all add: s_def bound_def Score_def Let_def max_def split: option.split)

lemma WeightsFor_length [simp]: "el_aligned e \<Longrightarrow> length (WeightsFor e i) = length (el_Domains e)"
  by (auto simp: WeightsFor_def Weights_def EqualWeights_def el_aligned_def split: option.split Weighting.split)

lemma capsFor_ok: "caps_ok (length (el_Domains e)) (capsFor i e)"
  by (auto simp: capsFor_def caps_ok_def split: option.split)

lemma axis_expectation:
  fixes i :: "Intent option"
  assumes "el_aligned e" "0 \<le> n"
  defines "A \<equiv> Apportion n (WeightsFor e i) (capsFor i e)"
  shows "length (ap_Expected A) = length (el_Domains e)" "sum_list (ap_Expected A) + ap_Unplaceable A = n"
    "\<forall>x \<in> set (ap_Expected A). 0 \<le> x" "0 \<le> ap_Unplaceable A"
proof -
  have "filled (length (el_Domains e)) (capsFor i e) n
      (ap_Expected A, ap_Saturated A, ap_Unplaceable A)"
    using Apportion_filled[of n "WeightsFor e i" "capsFor i e"] assms(1,2) capsFor_ok[of e i] by (simp add: A_def)
  then show "length (ap_Expected A) = length (el_Domains e)" "sum_list (ap_Expected A) + ap_Unplaceable A = n"
    "\<forall>x \<in> set (ap_Expected A). 0 \<le> x" "0 \<le> ap_Unplaceable A"
    by (auto simp: filled_def in_set_conv_nth)
qed

text \<open>What \<open>ScoreAxis\<close> scores: the eligible domains and running counts after dropping an empty unknown domain.\<close>

lemma ScoreAxis_parts:
  fixes key :: TopologyKey and intent :: "Intent option" and placed :: "Distribution option" and t :: Thresholds and sp :: Suppression
  assumes "el_aligned e0"
  defines "ev \<equiv> ScoreAxis key intent e0 placed t sp"
  obtains e actual where
    "el_aligned e" "length actual = length (el_Domains e)" "ea_Eligible ev = e"
    "ea_Apportionment ev = Apportion (sum_list actual) (WeightsFor e intent) (capsFor intent e)"
    "ea_Scores ev = Score (el_Domains e) actual (ea_Apportionment ev)
       (case intent of None \<Rightarrow> None | Some it \<Rightarrow> it_MaxSkew it) t"
    "ea_Verdict ev = JudgeTransient (ea_Scores ev) intent t sp"
    "sc_Actual (ea_Scores ev) = actual"
proof -
  let ?a0 = "case placed of Some d \<Rightarrow> Counts d (el_Domains e0) [StateRunning] | None \<Rightarrow> map (\<lambda>_. 0) (el_Domains e0)"
  obtain e actual where d: "DropEmptyUnknown e0 ?a0 = (e, actual)" by (cases "DropEmptyUnknown e0 ?a0")
  have len: "length ?a0 = length (el_Domains e0)" by (simp add: Counts_def split: option.split)
  have sa: "sc_Actual (Score dm ac ap ms t) = ac" for dm ac ap ms by (simp add: Score_def Let_def)
  show ?thesis
    by (rule that[of e actual])
       (use DropEmptyUnknown_aligned[OF assms(1) len d] d in \<open>simp_all add: ev_def ScoreAxis_def Let_def sa\<close>)
qed

text \<open>
  C27: the relocation score is the number of objects to move. On every aligned axis that holds
  objects, twice the relocation is the distance between the observed and the expected counts plus
  the objects no cap leaves room for; the drift is the fraction of the objects to be moved, between
  zero and one; and when everything fits both are zero exactly for the expected placement, on which
  the excess skew is zero too.
\<close>

theorem relocation_counts_moves:
  fixes key :: TopologyKey and intent :: "Intent option" and placed :: "Distribution option" and t :: Thresholds and sp :: Suppression
  assumes "el_aligned e0"
  defines "ev \<equiv> ScoreAxis key intent e0 placed t sp"
  defines "s \<equiv> ea_Scores ev" and "a \<equiv> sc_Actual (ea_Scores ev)" and "x \<equiv> sc_Expected (ea_Scores ev)"
  assumes "\<forall>n \<in> set a. 0 \<le> n" and "0 < sum_list a"
  shows "length x = length a
       \<and> 2 * sc_Relocation s = (\<Sum>(n, m)\<leftarrow>zip a x. \<bar>n - m\<bar>) + sc_Unplaceable s
       \<and> sc_Drift s = of_int (sc_Relocation s) / of_int (sum_list a) \<and> 0 \<le> sc_Drift s \<and> sc_Drift s \<le> 1
       \<and> (sc_Unplaceable s = 0 \<longrightarrow> (sc_Relocation s = 0 \<longleftrightarrow> a = x) \<and> (sc_Drift s = 0 \<longleftrightarrow> a = x))
       \<and> (a = x \<longrightarrow> sc_Drift s = 0 \<and> sc_ExcessSkew s = 0)"
proof -
  obtain e actual where p: "el_aligned e" "length actual = length (el_Domains e)"
    "ea_Apportionment ev = Apportion (sum_list actual) (WeightsFor e intent) (capsFor intent e)"
    "s = Score (el_Domains e) actual (ea_Apportionment ev) (case intent of None \<Rightarrow> None | Some it \<Rightarrow> it_MaxSkew it) t"
    "a = actual"
    using ScoreAxis_parts[OF assms(1), of key intent placed t sp] unfolding ev_def s_def a_def by metis
  let ?A = "ea_Apportionment ev"
  have n: "0 \<le> sum_list actual" using assms(7) p(5) by simp
  note ax = axis_expectation[OF p(1) n, of intent, folded p(3)]
  have ne: "el_Domains e \<noteq> []" "sum_list actual \<noteq> 0" using p(2,5) assms(7) by auto
  note f = Score_fields[OF ne ax(1), of "case intent of None \<Rightarrow> None | Some it \<Rightarrow> it_MaxSkew it" t, folded p(4)]
  have x: "x = ap_Expected ?A" using f(3) by (simp add: x_def s_def)
  have len: "length x = length a" using x ax(1) p(2,5) by simp
  have bal: "2 * sc_Relocation s = (\<Sum>(n, m)\<leftarrow>zip a x. \<bar>n - m\<bar>) + sc_Unplaceable s"
    using relocation_balance[OF len] ax(2) f(7,10) x p(5) by simp
  have b: "0 \<le> relocation a x" "relocation a x \<le> sum_list a"
    using relocation_bounds[OF len assms(6)] ax(3) x by simp_all
  have d: "sc_Drift s = of_int (relocation a x) / of_int (sum_list a)" using f(8) x p(5) by simp
  have r: "sc_Relocation s = relocation a x" using f(7) x p(5) by simp
  have z: "sc_Unplaceable s = 0 \<Longrightarrow> sc_Relocation s = 0 \<longleftrightarrow> a = x"
    using relocation_zero[OF len] ax(2) f(7,10) x p(5) by simp
  have "a = x \<Longrightarrow> sc_ExcessSkew s = 0" using f(6) x p(5) by (simp split: option.split)
  moreover have "a = x \<Longrightarrow> sc_Drift s = 0" using d by (simp add: relocation_def)
  moreover have "0 \<le> sc_Drift s" "sc_Drift s \<le> 1" using d b assms(7) by simp_all
  moreover have "sc_Drift s = 0 \<longleftrightarrow> sc_Relocation s = 0" using d r assms(7) by simp
  ultimately show ?thesis using len bal z d r by (intro conjI) auto
qed

definition zone_counts :: "(Domain \<times> int) list \<Rightarrow> Distribution" where
  "zone_counts cs = \<lparr>ds_ByDomain = map (\<lambda>(d, n). (d, zero_count\<lparr>dk_Running := n\<rparr>)) cs, ds_Total = sum_list (map snd cs)\<rparr>"

definition two_zones :: Eligibility where
  "two_zones =
     \<lparr>el_Domains = [''a'', ''b''], el_CapacityCPU = [4, 4], el_CapacityMemory = [0, 0], el_CapacityRatioTrigger = 0,
      el_UndeclaredWeighting = WeightAuto, el_NodeCount = [1, 1], el_Excluded = [], el_Unready = [],
      el_SyntheticDomains = 0\<rparr>"

lemma two_zones_aligned: "el_aligned two_zones"
  by (simp add: el_aligned_def two_zones_def)

theorem relocation_counts_moves_witness:
  "let s = ea_Scores (ScoreAxis ''zone'' None two_zones (Some (zone_counts [(''a'', 7), (''b'', 1)])) DefaultThresholds zero_suppression)
   in sc_Expected s = [4, 4] \<and> 2 * sc_Relocation s = \<bar>7 - 4\<bar> + \<bar>1 - 4\<bar> + sc_Unplaceable s \<and> sc_Drift s = of_int (sc_Relocation s) / 8"
proof -
  let ?ev = "ScoreAxis ''zone'' None two_zones (Some (zone_counts [(''a'', 7), (''b'', 1)])) DefaultThresholds zero_suppression"
  have a: "sc_Actual (ea_Scores ?ev) = [7, 1]" and x: "sc_Expected (ea_Scores ?ev) = [4, 4]" by code_simp+
  have h: "\<forall>n \<in> set (sc_Actual (ea_Scores ?ev)). 0 \<le> n" "0 < sum_list (sc_Actual (ea_Scores ?ev))"
    by (simp_all add: a)
  show ?thesis using relocation_counts_moves[OF two_zones_aligned h] x by (simp add: a Let_def)
qed

subsection \<open>Contracts\<close>

lemma breach_skew_contract:
  assumes "HardSkewContract intent" "\<not> HardPerDomainContract intent" "it_Mode (the intent) \<noteq> ModeIgnore" "sc_Evaluable s"
  shows "breach s intent t =
     (if sc_ExcessSkew s > 0 then (BreachMaxSkew, ''observed skew exceeds the declared maxSkew'')
      else (BreachNone, ''observed skew within the declared maxSkew''))"
  using assms unfolding breach_def by (simp only: if_True if_False simp_thms)

lemma JudgeTransient_fields:
  fixes t :: Thresholds
  assumes "\<not> sp_Suppress sp"
  defines "t' \<equiv> if sp_Relax sp then Relaxed t (sp_Multiplier sp) else t"
  shows "ve_Kind (JudgeTransient s intent t sp) = fst (breach s intent t')"
    "ve_Breached (JudgeTransient s intent t sp) \<longleftrightarrow> fst (breach s intent t') \<noteq> BreachNone"
    "ve_Tier (JudgeTransient s intent t sp) =
       (if fst (breach s intent t') = BreachNone then TierNone else leeway_classify intent (fst (breach s intent t')))"
  using assms(1)
  by (simp_all add: JudgeTransient_def Judge_def Let_def t'_def zero_verdict_def split: prod.split)

lemma spread_of_le:
  assumes "xs \<noteq> []" "\<And>i j. i < length xs \<Longrightarrow> j < length xs \<Longrightarrow> xs ! i \<le> xs ! j + b"
  shows "spread_of xs \<le> b"
proof -
  have "Max (set xs) \<in> set xs" "Min (set xs) \<in> set xs" using assms(1) by simp_all
  then obtain i j where "i < length xs" "xs ! i = Max (set xs)" "j < length xs" "xs ! j = Min (set xs)"
    by (metis in_set_conv_nth)
  then show ?thesis using assms(2)[of i j] by (simp add: spread_of_def)
qed

lemma equal_expectation_spread:
  assumes "el_aligned e" "it_MaxPerDomain it = None" "it_DomainCaps it = []" "it_ExplicitShares it = []"
    "it_Weighting it = WeightAuto \<or> it_Weighting it = WeightEqual" "it_MaxSkew it \<noteq> None"
    "0 < n" "el_Domains e \<noteq> []"
  shows "spread_of (ap_Expected (Apportion n (WeightsFor e (Some it)) (capsFor (Some it) e))) \<le> 1"
proof -
  let ?m = "length (el_Domains e)" and ?A = "Apportion n (WeightsFor e (Some it)) (capsFor (Some it) e)"
  have "EffectiveWeighting e (Some it) = WeightEqual" using assms(5,6) by (auto simp: EffectiveWeighting_def Let_def)
  then have A: "?A = Apportion n (EqualWeights ?m) None"
    using assms(2-4) by (simp add: WeightsFor_def Weights_def capsFor_def)
  have len: "length (ap_Expected ?A) = ?m" using axis_expectation(1)[OF assms(1), of n "Some it"] assms(7) by simp
  show ?thesis
    using assms(8) len Apportion_equal[OF assms(7), of _ ?m] unfolding A by (intro spread_of_le) auto
qed

text \<open>
  C24: a declared skew bound is judged exactly. On an aligned axis whose intent carries an enforced
  \<open>maxSkew\<close> of at least one and declares no other shape (no ceiling, no named shares, no capacity
  weighting), with enough objects to be scored and no suppression, a breach is reported exactly when
  the fullest domain holds more than \<open>maxSkew\<close> objects above the emptiest, however unequal the
  zones' capacities are and whatever transient relaxes the other thresholds; it is reported under
  that rule and at tier A.
\<close>

theorem skew_contract_judged_exactly:
  fixes key :: TopologyKey and placed :: "Distribution option" and t :: Thresholds and sp :: Suppression
  assumes "el_aligned e0" and "HardSkewContract (Some it)" and "it_MaxSkew it = Some b" and "1 \<le> b"
    and "it_MaxPerDomain it = None" and "it_DomainCaps it = []" and "it_ExplicitShares it = []"
    and "it_Weighting it = WeightAuto \<or> it_Weighting it = WeightEqual"
    and "it_Mode it \<noteq> ModeIgnore" and "it_Source it \<noteq> SourceLearnedBaseline" and "\<not> sp_Suppress sp"
  defines "ev \<equiv> ScoreAxis key (Some it) e0 placed t sp"
  defines "a \<equiv> sc_Actual (ea_Scores ev)" and "v \<equiv> ea_Verdict ev"
  assumes "0 < sum_list a" and "th_MinReplicasForScoring t \<le> sum_list a"
  shows "(ve_Breached v \<longleftrightarrow> b < Max (set a) - Min (set a))
       \<and> (ve_Breached v \<longrightarrow> ve_Kind v = BreachMaxSkew \<and> ve_Tier v = TierA)"
proof -
  let ?s = "ea_Scores ev"
  obtain e actual where p: "el_aligned e" "length actual = length (el_Domains e)"
    "ea_Apportionment ev = Apportion (sum_list actual) (WeightsFor e (Some it)) (capsFor (Some it) e)"
    "?s = Score (el_Domains e) actual (ea_Apportionment ev) (it_MaxSkew it) t"
    "v = JudgeTransient ?s (Some it) t sp" "a = actual"
    using ScoreAxis_parts[OF assms(1), of key "Some it" placed t sp] unfolding ev_def v_def a_def option.case by metis
  have n: "0 < sum_list actual" using assms(15) p(6) by simp
  then have ne: "el_Domains e \<noteq> []" "sum_list actual \<noteq> 0" using p(2) by auto
  have len: "length (ap_Expected (ea_Apportionment ev)) = length (el_Domains e)"
    using axis_expectation(1)[OF p(1), of "sum_list actual" "Some it"] n p(3) by simp
  have "spread_of (ap_Expected (ea_Apportionment ev)) \<le> b"
    using equal_expectation_spread[OF p(1) assms(5-8) _ n ne(1)] assms(3,4) p(3) by simp
  then have excess: "sc_ExcessSkew ?s > 0 \<longleftrightarrow> b < spread_of a"
    using Score_fields(6)[OF ne len, of "it_MaxSkew it" t] p(4,6) assms(3) by (simp add: max_def)
  have eval: "sc_Evaluable ?s"
    using Score_fields(11)[OF ne len, of "it_MaxSkew it" t] p(4,6) assms(16) by simp
  have pd: "\<not> HardPerDomainContract (Some it)" using assms(5) by (simp add: HardPerDomainContract_def)
  have br: "breach ?s (Some it) t' =
      (if b < spread_of a then (BreachMaxSkew, ''observed skew exceeds the declared maxSkew'')
       else (BreachNone, ''observed skew within the declared maxSkew''))" for t'
    using breach_skew_contract[OF assms(2) pd _ eval] assms(9) excess by simp
  have tier: "leeway_classify (Some it) BreachMaxSkew = TierA"
    using assms(10) by (simp add: leeway_classify_def Contract_def)
  show ?thesis
    using JudgeTransient_fields[OF assms(11), of ?s "Some it" t] tier
    unfolding p(5) br by (auto simp: spread_of_def split: if_splits)
qed

definition spread_intent :: Intent where
  "spread_intent =
     zero_intent\<lparr>it_TopologyKey := ''zone'', it_Source := SourceTopologySpreadConstraint, it_MaxSkew := Some 1,
                 it_WhenUnsatisfiable := DoNotSchedule\<rparr>"

theorem skew_contract_judged_exactly_witness:
  "ve_Tier (ea_Verdict (ScoreAxis ''zone'' (Some spread_intent) two_zones (Some (zone_counts [(''a'', 3), (''b'', 1)]))
      DefaultThresholds zero_suppression)) = TierA"
proof -
  let ?ev = "ScoreAxis ''zone'' (Some spread_intent) two_zones (Some (zone_counts [(''a'', 3), (''b'', 1)]))
      DefaultThresholds zero_suppression"
  have a: "sc_Actual (ea_Scores ?ev) = [3, 1]" by code_simp
  have h: "HardSkewContract (Some spread_intent)" "it_MaxSkew spread_intent = Some 1" "1 \<le> (1::int)"
    "it_MaxPerDomain spread_intent = None" "it_DomainCaps spread_intent = []" "it_ExplicitShares spread_intent = []"
    "it_Weighting spread_intent = WeightAuto \<or> it_Weighting spread_intent = WeightEqual"
    "it_Mode spread_intent \<noteq> ModeIgnore" "it_Source spread_intent \<noteq> SourceLearnedBaseline"
    "\<not> sp_Suppress zero_suppression"
    by (simp_all add: spread_intent_def zero_intent_def HardSkewContract_Some zero_suppression_def)
  have n: "0 < sum_list (sc_Actual (ea_Scores ?ev))"
    "th_MinReplicasForScoring DefaultThresholds \<le> sum_list (sc_Actual (ea_Scores ?ev))"
    unfolding a by (simp_all add: DefaultThresholds_def)
  show ?thesis using skew_contract_judged_exactly[OF two_zones_aligned h n] by (simp add: a)
qed

text \<open>
  C37: declared shares switch the contract off. When an intent with an enforced \<open>maxSkew\<close> also shapes
  its expectation (named shares or a capacity weighting, for example a policy that won the key and
  had a pod's constraint carried onto it), the skew of the expectation is taken as the floor. A
  placement equal to that expectation is then never a breach, however far its skew exceeds
  \<open>maxSkew\<close>.
\<close>

theorem declared_shares_mask_contract:
  fixes key :: TopologyKey and placed :: "Distribution option" and t :: Thresholds and sp :: Suppression
  assumes "el_aligned e0" and "HardSkewContract (Some it)" and "it_MaxSkew it = Some b"
    and "it_MaxPerDomain it = None"
  defines "ev \<equiv> ScoreAxis key (Some it) e0 placed t sp"
  defines "a \<equiv> sc_Actual (ea_Scores ev)"
  assumes "0 < sum_list a" and "a = sc_Expected (ea_Scores ev)" and "b < Max (set a) - Min (set a)"
  shows "sc_ObservedSkew (ea_Scores ev) > b \<and> \<not> ve_Breached (ea_Verdict ev)"
proof -
  let ?s = "ea_Scores ev"
  obtain e actual where p: "el_aligned e" "length actual = length (el_Domains e)"
    "ea_Apportionment ev = Apportion (sum_list actual) (WeightsFor e (Some it)) (capsFor (Some it) e)"
    "?s = Score (el_Domains e) actual (ea_Apportionment ev) (it_MaxSkew it) t"
    "ea_Verdict ev = JudgeTransient ?s (Some it) t sp" "a = actual"
    using ScoreAxis_parts[OF assms(1), of key "Some it" placed t sp] unfolding ev_def a_def option.case by metis
  have n: "0 < sum_list actual" using assms(7) p(6) by simp
  then have ne: "el_Domains e \<noteq> []" "sum_list actual \<noteq> 0" using p(2) by auto
  have len: "length (ap_Expected (ea_Apportionment ev)) = length (el_Domains e)"
    using axis_expectation(1)[OF p(1), of "sum_list actual" "Some it"] n p(3) by simp
  note f = Score_fields[OF ne len, of "it_MaxSkew it" t, folded p(4)]
  have x: "ap_Expected (ea_Apportionment ev) = actual" using assms(8) f(3) p(6) by simp
  have z: "sc_ExcessSkew ?s = 0" using f(6) unfolding x by (simp split: option.split)
  have pd: "\<not> HardPerDomainContract (Some it)" using assms(4) by (simp add: HardPerDomainContract_def)
  have br: "fst (breach ?s (Some it) t') = BreachNone" for t'
  proof (cases "it_Mode it = ModeIgnore \<or> \<not> sc_Evaluable ?s")
    case True
    then show ?thesis by (auto simp: breach_def)
  next
    case False
    then show ?thesis using breach_skew_contract[OF assms(2) pd, of ?s t'] z by simp
  qed
  have "\<not> ve_Breached (ea_Verdict ev)"
  proof (cases "sp_Suppress sp")
    case True
    then show ?thesis by (simp add: p(5) JudgeTransient_def zero_verdict_def)
  next
    case False
    then show ?thesis using JudgeTransient_fields(2)[of sp ?s "Some it" t] br by (simp add: p(5))
  qed
  moreover have "sc_ObservedSkew ?s > b" using f(4) assms(9) p(6) by (simp add: spread_of_def)
  ultimately show ?thesis by simp
qed

text \<open>A policy naming an 80/20 split and a pod constraint with \<open>maxSkew: 1\<close>, resolved to one intent.\<close>

definition split_policy :: "Intent list" where
  "split_policy =
     [spread_intent,
      zero_intent\<lparr>it_TopologyKey := ''zone'', it_Source := SourcePolicyCRD,
                  it_ExplicitShares := [(''a'', Fin 4), (''b'', Fin 1)]\<rparr>]"

theorem declared_shares_mask_contract_witness:
  "\<exists>it. gget (ResolveIntents split_policy) ''zone'' = Some it \<and> HardSkewContract (Some it) \<and> it_MaxSkew it = Some 1
      \<and> (let ev = ScoreAxis ''zone'' (Some it) two_zones (Some (zone_counts [(''a'', 8), (''b'', 2)]))
                    DefaultThresholds zero_suppression
         in sc_ObservedSkew (ea_Scores ev) > 1 \<and> \<not> ve_Breached (ea_Verdict ev))"
proof -
  let ?it = "the (gget (ResolveIntents split_policy) ''zone'')"
  let ?ev = "ScoreAxis ''zone'' (Some ?it) two_zones (Some (zone_counts [(''a'', 8), (''b'', 2)]))
               DefaultThresholds zero_suppression"
  have r: "gget (ResolveIntents split_policy) ''zone'' = Some ?it" "HardSkewContract (Some ?it)"
    "it_MaxSkew ?it = Some 1" "it_MaxPerDomain ?it = None" by code_simp+
  have a: "sc_Actual (ea_Scores ?ev) = [8, 2]" "sc_Expected (ea_Scores ?ev) = [8, 2]" by code_simp+
  have h: "0 < sum_list (sc_Actual (ea_Scores ?ev))" "sc_Actual (ea_Scores ?ev) = sc_Expected (ea_Scores ?ev)"
    "1 < Max (set (sc_Actual (ea_Scores ?ev))) - Min (set (sc_Actual (ea_Scores ?ev)))"
    by (simp_all add: a)
  show ?thesis
    using declared_shares_mask_contract[OF two_zones_aligned r(2-4) h] r(1-3) unfolding Let_def by blast
qed

subsection \<open>Transient states\<close>

lemma contract_rules:
  "\<not> Contract (fst (breachColocate s t))" "\<not> Contract (fst (breachBaseline s it t))" "\<not> Contract (fst (drift_rule s t))"
  by (auto simp: Contract_def breachColocate_def breachBaseline_def drift_rule_def split: option.split prod.split)

lemma contract_needs_declaration:
  assumes "Contract (fst (breach s intent t))"
  shows "\<exists>it. intent = Some it \<and> it_Source it \<noteq> SourceClusterDefaultAssumed"
proof -
  have "HardPerDomainContract intent \<or> HardSkewContract intent"
  proof (rule ccontr)
    assume "\<not> ?thesis"
    then have "breach s intent t =
        (if intent \<noteq> None \<and> it_Mode (the intent) = ModeIgnore then (BreachNone, GateReason_String GateModeIgnore)
         else if \<not> sc_Evaluable s then (BreachNone, GateReason_String (sc_Gate s))
         else if intent \<noteq> None \<and> it_Mode (the intent) = ModeColocate then breachColocate s t
         else if intent \<noteq> None \<and> it_Bands (the intent) \<noteq> [] then breachBaseline s (the intent) t
         else drift_rule s t)"
      unfolding breach_def drift_rule_def by (simp only: if_False if_True simp_thms de_Morgan_disj)
    moreover have "\<not> Contract BreachNone" by (simp add: Contract_def)
    ultimately show False using assms contract_rules by (simp split: if_splits)
  qed
  then show ?thesis
    by (auto simp: HardPerDomainContract_def HardSkewContract_def declaredContract_def split: option.splits)
qed

text \<open>
  A transient state never invents a finding and never hides a broken promise behind a relaxed
  threshold. A breach reported under a transient is also reported without it, under the same rule
  and at the same tier; a contract breach is relaxed by nothing, so it disappears only under
  suppression; a suppressed verdict is never delivered; and tier A is reached only with an intent
  somebody declared, never with none, an assumed default or a learned baseline.
\<close>

theorem transient_only_loosens:
  fixes s :: Scores and intent :: "Intent option" and sp :: Suppression
  assumes "0 \<le> th_Drift t"
  defines "v \<equiv> JudgeTransient s intent t sp" and "w \<equiv> Judge s intent t"
  shows "(ve_Breached v \<longrightarrow> ve_Breached w \<and> ve_Kind v = ve_Kind w \<and> ve_Tier v = ve_Tier w)
       \<and> (Contract (ve_Kind w) \<longrightarrow> ve_Kind v = ve_Kind w \<and> ve_Breached v \<or> ve_Suppressed v)
       \<and> (ve_Suppressed v \<longrightarrow> \<not> dy_Signal (Verdict_Route v tierC))
       \<and> (ve_Tier v = TierA \<longrightarrow> (\<exists>it. intent = Some it \<and> it_Source it \<noteq> SourceClusterDefaultAssumed
                                       \<and> it_Source it \<noteq> SourceLearnedBaseline))"
proof -
  have w: "ve_Kind w = fst (breach s intent t)" "ve_Breached w \<longleftrightarrow> fst (breach s intent t) \<noteq> BreachNone"
    "ve_Tier w = (if fst (breach s intent t) = BreachNone then TierNone else leeway_classify intent (fst (breach s intent t)))"
    by (simp_all add: w_def Judge_def Let_def zero_verdict_def split: prod.split)
  have route: "ve_Suppressed v \<longrightarrow> \<not> dy_Signal (Verdict_Route v tierC)" by (simp add: Verdict_Route_def)
  show ?thesis
  proof (cases "sp_Suppress sp")
    case True
    then show ?thesis using route by (simp add: v_def JudgeTransient_def zero_verdict_def)
  next
    case False
    define t' where "t' = (if sp_Relax sp then Relaxed t (sp_Multiplier sp) else t)"
    note v = JudgeTransient_fields[OF False, of s intent t, folded v_def t'_def]
    have same: "fst (breach s intent t') \<noteq> BreachNone \<Longrightarrow> breach s intent t' = breach s intent t"
      using breach_relaxed[OF assms(1)] by (auto simp: t'_def)
    have contract: "breach s intent t' = breach s intent t" if "Contract (fst (breach s intent t))"
      using breach_cases[of s intent] that contract_rules by metis
    have tier: "leeway_classify intent k = TierA \<Longrightarrow> k = fst (breach s intent t) \<Longrightarrow>
        \<exists>it. intent = Some it \<and> it_Source it \<noteq> SourceClusterDefaultAssumed \<and> it_Source it \<noteq> SourceLearnedBaseline" for k
      using contract_needs_declaration[of s intent t] by (auto simp: leeway_classify_def split: if_splits)
    have "ve_Breached v \<longrightarrow> ve_Breached w \<and> ve_Kind v = ve_Kind w \<and> ve_Tier v = ve_Tier w"
      using same unfolding v w by presburger
    moreover have "Contract (ve_Kind w) \<longrightarrow> ve_Kind v = ve_Kind w \<and> ve_Breached v"
      using contract unfolding v w by (metis Contract_def BreachKind.distinct(1,3))
    moreover have "ve_Tier v = TierA \<longrightarrow> (\<exists>it. intent = Some it \<and> it_Source it \<noteq> SourceClusterDefaultAssumed
        \<and> it_Source it \<noteq> SourceLearnedBaseline)"
      using same tier unfolding v by (metis Tier.distinct(1))
    ultimately show ?thesis using route by blast
  qed
qed


theorem transient_only_loosens_witness:
  "let s = ea_Scores (ScoreAxis ''zone'' (Some spread_intent) two_zones (Some (zone_counts [(''a'', 3), (''b'', 1)]))
             DefaultThresholds zero_suppression);
       rollout = relaxed TransientRollout ''a rollout is in progress'' (5 / 2)
   in ve_Breached (JudgeTransient s (Some spread_intent) DefaultThresholds rollout)
      \<and> ve_Kind (JudgeTransient s (Some spread_intent) DefaultThresholds rollout) = BreachMaxSkew"
proof -
  let ?s = "ea_Scores (ScoreAxis ''zone'' (Some spread_intent) two_zones (Some (zone_counts [(''a'', 3), (''b'', 1)]))
             DefaultThresholds zero_suppression)"
  let ?r = "relaxed TransientRollout ''a rollout is in progress'' (5 / 2)"
  have t: "0 \<le> th_Drift DefaultThresholds" by (simp add: DefaultThresholds_def)
  have k: "ve_Kind (Judge ?s (Some spread_intent) DefaultThresholds) = BreachMaxSkew" by code_simp
  have "\<not> ve_Suppressed (JudgeTransient ?s (Some spread_intent) DefaultThresholds ?r)" by code_simp
  then show ?thesis
    using transient_only_loosens[OF t, of ?s "Some spread_intent" ?r] k by (simp add: Let_def Contract_def)
qed

end
