(* ===== verification/Alert.thy ===== *)
theory Alert
  imports Prelude
begin

section \<open>The alert machine of leeway\<close>

text \<open>
  \<^verbatim>\<open>pkg/leeway/alert.go\<close> and \<^verbatim>\<open>reconcile.go\<close>: from a sequence of verdicts to a condition worth telling somebody about.
  \<open>Advance\<close> returns the transition and the new state. Durations are 64-bit, so the tripling of
  the resolve dwell and the doubling of the delivery backoff wrap.
\<close>

text \<open>The phase is a byte: \<open>PhaseOther\<close> stands for the values above \<^verbatim>\<open>PhaseResolving\<close>.\<close>

datatype AlertPhase = PhaseOK | PhasePending | PhaseFiring | PhaseResolving | PhaseOther

definition AlertPhase_String :: "AlertPhase \<Rightarrow> string" where
  "AlertPhase_String p =
     (case p of PhaseOK \<Rightarrow> ''ok'' | PhasePending \<Rightarrow> ''pending'' | PhaseFiring \<Rightarrow> ''firing'' | PhaseResolving \<Rightarrow> ''resolving''
      | PhaseOther \<Rightarrow> ''unknown'')"

definition Firing :: "AlertPhase \<Rightarrow> bool" where
  "Firing p = (p = PhaseFiring \<or> p = PhaseResolving)"

datatype Transition =
    TransitionNone | TransitionPending | TransitionFiring | TransitionClearing | TransitionResolved
  | TransitionAbandoned

definition Transition_String :: "Transition \<Rightarrow> string" where
  "Transition_String t =
     (case t of
        TransitionPending \<Rightarrow> ''pending'' | TransitionFiring \<Rightarrow> ''firing'' | TransitionClearing \<Rightarrow> ''clearing''
      | TransitionResolved \<Rightarrow> ''resolved'' | TransitionAbandoned \<Rightarrow> ''abandoned'' | TransitionNone \<Rightarrow> '''')"

definition Emits :: "Transition \<Rightarrow> bool" where
  "Emits t = (t = TransitionFiring \<or> t = TransitionResolved)"

record Dwell =
  dw_For :: duration
  dw_Resolve :: duration
  dw_FlapCount :: int
  dw_FlapWindow :: duration

definition DefaultDwell :: Dwell where
  "DefaultDwell = \<lparr>dw_For = 10 * Minute, dw_Resolve = 30 * Minute, dw_FlapCount = 3, dw_FlapWindow = Hour\<rparr>"

definition dwell_normalize :: "Dwell \<Rightarrow> Dwell" where
  "dwell_normalize d0 =
     (let d1 = (if dw_For d0 \<le> 0 then d0\<lparr>dw_For := dw_For DefaultDwell\<rparr> else d0);
          d2 = (if dw_Resolve d1 \<le> 0 then d1\<lparr>dw_Resolve := wrap64 (3 * dw_For d1)\<rparr> else d1);
          d3 = (if dw_FlapCount d2 \<le> 0 then d2\<lparr>dw_FlapCount := dw_FlapCount DefaultDwell\<rparr> else d2)
      in (if dw_FlapWindow d3 \<le> 0 then d3\<lparr>dw_FlapWindow := dw_FlapWindow DefaultDwell\<rparr> else d3))"

record AlertState =
  al_Phase :: AlertPhase
  al_FirstSeenAt :: gotime
  al_Since :: gotime
  al_ClearSince :: gotime
  al_Fires :: "gotime list"

definition alert_reset :: "AlertState \<Rightarrow> AlertState" where
  "alert_reset s = \<lparr>al_Phase = PhaseOK, al_FirstSeenAt = 0, al_Since = 0, al_ClearSince = 0, al_Fires = al_Fires s\<rparr>"

definition alert_fire :: "gotime \<Rightarrow> Dwell \<Rightarrow> AlertState \<Rightarrow> AlertState" where
  "alert_fire now d s =
     s\<lparr>al_Phase := PhaseFiring,
       al_Fires := filter (\<lambda>t. t > now - dw_FlapWindow d) (al_Fires s) @ [now]\<rparr>"

definition Advance :: "AlertState \<Rightarrow> bool \<Rightarrow> gotime \<Rightarrow> Dwell \<Rightarrow> Transition \<times> AlertState" where
  "Advance s breached now d0 =
     (let d = dwell_normalize d0 in
      case al_Phase s of
        PhaseOK \<Rightarrow>
          (if \<not> breached then (TransitionNone, s)
           else (TransitionPending, s\<lparr>al_Phase := PhasePending, al_FirstSeenAt := now\<rparr>))
      | PhasePending \<Rightarrow>
          (if \<not> breached then (TransitionAbandoned, alert_reset s)
           else if time_Sub now (al_FirstSeenAt s) \<ge> dw_For d
           then (TransitionFiring, (alert_fire now d s)\<lparr>al_Since := now\<rparr>)
           else (TransitionNone, s))
      | PhaseFiring \<Rightarrow>
          (if breached then (TransitionNone, s)
           else (TransitionClearing, s\<lparr>al_Phase := PhaseResolving, al_ClearSince := now\<rparr>))
      | PhaseResolving \<Rightarrow>
          (if breached then (TransitionFiring, (alert_fire now d s)\<lparr>al_ClearSince := 0\<rparr>)
           else if time_Sub now (al_ClearSince s) \<ge> dw_Resolve d then (TransitionResolved, alert_reset s)
           else (TransitionNone, s))
      | PhaseOther \<Rightarrow> (TransitionNone, s))"

definition Recurrences :: "AlertState \<Rightarrow> gotime \<Rightarrow> Dwell \<Rightarrow> int" where
  "Recurrences s now d =
     (let n = length (filter (\<lambda>t. t > now - dw_FlapWindow (dwell_normalize d)) (al_Fires s))
      in if n = 0 then 0 else int n - 1)"

definition Flapping :: "AlertState \<Rightarrow> gotime \<Rightarrow> Dwell \<Rightarrow> bool" where
  "Flapping s now d = (Recurrences s now d > dw_FlapCount (dwell_normalize d))"

text \<open>The doubling loop, with the number of rounds left.\<close>

fun backoff_loop :: "nat \<Rightarrow> duration \<Rightarrow> duration \<Rightarrow> duration" where
  "backoff_loop 0 backoff window = backoff"
| "backoff_loop (Suc k) backoff window =
     (if wrap64 (backoff * 2) \<ge> window then window else backoff_loop k (wrap64 (backoff * 2)) window)"

definition DeliveryBackoff :: "AlertState \<Rightarrow> gotime \<Rightarrow> Dwell \<Rightarrow> duration" where
  "DeliveryBackoff s now d0 =
     (let d = dwell_normalize d0;
          excess = Recurrences s now d - dw_FlapCount d
      in if excess \<le> 0 then 0 else backoff_loop (nat (excess - 1)) (dw_For d) (dw_FlapWindow d))"

subsection \<open>Restarts\<close>

record AlertRecord = AlertState +
  ar_Cluster :: string
  ar_SubjectKey :: string
  ar_TopologyKey :: string
  ar_UpdatedAt :: gotime

definition ParseAlertPhase :: "string \<Rightarrow> AlertPhase \<times> bool" where
  "ParseAlertPhase s =
     (if s = ''ok'' then (PhaseOK, True)
      else if s = ''pending'' then (PhasePending, True)
      else if s = ''firing'' then (PhaseFiring, True)
      else if s = ''resolving'' then (PhaseResolving, True)
      else (PhaseOK, False))"

definition notAfter :: "gotime \<Rightarrow> gotime \<Rightarrow> gotime" where
  "notAfter t now = (if t > now then now else t)"

definition zero_alert :: AlertState where
  "zero_alert = \<lparr>al_Phase = PhaseOK, al_FirstSeenAt = 0, al_Since = 0, al_ClearSince = 0, al_Fires = []\<rparr>"

definition alert_repair :: "gotime \<Rightarrow> AlertState \<Rightarrow> AlertState" where
  "alert_repair now s0 =
     (if al_Phase s0 = PhaseOther then zero_alert
      else (let s1 = s0\<lparr>al_FirstSeenAt := notAfter (al_FirstSeenAt s0) now, al_Since := notAfter (al_Since s0) now,
                        al_ClearSince := notAfter (al_ClearSince s0) now,
                        al_Fires := map (\<lambda>t. notAfter t now) (al_Fires s0)\<rparr>;
                s2 = (if al_Phase s1 \<noteq> PhaseOK \<and> al_FirstSeenAt s1 = 0 then s1\<lparr>al_FirstSeenAt := now\<rparr> else s1)
            in if Firing (al_Phase s2) \<and> al_Since s2 = 0 then s2\<lparr>al_Since := now\<rparr> else s2))"

text \<open>The record's identity is carried along; the result is its machine part and the transition.\<close>

definition Reconcile :: "AlertRecord \<Rightarrow> bool \<Rightarrow> gotime \<Rightarrow> Dwell \<Rightarrow> AlertRecord \<times> Transition" where
  "Reconcile persisted breached now d =
     (let s = alert_repair now (AlertState.truncate persisted);
          s1 = (if al_Phase s = PhaseResolving then s\<lparr>al_ClearSince := now\<rparr> else s);
          r = Advance s1 breached now d
      in (persisted\<lparr>al_Phase := al_Phase (snd r), al_FirstSeenAt := al_FirstSeenAt (snd r),
                    al_Since := al_Since (snd r), al_ClearSince := al_ClearSince (snd r), al_Fires := al_Fires (snd r)\<rparr>,
          fst r))"

subsection \<open>Runs of verdicts\<close>

text \<open>The state after a history of verdicts, newest last, and the transitions it made.\<close>

type_synonym verdict_history = "(gotime \<times> bool) list"

definition alert_run :: "Dwell \<Rightarrow> verdict_history \<Rightarrow> Transition list \<times> AlertState" where
  "alert_run d h =
     foldl (\<lambda>(ts, s) (now, breached). (ts @ [fst (Advance s breached now d)], snd (Advance s breached now d)))
       ([], zero_alert) h"

lemma alert_run_Nil [simp]: "alert_run d [] = ([], zero_alert)"
  by (simp add: alert_run_def)

lemma alert_run_snoc:
  "alert_run d (h @ [(now, b)]) =
     (fst (alert_run d h) @ [fst (Advance (snd (alert_run d h)) b now d)], snd (Advance (snd (alert_run d h)) b now d))"
  by (simp add: alert_run_def case_prod_beta)

text \<open>What a consumer has been told: an emitted finding that no emitted resolution has followed.\<close>

definition told :: "Transition list \<Rightarrow> bool" where
  "told ts = (case rev (filter Emits ts) of [] \<Rightarrow> False | t # _ \<Rightarrow> t = TransitionFiring)"

lemma told_snoc: "told (ts @ [t]) = (if Emits t then t = TransitionFiring else told ts)"
  by (simp add: told_def)

text \<open>The verdicts since \<open>t0\<close> were all \<open>b\<close>, the first of them at \<open>t0\<close>.\<close>

definition unbroken :: "bool \<Rightarrow> gotime \<Rightarrow> verdict_history \<Rightarrow> bool" where
  "unbroken b t0 h = (\<exists>pre mid. h = pre @ (t0, b) # mid \<and> (\<forall>x \<in> set mid. snd x = b))"

lemma unbroken_start: "unbroken b now (h @ [(now, b)])"
  unfolding unbroken_def by (rule exI[of _ h], rule exI[of _ "[]"]) simp

lemma unbroken_snoc: "unbroken b t0 h \<Longrightarrow> unbroken b t0 (h @ [(now, b)])"
  by (fastforce simp: unbroken_def)

definition alert_inv :: "Dwell \<Rightarrow> verdict_history \<Rightarrow> bool" where
  "alert_inv d h =
     (let (ts, s) = alert_run d h in
      (al_Phase s = PhasePending \<longrightarrow> unbroken True (al_FirstSeenAt s) h)
      \<and> (al_Phase s = PhaseResolving \<longrightarrow> unbroken False (al_ClearSince s) h)
      \<and> told ts = Firing (al_Phase s))"

lemmas alert_defs = Advance_def Let_def alert_reset_def alert_fire_def Firing_def Emits_def

lemma alert_inv: "alert_inv d h"
proof (induction h rule: rev_induct)
  case Nil
  then show ?case by (simp add: alert_inv_def zero_alert_def told_def Firing_def)
next
  case (snoc x h)
  obtain now b where x: "x = (now, b)" by (cases x)
  obtain ts s where r: "alert_run d h = (ts, s)" by (cases "alert_run d h")
  show ?case
    using snoc unbroken_start[of b now h] unbroken_snoc[of b _ h now]
    by (cases "al_Phase s"; cases b)
       (auto simp: alert_inv_def x r alert_run_snoc told_snoc alert_defs)
qed

text \<open>
  C19: the machine speaks only after its dwell, and the consumer's view is the machine's. After any
  history of verdicts, a finding is outstanding in the machine exactly when the last thing emitted
  is a finding. A finding that was not outstanding is emitted only at a breached verdict that ends an
  unbroken run of breached verdicts at least the normalised dwell long; an outstanding one is emitted
  again only at a breached verdict. A resolution is emitted only for an
  outstanding finding, at a verdict that ends an unbroken clear run at least the resolve dwell long.
\<close>

theorem alert_speaks_after_dwell:
  "told (fst (alert_run d h)) = Firing (al_Phase (snd (alert_run d h)))
   \<and> (fst (Advance (snd (alert_run d h)) b now d) = TransitionFiring \<longrightarrow>
        b \<and> (told (fst (alert_run d h))
             \<or> (\<exists>t0. unbroken True t0 (h @ [(now, b)]) \<and> time_Sub now t0 \<ge> dw_For (dwell_normalize d))))
   \<and> (fst (Advance (snd (alert_run d h)) b now d) = TransitionResolved \<longrightarrow>
        told (fst (alert_run d h)) \<and> \<not> b
        \<and> (\<exists>t0. unbroken False t0 (h @ [(now, b)]) \<and> time_Sub now t0 \<ge> dw_Resolve (dwell_normalize d)))"
proof -
  obtain ts s where r: "alert_run d h = (ts, s)" by (cases "alert_run d h")
  show ?thesis
    using alert_inv[of d h] unbroken_snoc[of b _ h now]
    by (cases "al_Phase s"; cases b) (auto simp: alert_inv_def r alert_defs)
qed

definition ten_minutes :: verdict_history where
  "ten_minutes = [(Minute, True), (6 * Minute, True)]"

theorem alert_speaks_after_dwell_witness:
  "fst (Advance (snd (alert_run DefaultDwell ten_minutes)) True (11 * Minute) DefaultDwell) = TransitionFiring
   \<and> (\<exists>t0. unbroken True t0 (ten_minutes @ [(11 * Minute, True)])
        \<and> time_Sub (11 * Minute) t0 \<ge> dw_For (dwell_normalize DefaultDwell))"
proof -
  have f: "fst (Advance (snd (alert_run DefaultDwell ten_minutes)) True (11 * Minute) DefaultDwell) = TransitionFiring"
    by code_simp
  have "\<not> told (fst (alert_run DefaultDwell ten_minutes))" by code_simp
  with f alert_speaks_after_dwell[of DefaultDwell ten_minutes True "11 * Minute"] show ?thesis by blast
qed

subsection \<open>The delivery backoff\<close>

lemma backoff_loop_eq:
  assumes "0 < backoff" and "backoff < 2 ^ 62" and "0 < window" and "window < 2 ^ 62"
  shows "backoff_loop k backoff window = (if k = 0 then backoff else min (backoff * 2 ^ k) window)"
  using assms
proof (induction k arbitrary: backoff)
  case (Suc k)
  have w: "wrap64 (backoff * 2) = backoff * 2"
    using Suc.prems by (intro wrap64_id) (auto simp: minDuration_def maxDuration_def)
  show ?case
  proof (cases "backoff * 2 \<ge> window")
    case True
    have "backoff * 2 \<le> backoff * 2 ^ Suc k" using Suc.prems(1) by simp
    then show ?thesis using True w by simp
  next
    case False
    then show ?thesis using Suc.IH[of "backoff * 2"] Suc.prems w by (auto simp: mult.assoc)
  qed
qed simp

lemma normalize_twice: "dw_FlapWindow (dwell_normalize (dwell_normalize d)) = dw_FlapWindow (dwell_normalize d)"
  by (simp add: dwell_normalize_def Let_def DefaultDwell_def dur_defs)

lemma normalize_pos:
  "0 < dw_For (dwell_normalize d)" "0 < dw_FlapWindow (dwell_normalize d)" "0 < dw_FlapCount (dwell_normalize d)"
  by (simp_all add: dwell_normalize_def Let_def DefaultDwell_def dur_defs)

text \<open>
  C35: the delivery backoff, for every number of recurrences. It is zero up to the allowance and the
  dwell at the first recurrence beyond it; at the \<open>e\<close>-th, for \<open>e > 1\<close>, it is \<open>For * 2^(e-1)\<close> capped at
  the flap window, without overflow. So past the first excess it never exceeds the window, also when
  the dwell does; at the first it is the dwell, capped or not. The two durations are below \<open>2^62\<close>.
\<close>

theorem backoff_doubles_to_window:
  assumes "dw_For (dwell_normalize d) < 2 ^ 62" and "dw_FlapWindow (dwell_normalize d) < 2 ^ 62"
  shows "DeliveryBackoff s now d =
    (let e = Recurrences s now d - dw_FlapCount (dwell_normalize d);
         For = dw_For (dwell_normalize d); window = dw_FlapWindow (dwell_normalize d)
     in if e \<le> 0 then 0 else if e = 1 then For else min (For * 2 ^ nat (e - 1)) window)"
proof -
  have "Recurrences s now (dwell_normalize d) = Recurrences s now d" by (simp add: Recurrences_def normalize_twice)
  then show ?thesis using backoff_loop_eq[OF normalize_pos(1) assms(1) normalize_pos(2) assms(2)]
    by (auto simp: DeliveryBackoff_def Let_def)
qed

definition flappy :: AlertState where
  "flappy = zero_alert\<lparr>al_Phase := PhaseFiring, al_Fires := map (\<lambda>k. k * Minute) [10, 20, 30, 40, 50]\<rparr>"

definition long_dwell :: Dwell where
  "long_dwell = DefaultDwell\<lparr>dw_For := 2 * Hour\<rparr>"

text \<open>The first excess with a dwell longer than the window, and the second.\<close>

theorem backoff_doubles_to_window_witness:
  "DeliveryBackoff flappy Hour long_dwell = 2 * Hour
   \<and> DeliveryBackoff flappy Hour (long_dwell\<lparr>dw_FlapCount := 2\<rparr>) = Hour"
proof
  have h: "dw_For (dwell_normalize long_dwell) < 2 ^ 62" "dw_FlapWindow (dwell_normalize long_dwell) < 2 ^ 62"
    "Recurrences flappy Hour long_dwell - dw_FlapCount (dwell_normalize long_dwell) = 1"
    "dw_For (dwell_normalize long_dwell) = 2 * Hour"
    by code_simp+
  show "DeliveryBackoff flappy Hour long_dwell = 2 * Hour"
    using backoff_doubles_to_window[OF h(1,2)] h(3,4) by simp
  let ?d = "long_dwell\<lparr>dw_FlapCount := 2\<rparr>"
  have g: "dw_For (dwell_normalize ?d) < 2 ^ 62" "dw_FlapWindow (dwell_normalize ?d) < 2 ^ 62"
    "Recurrences flappy Hour ?d - dw_FlapCount (dwell_normalize ?d) = 2"
    "min (dw_For (dwell_normalize ?d) * 2) (dw_FlapWindow (dwell_normalize ?d)) = Hour"
    by code_simp+
  show "DeliveryBackoff flappy Hour ?d = Hour"
    using backoff_doubles_to_window[OF g(1,2)] g(3,4) by simp
qed

subsection \<open>A restart loses no finding\<close>

definition arriving :: "gotime \<Rightarrow> AlertState \<Rightarrow> AlertState" where
  "arriving now s0 =
     (let s = alert_repair now s0 in if al_Phase s = PhaseResolving then s\<lparr>al_ClearSince := now\<rparr> else s)"

lemma Reconcile_Advance:
  "Reconcile r b now d =
     (let x = Advance (arriving now (AlertState.truncate r)) b now d; s = snd x
      in (r\<lparr>al_Phase := al_Phase s, al_FirstSeenAt := al_FirstSeenAt s, al_Since := al_Since s,
             al_ClearSince := al_ClearSince s, al_Fires := al_Fires s\<rparr>, fst x))"
  by (simp add: Reconcile_def arriving_def Let_def)

lemma Reconcile_state: "AlertState.truncate (fst (Reconcile r b now d)) = snd (Advance (arriving now (AlertState.truncate r)) b now d)"
  by (simp add: Reconcile_Advance Let_def AlertState.defs)

lemma arriving_phase:
  "al_Phase (arriving now s) = (if al_Phase s = PhaseOther then PhaseOK else al_Phase s)"
  by (simp add: arriving_def alert_repair_def Let_def zero_alert_def)

text \<open>A state whose phase has a rule and none of whose instants lies ahead.\<close>

definition settled :: "gotime \<Rightarrow> AlertState \<Rightarrow> bool" where
  "settled now s \<longleftrightarrow>
     al_Phase s \<noteq> PhaseOther \<and> (al_Phase s \<noteq> PhaseOK \<longrightarrow> al_FirstSeenAt s \<le> now) \<and> al_Since s \<le> max 0 now
     \<and> al_ClearSince s \<le> max 0 now \<and> (al_Phase s = PhaseResolving \<longrightarrow> al_ClearSince s = now)
     \<and> (\<forall>t \<in> set (al_Fires s). t \<le> now)"

lemma settled_arriving: "settled now (arriving now s)"
  by (auto simp: settled_def arriving_def alert_repair_def Let_def zero_alert_def notAfter_def max_def split: if_splits)

lemma settled_Advance: "settled now s \<Longrightarrow> settled now (snd (Advance s b now d))"
  by (cases "al_Phase s") (auto simp: settled_def alert_defs max_def)

lemma arriving_Since:
  "Firing (al_Phase s) \<Longrightarrow> al_Since s \<noteq> 0 \<Longrightarrow> al_Since s \<le> now \<Longrightarrow> al_Since (arriving now s) = al_Since s"
  by (auto simp: arriving_def alert_repair_def Let_def notAfter_def Firing_def)

lemma Advance_arrived:
  assumes "settled now s" and "0 < dw_Resolve (dwell_normalize d)"
  shows "fst (Advance s b now d) \<noteq> TransitionResolved"
    and "Firing (al_Phase s) \<Longrightarrow> Firing (al_Phase (snd (Advance s b now d))) \<and> al_Since (snd (Advance s b now d)) = al_Since s"
    and "fst (Advance s b now d) = TransitionFiring \<Longrightarrow> b"
proof -
  have z: "time_Sub now now = 0" by (simp add: time_Sub_def dur_defs)
  show "fst (Advance s b now d) \<noteq> TransitionResolved"
    using assms z by (cases "al_Phase s") (auto simp: alert_defs settled_def)
  show "Firing (al_Phase s) \<Longrightarrow> Firing (al_Phase (snd (Advance s b now d))) \<and> al_Since (snd (Advance s b now d)) = al_Since s"
    using assms z by (cases "al_Phase s") (auto simp: alert_defs settled_def)
  show "fst (Advance s b now d) = TransitionFiring \<Longrightarrow> b"
    by (cases "al_Phase s") (auto simp: alert_defs split: if_splits)
qed

lemma time_Sub_mono: "a \<le> b \<Longrightarrow> time_Sub t b \<le> time_Sub t a"
  by (simp add: time_Sub_def)

text \<open>From a settled state every dwell runs out: what a steady verdict does one dwell later.\<close>

lemma settled_moves:
  assumes "settled now s"
  shows "al_Phase s = PhasePending \<Longrightarrow> dw_For (dwell_normalize d) \<le> time_Sub t now \<Longrightarrow> fst (Advance s True t d) = TransitionFiring"
    and "al_Phase s = PhaseResolving \<Longrightarrow> dw_Resolve (dwell_normalize d) \<le> time_Sub t now \<Longrightarrow> fst (Advance s False t d) = TransitionResolved"
    and "al_Phase s = PhaseFiring \<Longrightarrow> fst (Advance s False t d) = TransitionClearing"
    and "al_Phase s = PhaseOK \<Longrightarrow> fst (Advance s True t d) = TransitionPending"
  using assms time_Sub_mono[of "al_FirstSeenAt s" now t] by (auto simp: alert_defs settled_def)

text \<open>
  C20: a restart never closes a finding and never strands one. Whatever record was persisted,
  damaged ones, phases of another build and timestamps from the future included, meeting it with the
  first verdict after the start emits no resolution and a finding only on a breached verdict. A
  finding that was outstanding still is, since the same instant; a record in an unknown phase starts
  over without a history of fires. The new state is in one of the four phases, no instant in it lies
  in the future, and it can leave its phase: from pending a breach one dwell later fires, from
  resolving a clear verdict one resolve dwell later resolves, from firing a clear one starts to
  clear, and from OK a breach is pending. The resolve dwell is positive, as normalising makes it
  unless tripling the dwell overflows.
\<close>

theorem restart_keeps_findings:
  assumes "0 < dw_Resolve (dwell_normalize d)" and "Reconcile r b now d = (r', tr)"
  shows "tr \<noteq> TransitionResolved \<and> (tr = TransitionFiring \<longrightarrow> b)
       \<and> (Firing (al_Phase r) \<longrightarrow> Firing (al_Phase r') \<and> (al_Since r \<noteq> 0 \<and> al_Since r \<le> now \<longrightarrow> al_Since r' = al_Since r))
       \<and> (al_Phase r = PhaseOther \<longrightarrow> al_Phase r' = (if b then PhasePending else PhaseOK) \<and> al_Fires r' = [])
       \<and> al_Phase r' \<in> {PhaseOK, PhasePending, PhaseFiring, PhaseResolving}
       \<and> (al_Phase r' \<noteq> PhaseOK \<longrightarrow> al_FirstSeenAt r' \<le> now) \<and> al_Since r' \<le> max 0 now \<and> al_ClearSince r' \<le> max 0 now
       \<and> (\<forall>t \<in> set (al_Fires r'). t \<le> now)
       \<and> (\<forall>t. al_Phase r' = PhasePending \<and> dw_For (dwell_normalize d) \<le> time_Sub t now \<longrightarrow>
               fst (Advance (AlertState.truncate r') True t d) = TransitionFiring)
       \<and> (\<forall>t. al_Phase r' = PhaseResolving \<and> dw_Resolve (dwell_normalize d) \<le> time_Sub t now \<longrightarrow>
               fst (Advance (AlertState.truncate r') False t d) = TransitionResolved)
       \<and> (\<forall>t. al_Phase r' = PhaseFiring \<longrightarrow> fst (Advance (AlertState.truncate r') False t d) = TransitionClearing)
       \<and> (\<forall>t. al_Phase r' = PhaseOK \<longrightarrow> fst (Advance (AlertState.truncate r') True t d) = TransitionPending)"
proof -
  let ?a = "arriving now (AlertState.truncate r)" and ?s = "AlertState.truncate r'"
  have r: "al_Phase (AlertState.truncate x) = al_Phase x" "al_Since (AlertState.truncate x) = al_Since x"
    "al_FirstSeenAt (AlertState.truncate x) = al_FirstSeenAt x" "al_ClearSince (AlertState.truncate x) = al_ClearSince x"
    "al_Fires (AlertState.truncate x) = al_Fires x" for x :: AlertRecord
    by (simp_all add: AlertState.defs)
  have s: "?s = snd (Advance ?a b now d)" using Reconcile_state[of r b now d] assms(2) by simp
  have tr: "tr = fst (Advance ?a b now d)" using assms(2) by (simp add: Reconcile_Advance Let_def)
  note adv = Advance_arrived[OF settled_arriving assms(1), of now "AlertState.truncate r" b]
  have settled: "settled now ?s" unfolding s by (rule settled_Advance[OF settled_arriving])
  have other: "al_Phase r = PhaseOther \<Longrightarrow> ?a = zero_alert"
    by (simp add: arriving_def alert_repair_def Let_def zero_alert_def r)
  have fires: "al_Phase r = PhaseOther \<longrightarrow> al_Phase ?s = (if b then PhasePending else PhaseOK) \<and> al_Fires ?s = []"
    unfolding s using other by (auto simp: zero_alert_def alert_defs)
  have keep: "Firing (al_Phase r) \<longrightarrow> Firing (al_Phase ?s) \<and> (al_Since r \<noteq> 0 \<and> al_Since r \<le> now \<longrightarrow> al_Since ?s = al_Since r)"
    unfolding s using adv(2) arriving_Since[of "AlertState.truncate r" now]
    by (auto simp: arriving_phase r Firing_def)
  have "al_Phase ?s \<in> {PhaseOK, PhasePending, PhaseFiring, PhaseResolving}"
    using settled by (cases "al_Phase ?s") (simp_all add: settled_def)
  then show ?thesis
    using adv(1,3) settled fires keep settled_moves[OF settled, where d = d] unfolding tr[symmetric] settled_def r by blast
qed

definition long_outage :: AlertRecord where
  "long_outage = \<lparr>al_Phase = PhaseResolving, al_FirstSeenAt = Minute, al_Since = 11 * Minute, al_ClearSince = 20 * Minute,
     al_Fires = [11 * Minute], ar_Cluster = ''c'', ar_SubjectKey = ''Deployment/shop/web'', ar_TopologyKey = ''zone'',
     ar_UpdatedAt = 20 * Minute\<rparr>"

theorem restart_keeps_findings_witness:
  "snd (Reconcile long_outage False (2 * Hour) DefaultDwell) \<noteq> TransitionResolved
   \<and> Firing (al_Phase (fst (Reconcile long_outage False (2 * Hour) DefaultDwell)))
   \<and> al_Since (fst (Reconcile long_outage False (2 * Hour) DefaultDwell)) = 11 * Minute"
proof -
  have "0 < dw_Resolve (dwell_normalize DefaultDwell)" by code_simp
  moreover have "Firing (al_Phase long_outage)" "al_Since long_outage \<noteq> 0" "al_Since long_outage \<le> 2 * Hour"
    "al_Since long_outage = 11 * Minute" by code_simp+
  ultimately show ?thesis
    using restart_keeps_findings[of DefaultDwell long_outage False "2 * Hour",
        OF _ prod.collapse[symmetric, of "Reconcile long_outage False (2 * Hour) DefaultDwell"]] by simp
qed

end
