(* ===== verification/Logfmt.thy ===== *)
theory Logfmt
  imports Prelude
begin

section \<open>Logfmt lines\<close>

text \<open>
  The line encoding of \<^verbatim>\<open>pkg/emit/writer.go\<close> (\<^verbatim>\<open>EncodeLogfmt\<close>, \<^verbatim>\<open>ParseLogfmt\<close>) and the reader of
  \<^verbatim>\<open>pkg/findings/report.go\<close> (\<^verbatim>\<open>parseLogfmtRecord\<close>), with the quoting functions of Go's \<^verbatim>\<open>strconv\<close> they
  rest on. Strings are byte lists; bytes from 128 on belong to printable runes, which
  \<^verbatim>\<open>strconv.Quote\<close> leaves alone.
\<close>

subsection \<open>Go's quoted strings\<close>

definition dq :: char where "dq = CHR 0x22"
definition bsl :: char where "bsl = CHR 0x5C"
definition newline :: char where "newline = CHR 0x0A"

definition hexd :: "nat \<Rightarrow> char" where
  "hexd n = (if n < 10 then char_of (48 + n) else char_of (87 + n))"

definition unhex :: "char \<Rightarrow> nat option" where
  "unhex c =
     (let n = (of_char c :: nat) in
      if 48 \<le> n \<and> n \<le> 57 then Some (n - 48)
      else if 97 \<le> n \<and> n \<le> 102 then Some (n - 87)
      else if 65 \<le> n \<and> n \<le> 70 then Some (n - 55) else None)"

definition quote_char :: "char \<Rightarrow> string" where
  "quote_char c =
     (let n = (of_char c :: nat) in
      if c = dq \<or> c = bsl then [bsl, c]
      else if n = 7 then [bsl, CHR ''a''] else if n = 8 then [bsl, CHR ''b'']
      else if n = 12 then [bsl, CHR ''f''] else if n = 10 then [bsl, CHR ''n'']
      else if n = 13 then [bsl, CHR ''r''] else if n = 9 then [bsl, CHR ''t'']
      else if n = 11 then [bsl, CHR ''v'']
      else if n < 32 \<or> n = 127 then [bsl, CHR ''x'', hexd (n div 16), hexd (n mod 16)]
      else [c])"

definition strconv_Quote :: "string \<Rightarrow> string" where
  "strconv_Quote s = dq # concat (map quote_char s) @ [dq]"

text \<open>The value of hexadecimal or octal digits, and the UTF-8 encoding of a valid rune.\<close>

fun digits_value :: "nat \<Rightarrow> (char \<Rightarrow> nat option) \<Rightarrow> string \<Rightarrow> nat option" where
  "digits_value b digit [] = Some 0"
| "digits_value b digit (c # cs) =
     (case digit c of
        None \<Rightarrow> None
      | Some d \<Rightarrow> map_option (\<lambda>v. d * b ^ length cs + v) (digits_value b digit cs))"

definition utf8_encode :: "nat \<Rightarrow> string option" where
  "utf8_encode r =
     (if r < 128 then Some [char_of r]
      else if r < 2048 then Some [char_of (192 + r div 64), char_of (128 + r mod 64)]
      else if 55296 \<le> r \<and> r < 57344 then None
      else if r < 65536 then
        Some [char_of (224 + r div 4096), char_of (128 + (r div 64) mod 64), char_of (128 + r mod 64)]
      else if r < 1114112 then
        Some [char_of (240 + r div 262144), char_of (128 + (r div 4096) mod 64),
              char_of (128 + (r div 64) mod 64), char_of (128 + r mod 64)]
      else None)"

definition take_digits :: "nat \<Rightarrow> nat \<Rightarrow> (char \<Rightarrow> nat option) \<Rightarrow> string \<Rightarrow> (nat \<times> string) option" where
  "take_digits k b digit s =
     (if length s < k then None else map_option (\<lambda>v. (v, drop k s)) (digits_value b digit (take k s)))"

definition octal :: "char \<Rightarrow> nat option" where
  "octal c = (let n = (of_char c :: nat) in if 48 \<le> n \<and> n \<le> 55 then Some (n - 48) else None)"

text \<open>\<^verbatim>\<open>strconv.UnquoteChar\<close> after a backslash, inside double quotes: the bytes and what follows.\<close>

definition unescape :: "string \<Rightarrow> (string \<times> string) option" where
  "unescape s =
     (case s of
        [] \<Rightarrow> None
      | e # r \<Rightarrow>
          if e = CHR ''a'' then Some ([CHR 0x07], r) else if e = CHR ''b'' then Some ([CHR 0x08], r)
          else if e = CHR ''f'' then Some ([CHR 0x0C], r) else if e = CHR ''n'' then Some ([CHR 0x0A], r)
          else if e = CHR ''r'' then Some ([CHR 0x0D], r) else if e = CHR ''t'' then Some ([CHR 0x09], r)
          else if e = CHR ''v'' then Some ([CHR 0x0B], r)
          else if e = CHR ''x'' then map_option (\<lambda>(v, t). ([char_of v], t)) (take_digits 2 16 unhex r)
          else if e = CHR ''u'' then
            (case take_digits 4 16 unhex r of
               None \<Rightarrow> None | Some (v, t) \<Rightarrow> map_option (\<lambda>bs. (bs, t)) (utf8_encode v))
          else if e = CHR ''U'' then
            (case take_digits 8 16 unhex r of
               None \<Rightarrow> None | Some (v, t) \<Rightarrow> map_option (\<lambda>bs. (bs, t)) (utf8_encode v))
          else if octal e \<noteq> None then
            (case take_digits 3 8 octal s of
               None \<Rightarrow> None | Some (v, t) \<Rightarrow> if v > 255 then None else Some ([char_of v], t))
          else if e = bsl then Some ([bsl], r)
          else if e = dq then Some ([dq], r)
          else None)"

lemma unescape_shrinks: "unescape s = Some (v, t) \<Longrightarrow> length t < length s"
  by (auto simp: unescape_def take_digits_def split: list.splits if_splits option.splits)

text \<open>The body of a quoted string up to its closing quote: the value and what follows the quote.\<close>

function unquote_body :: "string \<Rightarrow> (string \<times> string) option" where
  "unquote_body [] = None"
| "unquote_body (c # cs) =
     (if c = dq then Some ([], cs)
      else if c = newline then None
      else if c \<noteq> bsl then map_option (\<lambda>(v, t). (c # v, t)) (unquote_body cs)
      else (case unescape cs of
              None \<Rightarrow> None
            | Some (bs, r) \<Rightarrow> map_option (\<lambda>(v, t). (bs @ v, t)) (unquote_body r)))"
  by pat_completeness auto
termination
  by (relation "measure length") (auto dest: unescape_shrinks)

definition strconv_Unquote :: "string \<Rightarrow> string option" where
  "strconv_Unquote s =
     (case s of
        [] \<Rightarrow> None
      | c # cs \<Rightarrow>
          if c \<noteq> dq then None
          else (case unquote_body cs of Some (v, []) \<Rightarrow> Some v | _ \<Rightarrow> None))"

definition strconv_QuotedPrefix :: "string \<Rightarrow> string option" where
  "strconv_QuotedPrefix s =
     (case s of
        [] \<Rightarrow> None
      | c # cs \<Rightarrow>
          if c \<noteq> dq then None
          else map_option (\<lambda>(v, t). take (length s - length t) s) (unquote_body cs))"

subsection \<open>Encoding\<close>

record Field =
  fd_Key :: string
  fd_Value :: string

text \<open>\<^verbatim>\<open>keyPattern\<close>: \<^verbatim>\<open>^[a-z][a-z0-9_]*$\<close>.\<close>

definition lower_letter :: "char \<Rightarrow> bool" where
  "lower_letter c = (let n = (of_char c :: nat) in 97 \<le> n \<and> n \<le> 122)"

definition key_char :: "char \<Rightarrow> bool" where
  "key_char c = (lower_letter c \<or> (let n = (of_char c :: nat) in 48 \<le> n \<and> n \<le> 57) \<or> c = CHR ''_'')"

definition keyPattern :: "string \<Rightarrow> bool" where
  "keyPattern k = (k \<noteq> [] \<and> lower_letter (hd k) \<and> list_all key_char (tl k))"

definition logfmtNeedsQuoting :: "string \<Rightarrow> bool" where
  "logfmtNeedsQuoting v =
     (list_ex (\<lambda>c. c = CHR '' '' \<or> c = CHR ''='' \<or> c = dq) v
      \<or> list_ex (\<lambda>c. let n = (of_char c :: nat) in n < 32 \<or> n = 127) v)"

definition encode_pair :: "Field \<Rightarrow> string" where
  "encode_pair p =
     fd_Key p @ ''='' @ (if logfmtNeedsQuoting (fd_Value p) then strconv_Quote (fd_Value p) else fd_Value p)"

definition EncodeLogfmt :: "Field list \<Rightarrow> string" where
  "EncodeLogfmt pairs = strings_Join (map encode_pair pairs) '' '' @ [newline]"

subsection \<open>Parsing\<close>

datatype logfmt_error = NoKeyValue | BadQuoted string | NoSpaceAfter string | EmptyKey | Unterminated string

text \<open>The loop of \<^verbatim>\<open>ParseLogfmt\<close>; each round consumes at least the key and the equals sign.\<close>

function parse_pairs_from :: "string \<Rightarrow> logfmt_error + Field list" where
  "parse_pairs_from rest =
     (if rest = [] then Inr []
      else (case strings_IndexByte rest CHR ''='' of
              None \<Rightarrow> Inl NoKeyValue
            | Some eq \<Rightarrow>
                if eq = 0 \<or> \<not> keyPattern (take eq rest) then Inl NoKeyValue
                else
                  (let key = take eq rest; r = drop (Suc eq) rest;
                       split = (if prefix [dq] r then
                                  (case strconv_QuotedPrefix r of
                                     None \<Rightarrow> None
                                   | Some q \<Rightarrow>
                                       (case strconv_Unquote q of
                                          None \<Rightarrow> None | Some v \<Rightarrow> Some (v, drop (length q) r)))
                                else (case strings_IndexByte r CHR '' '' of
                                        Some sp \<Rightarrow> Some (take sp r, drop sp r) | None \<Rightarrow> Some (r, [])))
                   in case split of
                        None \<Rightarrow> Inl (BadQuoted key)
                      | Some (v, r') \<Rightarrow>
                          if r' \<noteq> [] \<and> hd r' \<noteq> CHR '' '' then Inl (NoSpaceAfter key)
                          else (case parse_pairs_from (tl r') of
                                  Inl err \<Rightarrow> Inl err
                                | Inr fs \<Rightarrow> Inr (\<lparr>fd_Key = key, fd_Value = v\<rparr> # fs)))))"
  by pat_completeness auto
termination
  by (relation "measure length") (auto split: if_splits option.splits)

declare parse_pairs_from.simps [simp del]

definition ParseLogfmt :: "string \<Rightarrow> logfmt_error + Field list" where
  "ParseLogfmt line =
     parse_pairs_from (if line \<noteq> [] \<and> last line = newline then butlast line else line)"

text \<open>\<^verbatim>\<open>parseLogfmtRecord\<close>: where the closing quote is, and the loop over the fields.\<close>

fun close_quote :: "string \<Rightarrow> nat" where
  "close_quote [] = 0"
| "close_quote [c] = (if c = bsl then 2 else if c = dq then 0 else 1)"
| "close_quote (c # d # cs) =
     (if c = bsl then 2 + close_quote cs else if c = dq then 0 else Suc (close_quote (d # cs)))"

function parseLogfmtRecord :: "string \<Rightarrow> (string \<times> string) list \<Rightarrow> logfmt_error + (string \<times> string) list" where
  "parseLogfmtRecord text out =
     (if text = [] then Inr out
      else if hd text = CHR '' '' then parseLogfmtRecord (tl text) out
      else (case strings_IndexByte text CHR ''='' of
              None \<Rightarrow> Inl NoKeyValue
            | Some eq \<Rightarrow>
                (let key = take eq text; r = drop (Suc eq) text in
                 if key = [] then Inl EmptyKey
                 else if r \<noteq> [] \<and> hd r = dq then
                   (let n = close_quote (tl r) in
                    if n \<ge> length (tl r) then Inl (Unterminated key)
                    else (case strconv_Unquote (take (n + 2) r) of
                            None \<Rightarrow> Inl (BadQuoted key)
                          | Some v \<Rightarrow> parseLogfmtRecord (drop (n + 2) r) (gput key v out)))
                 else (case strings_IndexByte r CHR '' '' of
                         None \<Rightarrow> Inr (gput key r out)
                       | Some sp \<Rightarrow> parseLogfmtRecord (drop (Suc sp) r) (gput key (take sp r) out)))))"
  by pat_completeness auto
termination
  by (relation "measure (\<lambda>(text, out). length text)") auto

declare parseLogfmtRecord.simps [simp del]

subsection \<open>What is encoded reads back\<close>

lemma unhex_hexd: "n < 16 \<Longrightarrow> unhex (hexd n) = Some n"
  by (auto simp: unhex_def hexd_def Let_def of_char_of)

lemma hexd_plain: "n < 16 \<Longrightarrow> hexd n \<noteq> bsl \<and> hexd n \<noteq> dq"
proof -
  assume "n < 16"
  then have "unhex (hexd n) = Some n" by (rule unhex_hexd)
  then show ?thesis by (auto simp: unhex_def bsl_def dq_def)
qed

lemma take_hex_byte: "n < 256 \<Longrightarrow> take_digits 2 16 unhex (hexd (n div 16) # hexd (n mod 16) # t) = Some (n, t)"
  by (simp add: take_digits_def unhex_hexd numeral_2_eq_2)

lemma unquote_plain:
  "c \<noteq> dq \<Longrightarrow> c \<noteq> bsl \<Longrightarrow> c \<noteq> newline \<Longrightarrow> unquote_body (c # t) = map_option (\<lambda>(v, r). (c # v, r)) (unquote_body t)"
  by simp

lemma unquote_escape:
  "unescape t = Some (bs, r) \<Longrightarrow> unquote_body (bsl # t) = map_option (\<lambda>(v, t). (bs @ v, t)) (unquote_body r)"
  by (simp add: bsl_def dq_def newline_def)

lemma control_chars:
  "char_of (7 :: nat) = CHR 0x07" "char_of (8 :: nat) = CHR 0x08" "char_of (9 :: nat) = CHR 0x09"
  "char_of (10 :: nat) = CHR 0x0A" "char_of (11 :: nat) = CHR 0x0B" "char_of (12 :: nat) = CHR 0x0C"
  "char_of (13 :: nat) = CHR 0x0D"
  by code_simp+

lemma unquote_quote_char: "unquote_body (quote_char c @ t) = map_option (\<lambda>(v, r). (c # v, r)) (unquote_body t)"
proof -
  let ?n = "of_char c :: nat"
  have c: "c = char_of ?n" and lt: "?n < 256" by (simp_all add: nat_of_char_less_256)
  have esc: "unquote_body (bsl # e # t) = map_option (\<lambda>(v, r). (x # v, r)) (unquote_body t)"
    if "unescape (e # t) = Some ([x], t)" for e x using unquote_escape[OF that] by simp
  have eq: "?n = k \<Longrightarrow> c = char_of k" for k using c by simp
  consider "c = dq \<or> c = bsl" | "?n \<in> {7, 8, 9, 10, 11, 12, 13}" |
    (hex) "c \<noteq> dq" "c \<noteq> bsl" "?n \<notin> {7, 8, 9, 10, 11, 12, 13}" "?n < 32 \<or> ?n = 127" |
    (plain) "c \<noteq> dq" "c \<noteq> bsl" "\<not> (?n < 32 \<or> ?n = 127)" by blast
  then show ?thesis
  proof cases
    case hex
    have "unescape (CHR ''x'' # hexd (?n div 16) # hexd (?n mod 16) # t) = Some ([c], t)"
      using take_hex_byte[OF lt, of t] by (simp add: unescape_def)
    moreover have "quote_char c = [bsl, CHR ''x'', hexd (?n div 16), hexd (?n mod 16)]"
      using hex by (simp add: quote_char_def Let_def)
    ultimately show ?thesis using unquote_escape by fastforce
  next
    case plain
    then have "quote_char c = [c]" "c \<noteq> newline" by (auto simp: quote_char_def Let_def newline_def)
    with plain show ?thesis using unquote_plain by simp
  next
    case 1
    then show ?thesis
      by (auto simp: quote_char_def simp del: unquote_body.simps intro!: esc)
         (auto simp: unescape_def dq_def bsl_def octal_def)
  next
    case 2
    then have "c \<noteq> dq" "c \<noteq> bsl" by (auto simp: dq_def bsl_def)
    with 2 show ?thesis
      by (auto simp: quote_char_def Let_def unescape_def control_chars simp del: unquote_body.simps intro!: esc dest!: eq)
  qed
qed

lemma unquote_body_quoted: "unquote_body (concat (map quote_char s) @ dq # t) = Some (s, t)"
  by (induction s) (simp_all add: unquote_quote_char)

lemma Unquote_Quote: "strconv_Unquote (strconv_Quote s) = Some s"
  using unquote_body_quoted[of s "[]"] by (simp add: strconv_Quote_def strconv_Unquote_def)

lemma QuotedPrefix_Quote: "strconv_QuotedPrefix (strconv_Quote s @ t) = Some (strconv_Quote s)"
  using unquote_body_quoted[of s t] by (simp add: strconv_Quote_def strconv_QuotedPrefix_def)

lemma close_quote_char: "close_quote (quote_char c @ t) = length (quote_char c) + close_quote t"
proof -
  have plain: "c \<noteq> dq \<Longrightarrow> c \<noteq> bsl \<Longrightarrow> close_quote (c # t) = Suc (close_quote t)" for c t
    by (cases t) simp_all
  have esc: "close_quote (bsl # e # t) = 2 + close_quote t" for e t by simp
  have h: "of_char c div 16 < (16 :: nat)" "of_char c mod 16 < (16 :: nat)"
    using nat_of_char_less_256[of c] by (simp_all add: div_less_iff_less_mult)
  show ?thesis
    using hexd_plain[OF h(1)] hexd_plain[OF h(2)] by (auto simp: quote_char_def Let_def plain esc simp del: close_quote.simps)
qed

lemma close_quote_quoted: "close_quote (concat (map quote_char s) @ dq # t) = length (concat (map quote_char s))"
proof (induction s)
  case Nil
  show ?case by (cases t) (simp_all add: dq_def bsl_def)
qed (simp add: close_quote_char)

lemma key_no_separator:
  assumes "keyPattern k" shows "CHR ''='' \<notin> set k" "k \<noteq> []" "hd k \<noteq> CHR '' ''"
proof -
  have ne: "k \<noteq> []" and h: "lower_letter (hd k)" and t: "\<forall>c \<in> set (tl k). key_char c"
    using assms by (auto simp: keyPattern_def list_all_iff)
  then have "\<forall>c \<in> set k. key_char c" by (cases k) (auto simp: key_char_def)
  moreover have "\<not> key_char CHR ''=''" by code_simp
  moreover have "\<not> lower_letter CHR '' ''" by code_simp
  ultimately show "CHR ''='' \<notin> set k" "k \<noteq> []" "hd k \<noteq> CHR '' ''" using ne h by auto
qed

lemma unquoted_value:
  assumes "\<not> logfmtNeedsQuoting v" shows "CHR '' '' \<notin> set v" "dq \<notin> set v"
  using assms by (auto simp: logfmtNeedsQuoting_def list_ex_iff)

definition encodable :: "Field list \<Rightarrow> bool" where
  "encodable ps = list_all (\<lambda>p. keyPattern (fd_Key p)) ps"

lemma strings_Join_Cons: "strings_Join (x # xs) sep = x @ (if xs = [] then [] else sep @ strings_Join xs sep)"
  by (cases xs) simp_all

lemma parse_pair_step:
  assumes "keyPattern (fd_Key p)" "t = [] \<or> hd t = CHR '' ''"
  shows "parse_pairs_from (encode_pair p @ t) =
           (case parse_pairs_from (tl t) of Inl err \<Rightarrow> Inl err | Inr fs \<Rightarrow> Inr (p # fs))"
proof -
  let ?k = "fd_Key p" and ?v = "fd_Value p"
  let ?e = "if logfmtNeedsQuoting ?v then strconv_Quote ?v else ?v"
  have i: "strings_IndexByte (?k @ CHR ''='' # ?e @ t) CHR ''='' = Some (length ?k)"
    using key_no_separator(1)[OF assms(1)] by (rule strings_IndexByte_append)
  have p: "\<lparr>fd_Key = ?k, fd_Value = ?v\<rparr> = p" by simp
  have k: "?k \<noteq> []" using key_no_separator(2)[OF assms(1)] .
  have split: "(if prefix [dq] (?e @ t) then
        (case strconv_QuotedPrefix (?e @ t) of
           None \<Rightarrow> None
         | Some q \<Rightarrow> (case strconv_Unquote q of None \<Rightarrow> None | Some v \<Rightarrow> Some (v, drop (length q) (?e @ t))))
      else (case strings_IndexByte (?e @ t) CHR '' '' of
              Some sp \<Rightarrow> Some (take sp (?e @ t), drop sp (?e @ t)) | None \<Rightarrow> Some (?e @ t, []))) = Some (?v, t)"
  proof (cases "logfmtNeedsQuoting ?v")
    case True
    have "prefix [dq] (strconv_Quote ?v @ t)" by (simp add: strconv_Quote_def)
    with True show ?thesis by (simp add: QuotedPrefix_Quote Unquote_Quote)
  next
    case False
    note v = unquoted_value[OF False]
    have np: "\<not> prefix [dq] (?v @ t)"
      using v(2) assms(2) by (cases ?v; cases t) (auto simp: dq_def)
    show ?thesis
    proof (cases t)
      case Nil
      then show ?thesis using False np v(1) strings_IndexByte_None[of ?v "CHR '' ''"] by simp
    next
      case (Cons c cs)
      then have "c = CHR '' ''" using assms(2) by simp
      then show ?thesis using False np v(1) Cons strings_IndexByte_append[OF v(1), of cs] by simp
    qed
  qed
  have e: "encode_pair p @ t = ?k @ CHR ''='' # ?e @ t" by (simp add: encode_pair_def)
  show ?thesis
    unfolding e
    by (subst parse_pairs_from.simps)
       (use assms split k i p in \<open>auto simp: Let_def simp del: append_assoc split: option.splits sum.splits\<close>)
qed

lemma parse_encoded: "encodable ps \<Longrightarrow> parse_pairs_from (strings_Join (map encode_pair ps) '' '') = Inr ps"
proof (induction ps)
  case (Cons p ps)
  then have k: "keyPattern (fd_Key p)" and e: "encodable ps" by (simp_all add: encodable_def)
  show ?case
  proof (cases "ps = []")
    case True
    then show ?thesis
      using parse_pair_step[OF k, of "[]"] by (simp add: parse_pairs_from.simps[of "[]"])
  next
    case False
    then show ?thesis
      using parse_pair_step[OF k, of "CHR '' '' # strings_Join (map encode_pair ps) '' ''"] Cons.IH[OF e]
      by (simp add: strings_Join_Cons)
  qed
qed (simp add: parse_pairs_from.simps)

lemma record_pair_step:
  assumes "keyPattern (fd_Key p)" "t = [] \<or> hd t = CHR '' ''"
  shows "parseLogfmtRecord (encode_pair p @ t) out = parseLogfmtRecord (tl t) (gput (fd_Key p) (fd_Value p) out)"
proof -
  let ?k = "fd_Key p" and ?v = "fd_Value p"
  let ?e = "if logfmtNeedsQuoting ?v then strconv_Quote ?v else ?v"
  have i: "strings_IndexByte (?k @ CHR ''='' # ?e @ t) CHR ''='' = Some (length ?k)"
    using key_no_separator(1)[OF assms(1)] by (rule strings_IndexByte_append)
  note k = key_no_separator(2,3)[OF assms(1)]
  have e: "encode_pair p @ t = ?k @ CHR ''='' # ?e @ t" by (simp add: encode_pair_def)
  have skip: "parseLogfmtRecord t o' = parseLogfmtRecord (tl t) o'" for o'
    using assms(2) parseLogfmtRecord.simps[of "CHR '' '' # tl t" o'] by (cases t) simp_all
  show ?thesis
  proof (cases "logfmtNeedsQuoting ?v")
    case True
    let ?b = "concat (map quote_char ?v)"
    have q: "encode_pair p @ t = ?k @ CHR ''='' # dq # ?b @ dq # t"
      using True by (simp add: encode_pair_def strconv_Quote_def)
    have i': "strings_IndexByte (?k @ CHR ''='' # dq # ?b @ dq # t) CHR ''='' = Some (length ?k)"
      using key_no_separator(1)[OF assms(1)] by (rule strings_IndexByte_append)
    have u: "strconv_Unquote (dq # ?b @ [dq]) = Some ?v" using Unquote_Quote[of ?v] by (simp add: strconv_Quote_def)
    show ?thesis
      unfolding q
      by (subst parseLogfmtRecord.simps) (use i' k u skip in \<open>simp add: Let_def close_quote_quoted\<close>)
  next
    case False
    note v = unquoted_value[OF False]
    have nq: "\<not> (?v @ t \<noteq> [] \<and> hd (?v @ t) = dq)"
      using v(2) assms(2) by (cases ?v; cases t) (auto simp: dq_def)
    show ?thesis
    proof (cases t)
      case Nil
      then show ?thesis
        unfolding e
        by (subst parseLogfmtRecord.simps)
           (use i k False nq v(1) strings_IndexByte_None[of ?v "CHR '' ''"] in
             \<open>auto simp: Let_def parseLogfmtRecord.simps[of "[]"]\<close>)
    next
      case (Cons c cs)
      then have c: "c = CHR '' ''" using assms(2) by simp
      show ?thesis
        unfolding e
        by (subst parseLogfmtRecord.simps)
           (use i k False nq Cons c strings_IndexByte_append[OF v(1), of cs] in \<open>auto simp: Let_def\<close>)
    qed
  qed
qed

definition fields_map :: "Field list \<Rightarrow> (string \<times> string) list \<Rightarrow> (string \<times> string) list" where
  "fields_map ps out = foldl (\<lambda>m p. gput (fd_Key p) (fd_Value p) m) out ps"

lemma record_encoded:
  "encodable ps \<Longrightarrow> parseLogfmtRecord (strings_Join (map encode_pair ps) '' '') out = Inr (fields_map ps out)"
proof (induction ps arbitrary: out)
  case Nil
  show ?case by (simp add: parseLogfmtRecord.simps fields_map_def)
next
  case (Cons p ps)
  then have k: "keyPattern (fd_Key p)" and e: "encodable ps" by (simp_all add: encodable_def)
  show ?case
  proof (cases "ps = []")
    case True
    then show ?thesis
      using record_pair_step[OF k, of "[]"] by (simp add: parseLogfmtRecord.simps[of "[]"] fields_map_def)
  next
    case False
    then show ?thesis
      using record_pair_step[OF k, of "CHR '' '' # strings_Join (map encode_pair ps) '' ''"] Cons.IH[OF e]
      by (simp add: strings_Join_Cons fields_map_def)
  qed
qed

lemma ParseLogfmt_EncodeLogfmt: "encodable ps \<Longrightarrow> ParseLogfmt (EncodeLogfmt ps) = Inr ps"
  by (simp add: ParseLogfmt_def EncodeLogfmt_def parse_encoded)

end
