(* ===== verification/Emit.thy ===== *)
theory Emit
  imports Logfmt
begin

section \<open>The finding writer\<close>

text \<open>
  \<^verbatim>\<open>pkg/emit/finding.go\<close>, \<^verbatim>\<open>writer.go\<close> and \<^verbatim>\<open>findings_format.go\<close>: one finding as ordered pairs, and the
  writer that every finding passes through. The interfaces a writer holds (\<^verbatim>\<open>Sanitizer\<close>, \<^verbatim>\<open>Exempter\<close>,
  \<^verbatim>\<open>Visibility\<close>, \<^verbatim>\<open>Policy\<close> and the fold predicates) are fields of the record; the output stream is
  the list of lines written, and \<open>wr_sink\<close> says which writes succeed. The watchers see the
  findings in \<open>wr_watched\<close>.
\<close>

subsection \<open>Findings\<close>

definition emit_SeverityRank :: "string \<Rightarrow> int" where
  "emit_SeverityRank s =
     (if s = ''critical'' then 0 else if s = ''warning'' then 1 else if s = ''info'' then 2 else 3)"

definition emit_ValidSeverity :: "string \<Rightarrow> bool" where
  "emit_ValidSeverity s = (emit_SeverityRank s < 3)"

record Finding =
  fg_Kind :: string
  fg_Severity :: string
  fg_Namespace :: string
  fg_KindOfObject :: string
  fg_Name :: string
  fg_Reason :: string
  fg_Message :: string
  fg_Fingerprint :: string
  fg_ExemptReason :: string
  fg_ExemptExpires :: string
  fg_Details :: "Field list"

definition EnvelopeFields :: "string list" where
  "EnvelopeFields =
     [''kind'', ''severity'', ''namespace'', ''kind_of_object'', ''name'', ''reason'', ''message'', ''fingerprint'',
      ''exempt_reason'', ''exempt_expires'']"

definition ResponseNoteFields :: "string list" where
  "ResponseNoteFields = [''response_truncated'', ''response_truncated_severity'', ''response_hint'']"

definition SummaryNoteFields :: "string list" where
  "SummaryNoteFields =
     [''exempt'', ''context'', ''clusters'', ''clusters_failed'', ''hidden'', ''policy'', ''suppressed''] @ ResponseNoteFields"

definition finding_pairs :: "Finding \<Rightarrow> Field list" where
  "finding_pairs f =
     filter (\<lambda>p. fd_Value p \<noteq> [])
       ([\<lparr>fd_Key = ''kind'', fd_Value = fg_Kind f\<rparr>, \<lparr>fd_Key = ''severity'', fd_Value = fg_Severity f\<rparr>,
         \<lparr>fd_Key = ''namespace'', fd_Value = fg_Namespace f\<rparr>,
         \<lparr>fd_Key = ''kind_of_object'', fd_Value = fg_KindOfObject f\<rparr>, \<lparr>fd_Key = ''name'', fd_Value = fg_Name f\<rparr>,
         \<lparr>fd_Key = ''reason'', fd_Value = fg_Reason f\<rparr>, \<lparr>fd_Key = ''message'', fd_Value = fg_Message f\<rparr>,
         \<lparr>fd_Key = ''fingerprint'', fd_Value = fg_Fingerprint f\<rparr>,
         \<lparr>fd_Key = ''exempt_reason'', fd_Value = fg_ExemptReason f\<rparr>,
         \<lparr>fd_Key = ''exempt_expires'', fd_Value = fg_ExemptExpires f\<rparr>] @ fg_Details f)"

datatype emit_error =
  NoFindingKind | BadDetailKey string | BadStampKey string | StampShadows string | BadNoteKey string
| NoteShadows string | NoteReserved string | WriteFailed

definition finding_validate :: "Finding \<Rightarrow> emit_error + unit" where
  "finding_validate f =
     (if fg_Kind f = [] then Inl NoFindingKind
      else (case List.find (\<lambda>d. \<not> keyPattern (fd_Key d)) (fg_Details f) of
              Some d \<Rightarrow> Inl (BadDetailKey (fd_Key d)) | None \<Rightarrow> Inr ()))"

subsection \<open>The other two encodings\<close>

text \<open>\<^verbatim>\<open>json.Marshal\<close> of a string, with the HTML escapes Go applies.\<close>

definition json_char :: "char \<Rightarrow> string" where
  "json_char c =
     (let n = (of_char c :: nat) in
      if c = dq \<or> c = bsl then [bsl, c]
      else if n = 8 then [bsl, CHR ''b''] else if n = 12 then [bsl, CHR ''f'']
      else if n = 10 then [bsl, CHR ''n''] else if n = 13 then [bsl, CHR ''r''] else if n = 9 then [bsl, CHR ''t'']
      else if n < 32 \<or> c = CHR ''<'' \<or> c = CHR ''>'' \<or> c = CHR ''&''
      then [bsl, CHR ''u'', CHR ''0'', CHR ''0'', hexd (n div 16), hexd (n mod 16)]
      else [c])"

text \<open>The two line separators, U+2028 and U+2029, are escaped as well.\<close>

fun json_body :: "string \<Rightarrow> string" where
  "json_body (a # b # c # s) =
     (if a = CHR 0xE2 \<and> b = CHR 0x80 \<and> (c = CHR 0xA8 \<or> c = CHR 0xA9)
      then bsl # ''u202'' @ [if c = CHR 0xA8 then CHR ''8'' else CHR ''9''] @ json_body s
      else json_char a @ json_body (b # c # s))"
| "json_body s = concat (map json_char s)"

definition json_string :: "string \<Rightarrow> string" where
  "json_string s = dq # json_body s @ [dq]"

definition encodeJSON :: "Field list \<Rightarrow> string" where
  "encodeJSON pairs =
     ''{'' @ strings_Join (map (\<lambda>p. [dq] @ fd_Key p @ [dq] @ '':'' @ json_string (fd_Value p)) pairs) '','' @ ''}'' @ [newline]"

definition encodeJSONSummary :: "Field list \<Rightarrow> int \<Rightarrow> int \<Rightarrow> string" where
  "encodeJSONSummary pairs scanned findings =
     ''{'' @ strconv_Quote ''scanned'' @ '':'' @ strconv_Itoa scanned @ '','' @ strconv_Quote ''findings'' @ '':''
     @ strconv_Itoa findings
     @ concat (map (\<lambda>p. '','' @ strconv_Quote (fd_Key p) @ '':'' @ json_string (fd_Value p)) (drop 2 pairs))
     @ ''}'' @ [newline]"

definition findingSubject :: "Finding \<Rightarrow> string" where
  "findingSubject f =
     (let k = fg_KindOfObject f; ns = fg_Namespace f; n = fg_Name f in
      if k \<noteq> [] \<and> ns \<noteq> [] \<and> n \<noteq> [] then k @ ''/'' @ ns @ ''/'' @ n
      else if k \<noteq> [] \<and> n \<noteq> [] then k @ ''/'' @ n
      else if ns \<noteq> [] \<and> n \<noteq> [] then ns @ ''/'' @ n
      else if n \<noteq> [] then n
      else if ns \<noteq> [] then ns
      else k)"

text \<open>The backquote and the three bytes of the dash the Markdown block uses.\<close>

definition bq :: string where "bq = [CHR 0x60]"
definition em_dash :: string where "em_dash = [CHR 0xE2, CHR 0x80, CHR 0x94]"

definition evidence :: "Finding \<Rightarrow> string list" where
  "evidence f =
     map (\<lambda>d. bq @ fd_Key d @ ''='' @ fd_Value d @ bq) (filter (\<lambda>d. fd_Value d \<noteq> []) (fg_Details f))
     @ (if fg_ExemptReason f = [] then []
        else (bq @ ''exempt_reason='' @ fg_ExemptReason f @ bq)
             # (if fg_ExemptExpires f = [] then [] else [bq @ ''exempt_expires='' @ fg_ExemptExpires f @ bq]))"

definition encodeFindings :: "Finding \<Rightarrow> string" where
  "encodeFindings f =
     (let sev = (if strings_ToUpper (fg_Severity f) = [] then ''INFO'' else strings_ToUpper (fg_Severity f));
          subj = findingSubject f; ev = evidence f
      in ''### ['' @ sev @ ''] '' @ fg_Kind f
         @ (if fg_Reason f = [] then [] else '' ('' @ bq @ fg_Reason f @ bq @ '')'')
         @ (if subj = [] then [] else '' '' @ em_dash @ '' '' @ bq @ subj @ bq) @ [newline]
         @ ''- **Status:** '' @ (if fg_ExemptReason f = [] then ''FAIL'' else ''EXEMPT'') @ [newline]
         @ (if fg_Message f = [] then [] else ''- **Detail:** '' @ fg_Message f @ [newline])
         @ (if fg_ExemptReason f = [] then []
            else ''- **Exemption:** '' @ fg_ExemptReason f
                 @ (if fg_ExemptExpires f = [] then [] else '' (expires '' @ bq @ fg_ExemptExpires f @ bq @ '')'')
                 @ [newline])
         @ (if ev = [] then [] else ''- **Evidence:** '' @ strings_Join ev '', '' @ [newline]) @ [newline])"

definition encodeFindingsSummary :: "Field list \<Rightarrow> string" where
  "encodeFindingsSummary pairs =
     ''### Summary'' @ [newline]
     @ concat (map (\<lambda>p. ''- **'' @ fd_Key p @ '':** '' @ bq @ fd_Value p @ bq @ [newline]) pairs)
     @ [newline] @ EncodeLogfmt pairs"

subsection \<open>The writer\<close>

text \<open>\<^verbatim>\<open>time.Duration.String\<close>: the largest unit first, a fraction without trailing zeros.\<close>

definition frac_digits :: "nat \<Rightarrow> nat \<Rightarrow> string" where
  "frac_digits prec v =
     (let ds = map (\<lambda>i. char_of (48 + (v div 10 ^ (prec - 1 - i)) mod 10)) [0..<prec];
          ds' = rev (dropWhile (\<lambda>c. c = CHR ''0'') (rev ds))
      in if ds' = [] then [] else CHR ''.'' # ds')"

definition Duration_String :: "duration \<Rightarrow> string" where
  "Duration_String d =
     (let u = nat \<bar>d\<bar>; sign = (if d < 0 then ''-'' else []) in
      if u = 0 then ''0s''
      else if u < 1000 then sign @ decimal u @ ''ns''
      else if u < 1000000 then sign @ decimal (u div 1000) @ frac_digits 3 u @ [CHR 0xC2, CHR 0xB5] @ ''s''
      else if u < 1000000000 then sign @ decimal (u div 1000000) @ frac_digits 6 u @ ''ms''
      else
        (let secs = u div 1000000000; mins = secs div 60; hours = mins div 60 in
         sign @ (if hours > 0 then decimal hours @ ''h'' else [])
         @ (if mins > 0 then decimal (mins mod 60) @ ''m'' else [])
         @ decimal (secs mod 60) @ frac_digits 9 u @ ''s''))"

datatype Format = FormatLogfmt | FormatJSON | FormatFindings

definition ParseFormat :: "string \<Rightarrow> Format option" where
  "ParseFormat s =
     (if s = ''logfmt'' then Some FormatLogfmt else if s = ''json'' then Some FormatJSON
      else if s = ''findings'' then Some FormatFindings else None)"

record WriterPolicy =
  wp_Name :: string
  wp_Decide :: "string \<Rightarrow> string \<Rightarrow> string \<Rightarrow> bool \<times> string"

record Writer =
  wr_write :: "string \<Rightarrow> string \<Rightarrow> nat option"  \<comment> \<open>\<open>Some n\<close>: the write failed after \<open>n\<close> bytes\<close>
  wr_out :: string
  wr_format :: Format
  wr_sanitize :: "Finding \<Rightarrow> Finding"
  wr_exempt :: "(string \<Rightarrow> string \<Rightarrow> string \<Rightarrow> (string \<times> string) option) option"
  wr_visible :: "(string \<Rightarrow> bool) option"
  wr_policy :: "WriterPolicy option"
  wr_findings :: int
  wr_exempted :: int
  wr_hidden :: int
  wr_suppressed :: int
  wr_notes :: "Field list"
  wr_stamps :: "Field list"
  wr_watched :: "Finding list"
  wr_folds :: "(Finding \<Rightarrow> bool) list"

definition NewWriter :: "(string \<Rightarrow> string \<Rightarrow> nat option) \<Rightarrow> string \<Rightarrow> (Finding \<Rightarrow> Finding) \<Rightarrow> (Writer \<Rightarrow> Writer) list \<Rightarrow> Writer option" where
  "NewWriter write format san opts =
     map_option
       (\<lambda>fm. foldl (\<lambda>w opt. opt w)
          \<lparr>wr_write = write, wr_out = [], wr_format = fm, wr_sanitize = san, wr_exempt = None, wr_visible = None,
           wr_policy = None, wr_findings = 0, wr_exempted = 0, wr_hidden = 0, wr_suppressed = 0, wr_notes = [],
           wr_stamps = [], wr_watched = [], wr_folds = []\<rparr> opts)
       (ParseFormat format)"

definition WithExemptions :: "(string \<Rightarrow> string \<Rightarrow> string \<Rightarrow> (string \<times> string) option) option \<Rightarrow> Writer \<Rightarrow> Writer" where
  "WithExemptions e w = w\<lparr>wr_exempt := e\<rparr>"

definition WithVisibility :: "(string \<Rightarrow> bool) option \<Rightarrow> Writer \<Rightarrow> Writer" where
  "WithVisibility v w = w\<lparr>wr_visible := v\<rparr>"

definition SetPolicy :: "WriterPolicy option \<Rightarrow> Writer \<Rightarrow> Writer" where
  "SetPolicy p w = (if Option.is_none p \<or> Option.is_none (wr_policy w) then w\<lparr>wr_policy := p\<rparr> else w)"

definition isPolicyMetaKind :: "string \<Rightarrow> bool" where
  "isPolicyMetaKind kind = (suffix ''.unavailable'' kind \<or> prefix ''scan.'' kind \<or> kind = ''audit.policy_rule'')"

definition Writer_Fold :: "(Finding \<Rightarrow> bool) \<Rightarrow> Writer \<Rightarrow> Writer" where
  "Writer_Fold p w = w\<lparr>wr_folds := wr_folds w @ [p]\<rparr>"

definition stamp :: "Writer \<Rightarrow> Finding \<Rightarrow> Finding" where
  "stamp w f =
     (if wr_stamps w = [] then f
      else f\<lparr>fg_Details := filter (\<lambda>s. fd_Key s \<notin> set (map fd_Key (fg_Details f))) (wr_stamps w) @ fg_Details f\<rparr>)"

definition put_field :: "string \<Rightarrow> string \<Rightarrow> Field list \<Rightarrow> Field list" where
  "put_field key value fs =
     (case List.find (\<lambda>i. fd_Key (fs ! i) = key) [0..<length fs] of
        Some i \<Rightarrow> fs[i := (fs ! i)\<lparr>fd_Value := value\<rparr>]
      | None \<Rightarrow> fs @ [\<lparr>fd_Key = key, fd_Value = value\<rparr>])"

definition drop_field :: "string \<Rightarrow> Field list \<Rightarrow> Field list" where
  "drop_field key fs =
     (case List.find (\<lambda>i. fd_Key (fs ! i) = key) [0..<length fs] of
        Some i \<Rightarrow> take i fs @ drop (Suc i) fs | None \<Rightarrow> fs)"

definition Stamp :: "string \<Rightarrow> string \<Rightarrow> Writer \<Rightarrow> (emit_error + unit) \<times> Writer" where
  "Stamp key value w =
     (if \<not> keyPattern key then (Inl (BadStampKey key), w)
      else if key \<in> set EnvelopeFields then (Inl (StampShadows key), w)
      else (Inr (), w\<lparr>wr_stamps := (if value = [] then drop_field key (wr_stamps w)
                                     else put_field key value (wr_stamps w))\<rparr>))"

definition note_raw :: "string \<Rightarrow> string \<Rightarrow> Writer \<Rightarrow> (emit_error + unit) \<times> Writer" where
  "note_raw key value w =
     (if \<not> keyPattern key then (Inl (BadNoteKey key), w)
      else (Inr (), w\<lparr>wr_notes := put_field key value (wr_notes w)\<rparr>))"

definition Note :: "string \<Rightarrow> string \<Rightarrow> Writer \<Rightarrow> (emit_error + unit) \<times> Writer" where
  "Note key value w =
     (if \<not> keyPattern key then (Inl (BadNoteKey key), w)
      else if key \<in> {''scanned'', ''findings'', ''elapsed''} then (Inl (NoteShadows key), w)
      else if key \<in> set SummaryNoteFields then (Inl (NoteReserved key), w)
      else note_raw key value w)"

definition out_Write :: "string \<Rightarrow> Writer \<Rightarrow> (emit_error + unit) \<times> Writer" where
  "out_Write line w =
     (case wr_write w (wr_out w) line of
        None \<Rightarrow> (Inr (), w\<lparr>wr_out := wr_out w @ line\<rparr>)
      | Some n \<Rightarrow> (Inl WriteFailed, w\<lparr>wr_out := wr_out w @ take n line\<rparr>))"

definition encode_finding :: "Format \<Rightarrow> Finding \<Rightarrow> string" where
  "encode_finding fm f =
     (case fm of FormatJSON \<Rightarrow> encodeJSON (finding_pairs f) | FormatFindings \<Rightarrow> encodeFindings f
      | FormatLogfmt \<Rightarrow> EncodeLogfmt (finding_pairs f))"

text \<open>
  What \<^verbatim>\<open>Emit\<close> does with one finding: it is hidden, folded, malformed, suppressed, or to be
  written (with a mark when an exemption covers it). The branches are those of the method, in
  its order.
\<close>

datatype fate = Hidden | Folded | Malformed emit_error | Suppressed | Written Finding bool

definition emit_fate :: "Writer \<Rightarrow> Finding \<Rightarrow> fate" where
  "emit_fate w f0 =
     (let f1 = wr_sanitize w f0 in
      if (case wr_visible w of None \<Rightarrow> False | Some visible \<Rightarrow> \<not> visible (fg_Namespace f1)) then Hidden
      else
        (let f2 = stamp w f1 in
         if list_ex (\<lambda>fold. fold f2) (wr_folds w) then Folded
         else (case finding_validate f2 of
                 Inl err \<Rightarrow> Malformed err
               | Inr _ \<Rightarrow>
                   (let (enabled, f3) =
                          (case wr_policy w of
                             None \<Rightarrow> (True, f2)
                           | Some p \<Rightarrow>
                               if isPolicyMetaKind (fg_Kind f2) then (True, f2)
                               else (let (en, sev) = wp_Decide p (fg_Kind f2) (fg_Reason f2) (fg_Severity f2) in
                                     (en, if sev = [] then f2 else f2\<lparr>fg_Severity := sev\<rparr>)))
                    in if \<not> enabled then Suppressed
                       else (case (case wr_exempt w of
                                     None \<Rightarrow> None | Some ex \<Rightarrow> ex (fg_Kind f3) (fg_Namespace f3) (fg_Name f3)) of
                               None \<Rightarrow> Written f3 False
                             | Some (reason, expires) \<Rightarrow>
                                 Written (f3\<lparr>fg_ExemptReason := reason, fg_ExemptExpires := expires\<rparr>) True)))))"

definition Emit :: "Finding \<Rightarrow> Writer \<Rightarrow> (emit_error + unit) \<times> Writer" where
  "Emit f w =
     (case emit_fate w f of
        Hidden \<Rightarrow> (Inr (), w\<lparr>wr_hidden := wr_hidden w + 1\<rparr>)
      | Folded \<Rightarrow> (Inr (), w)
      | Malformed err \<Rightarrow> (Inl err, w)
      | Suppressed \<Rightarrow> (Inr (), w\<lparr>wr_suppressed := wr_suppressed w + 1\<rparr>)
      | Written f' ex \<Rightarrow>
          (case out_Write (encode_finding (wr_format w) f') w of
             (Inl err, w') \<Rightarrow> (Inl err, w')
           | (Inr _, w') \<Rightarrow>
               (Inr (), w'\<lparr>wr_findings := wr_findings w' + 1,
                           wr_exempted := wr_exempted w' + (if ex then 1 else 0),
                           wr_watched := wr_watched w' @ [f']\<rparr>)))"

definition summary_pairs :: "int \<Rightarrow> duration \<Rightarrow> Writer \<Rightarrow> Field list" where
  "summary_pairs scanned elapsed w =
     [\<lparr>fd_Key = ''scanned'', fd_Value = strconv_Itoa scanned\<rparr>,
      \<lparr>fd_Key = ''findings'', fd_Value = strconv_Itoa (wr_findings w)\<rparr>,
      \<lparr>fd_Key = ''elapsed'', fd_Value = Duration_String elapsed\<rparr>]
     @ wr_notes w
     @ (case wr_policy w of
          None \<Rightarrow> []
        | Some p \<Rightarrow> (if wp_Name p = [] then [] else [\<lparr>fd_Key = ''policy'', fd_Value = wp_Name p\<rparr>])
                    @ [\<lparr>fd_Key = ''suppressed'', fd_Value = strconv_Itoa (wr_suppressed w)\<rparr>])
     @ (if Option.is_none (wr_exempt w) then [] else [\<lparr>fd_Key = ''exempt'', fd_Value = strconv_Itoa (wr_exempted w)\<rparr>])
     @ (if Option.is_none (wr_visible w) then [] else [\<lparr>fd_Key = ''hidden'', fd_Value = strconv_Itoa (wr_hidden w)\<rparr>])"

definition Summary :: "int \<Rightarrow> duration \<Rightarrow> Writer \<Rightarrow> (emit_error + unit) \<times> Writer" where
  "Summary scanned elapsed w =
     (let pairs = summary_pairs scanned elapsed w in
      out_Write (case wr_format w of
                   FormatJSON \<Rightarrow> encodeJSONSummary pairs scanned (wr_findings w)
                 | FormatFindings \<Rightarrow> encodeFindingsSummary pairs
                 | FormatLogfmt \<Rightarrow> EncodeLogfmt pairs) w)"

end
