(* ===== verification/Json.thy ===== *)
theory Json
  imports Emit
begin

section \<open>Reading a JSON record\<close>

text \<open>
  What \<^verbatim>\<open>parseJSONRecord\<close> (\<^verbatim>\<open>pkg/findings/report.go\<close>) uses of \<^verbatim>\<open>encoding/json\<close>: decoding one object into
  \<^verbatim>\<open>map[string]json.RawMessage\<close> and a raw value into a string. The recogniser of a nested value
  is fuelled; every call consumes a byte, so the length of the text is enough fuel. The last
  part shows that what the writer's JSON encoder produces reads back.
\<close>

subsection \<open>Strings\<close>

definition is_surrogate :: "nat \<Rightarrow> bool" where
  "is_surrogate r = (55296 \<le> r \<and> r < 57344)"

text \<open>U+FFFD, which stands in for an unpaired surrogate.\<close>

definition replacement :: string where
  "replacement = [CHR 0xEF, CHR 0xBF, CHR 0xBD]"

definition encode_rune :: "nat \<Rightarrow> string" where
  "encode_rune r = (case utf8_encode r of Some bs \<Rightarrow> bs | None \<Rightarrow> replacement)"

text \<open>The bytes of \<^verbatim>\<open>\\uXXXX\<close>, with the second half of a surrogate pair when one follows.\<close>

definition json_unicode :: "string \<Rightarrow> (string \<times> string) option" where
  "json_unicode s =
     (case take_digits 4 16 unhex s of
        None \<Rightarrow> None
      | Some (v, t) \<Rightarrow>
          if \<not> is_surrogate v then Some (encode_rune v, t)
          else
            (case (if prefix [bsl, CHR ''u''] t then take_digits 4 16 unhex (drop 2 t) else None) of
               Some (v2, t2) \<Rightarrow>
                 if v < 56320 \<and> 56320 \<le> v2 \<and> v2 < 57344
                 then Some (encode_rune ((v - 55296) * 1024 + (v2 - 56320) + 65536), t2)
                 else Some (replacement, t)
             | None \<Rightarrow> Some (replacement, t)))"

definition json_unescape :: "string \<Rightarrow> (string \<times> string) option" where
  "json_unescape s =
     (case s of
        [] \<Rightarrow> None
      | e # r \<Rightarrow>
          if e = dq \<or> e = bsl \<or> e = CHR ''/'' then Some ([e], r)
          else if e = CHR ''b'' then Some ([CHR 0x08], r) else if e = CHR ''f'' then Some ([CHR 0x0C], r)
          else if e = CHR ''n'' then Some ([CHR 0x0A], r) else if e = CHR ''r'' then Some ([CHR 0x0D], r)
          else if e = CHR ''t'' then Some ([CHR 0x09], r)
          else if e = CHR ''u'' then json_unicode r
          else None)"

lemma take_digits_shrinks: "take_digits k b d s = Some (v, t) \<Longrightarrow> length t \<le> length s"
  by (auto simp: take_digits_def split: if_splits)

lemma json_unicode_shrinks: "json_unicode s = Some (v, t) \<Longrightarrow> length t \<le> length s"
  by (auto simp: json_unicode_def split: option.splits if_splits dest!: take_digits_shrinks)

lemma json_unescape_shrinks: "json_unescape s = Some (v, t) \<Longrightarrow> length t < length s"
  by (auto simp: json_unescape_def split: list.splits if_splits dest!: json_unicode_shrinks)

text \<open>The body of a string after its opening quote: the decoded bytes and what follows.\<close>

function json_str :: "string \<Rightarrow> (string \<times> string) option" where
  "json_str [] = None"
| "json_str (c # cs) =
     (if c = dq then Some ([], cs)
      else if (of_char c :: nat) < 32 then None
      else if c \<noteq> bsl then map_option (\<lambda>(v, t). (c # v, t)) (json_str cs)
      else (case json_unescape cs of
              None \<Rightarrow> None
            | Some (bs, r) \<Rightarrow> map_option (\<lambda>(v, t). (bs @ v, t)) (json_str r)))"
  by pat_completeness auto
termination
  by (relation "measure length") (auto dest: json_unescape_shrinks)

subsection \<open>Values\<close>

definition json_space :: "char \<Rightarrow> bool" where
  "json_space c = (c = CHR '' '' \<or> c = CHR 0x09 \<or> c = CHR 0x0A \<or> c = CHR 0x0D)"

abbreviation skip_ws :: "string \<Rightarrow> string" where
  "skip_ws \<equiv> dropWhile json_space"

definition digit_byte :: "char \<Rightarrow> bool" where
  "digit_byte c = (let n = (of_char c :: nat) in 48 \<le> n \<and> n \<le> 57)"

text \<open>One or more digits; then a number: sign, integer part without a leading zero, fraction, exponent.\<close>

definition some_digits :: "string \<Rightarrow> string option" where
  "some_digits s = (if s \<noteq> [] \<and> digit_byte (hd s) then Some (dropWhile digit_byte s) else None)"

definition json_number :: "string \<Rightarrow> string option" where
  "json_number s =
     (let s1 = (if prefix ''-'' s then tl s else s) in
      case (if prefix ''0'' s1 then Some (tl s1) else some_digits s1) of
        None \<Rightarrow> None
      | Some s2 \<Rightarrow>
          (case (if prefix ''.'' s2 then some_digits (tl s2) else Some s2) of
             None \<Rightarrow> None
           | Some s3 \<Rightarrow>
               if prefix ''e'' s3 \<or> prefix ''E'' s3
               then (let s4 = tl s3 in some_digits (if prefix ''+'' s4 \<or> prefix ''-'' s4 then tl s4 else s4))
               else Some s3))"

text \<open>
  \<open>json_skip n s\<close> is what follows the value at the head of \<open>s\<close>; \<open>json_items\<close> and \<open>json_members\<close>
  are the rest of an array and of an object, after the first bracket or a comma.
\<close>

fun json_skip :: "nat \<Rightarrow> string \<Rightarrow> string option"
and json_items :: "nat \<Rightarrow> string \<Rightarrow> string option"
and json_members :: "nat \<Rightarrow> string \<Rightarrow> string option" where
  "json_skip 0 s = None"
| "json_skip (Suc n) s =
     (case s of
        [] \<Rightarrow> None
      | c # r \<Rightarrow>
          if c = dq then map_option snd (json_str r)
          else if prefix ''true'' s then Some (drop 4 s)
          else if prefix ''false'' s then Some (drop 5 s)
          else if prefix ''null'' s then Some (drop 4 s)
          else if c = CHR ''['' then (if prefix '']'' (skip_ws r) then Some (tl (skip_ws r)) else json_items n r)
          else if c = CHR ''{'' then (if prefix ''}'' (skip_ws r) then Some (tl (skip_ws r)) else json_members n r)
          else json_number s)"
| "json_items 0 s = None"
| "json_items (Suc n) s =
     (case json_skip n (skip_ws s) of
        None \<Rightarrow> None
      | Some t \<Rightarrow>
          (case skip_ws t of
             [] \<Rightarrow> None
           | c # r \<Rightarrow> if c = CHR '','' then json_items n r else if c = CHR '']'' then Some r else None))"
| "json_members 0 s = None"
| "json_members (Suc n) s =
     (case skip_ws s of
        [] \<Rightarrow> None
      | q # k \<Rightarrow>
          if q \<noteq> dq then None
          else (case json_str k of
                  None \<Rightarrow> None
                | Some (_, t) \<Rightarrow>
                    (case skip_ws t of
                       [] \<Rightarrow> None
                     | c # r \<Rightarrow>
                         if c \<noteq> CHR '':'' then None
                         else (case json_skip n (skip_ws r) of
                                 None \<Rightarrow> None
                               | Some t2 \<Rightarrow>
                                   (case skip_ws t2 of
                                      [] \<Rightarrow> None
                                    | c2 # r2 \<Rightarrow>
                                        if c2 = CHR '','' then json_members n r2
                                        else if c2 = CHR ''}'' then Some r2 else None)))))"

declare json_skip.simps [simp del]

subsection \<open>A flat record\<close>

text \<open>
  The members of the outermost object as raw values, and what follows it. \<open>raw_text\<close> is the
  text between two positions of the input.
\<close>

definition raw_text :: "string \<Rightarrow> string \<Rightarrow> string" where
  "raw_text s t = take (length s - length t) s"

fun json_object :: "nat \<Rightarrow> string \<Rightarrow> ((string \<times> string) list \<times> string) option" where
  "json_object 0 s = None"
| "json_object (Suc n) s =
     (case skip_ws s of
        [] \<Rightarrow> None
      | q # k \<Rightarrow>
          if q \<noteq> dq then None
          else (case json_str k of
                  None \<Rightarrow> None
                | Some (key, t) \<Rightarrow>
                    (case skip_ws t of
                       [] \<Rightarrow> None
                     | c # r \<Rightarrow>
                         if c \<noteq> CHR '':'' then None
                         else (let v = skip_ws r in
                               case json_skip (Suc (length v)) v of
                                 None \<Rightarrow> None
                               | Some t2 \<Rightarrow>
                                   (case skip_ws t2 of
                                      [] \<Rightarrow> None
                                    | c2 # r2 \<Rightarrow>
                                        if c2 = CHR '',''
                                        then map_option (\<lambda>(ms, rest). ((key, raw_text v t2) # ms, rest)) (json_object n r2)
                                        else if c2 = CHR ''}'' then Some ([(key, raw_text v t2)], r2) else None)))))"

text \<open>\<^verbatim>\<open>json.Unmarshal(text, &raw)\<close> for a text that starts with a brace: the members in order.\<close>

definition json_Unmarshal_map :: "string \<Rightarrow> (string \<times> string) list option" where
  "json_Unmarshal_map text =
     (let s = tl (skip_ws text);
          found = (if prefix ''}'' (skip_ws s) then Some ([], tl (skip_ws s)) else json_object (length s) s)
      in case found of
           None \<Rightarrow> None
         | Some (ms, rest) \<Rightarrow> if skip_ws rest = [] then Some ms else None)"

text \<open>\<^verbatim>\<open>json.Unmarshal(v, &s)\<close> for a raw value: a string decodes, \<^verbatim>\<open>null\<close> leaves the empty string.\<close>

definition json_Unmarshal_string :: "string \<Rightarrow> string option" where
  "json_Unmarshal_string v =
     (if v = ''null'' then Some []
      else if prefix [dq] v then map_option fst (json_str (tl v))
      else None)"

definition parseJSONRecord :: "string \<Rightarrow> (string \<times> string) list option" where
  "parseJSONRecord text =
     map_option
       (foldl (\<lambda>out (k, v). gput k (case json_Unmarshal_string v of Some s \<Rightarrow> s | None \<Rightarrow> v) out) [])
       (json_Unmarshal_map text)"

subsection \<open>What is encoded reads back\<close>

lemma json_str_plain:
  "c \<noteq> dq \<Longrightarrow> c \<noteq> bsl \<Longrightarrow> \<not> (of_char c :: nat) < 32 \<Longrightarrow> json_str (c # t) = map_option (\<lambda>(v, r). (c # v, r)) (json_str t)"
  by simp

lemma json_str_escape:
  "json_unescape t = Some (bs, r) \<Longrightarrow> json_str (bsl # t) = map_option (\<lambda>(v, t). (bs @ v, t)) (json_str r)"
  by (simp add: bsl_def dq_def)

lemma json_unescape_short:
  "json_unescape (CHR ''b'' # t) = Some ([CHR 0x08], t)" "json_unescape (CHR ''f'' # t) = Some ([CHR 0x0C], t)"
  "json_unescape (CHR ''n'' # t) = Some ([CHR 0x0A], t)" "json_unescape (CHR ''r'' # t) = Some ([CHR 0x0D], t)"
  "json_unescape (CHR ''t'' # t) = Some ([CHR 0x09], t)"
  "json_unescape (dq # t) = Some ([dq], t)" "json_unescape (bsl # t) = Some ([bsl], t)"
  "json_unescape (CHR ''u'' # t) = json_unicode t"
  by (simp_all add: json_unescape_def dq_def bsl_def)

lemma take_hex_word:
  assumes "a < 16" "b < 16" "c < 16" "d < 16"
  shows "take_digits 4 16 unhex (hexd a # hexd b # hexd c # hexd d # t) = Some (((a * 16 + b) * 16 + c) * 16 + d, t)"
  using assms by (simp add: take_digits_def unhex_hexd)

lemma json_unicode_ascii:
  assumes "n < 128" shows "json_unicode (CHR ''0'' # CHR ''0'' # hexd (n div 16) # hexd (n mod 16) # t) = Some ([char_of n], t)"
proof -
  have "CHR ''0'' = hexd 0" by code_simp
  then show ?thesis
    using assms take_hex_word[of 0 0 "n div 16" "n mod 16" t]
    by (simp add: json_unicode_def is_surrogate_def encode_rune_def utf8_encode_def)
qed

lemma json_unicode_separator:
  "json_unicode (''2028'' @ t) = Some ([CHR 0xE2, CHR 0x80, CHR 0xA8], t)"
  "json_unicode (''2029'' @ t) = Some ([CHR 0xE2, CHR 0x80, CHR 0xA9], t)"
proof -
  have h: "CHR ''0'' = hexd 0" "CHR ''2'' = hexd 2" "CHR ''8'' = hexd 8" "CHR ''9'' = hexd 9" by code_simp+
  have c: "char_of (226 :: nat) = CHR 0xE2" "char_of (128 :: nat) = CHR 0x80" "char_of (168 :: nat) = CHR 0xA8"
    "char_of (169 :: nat) = CHR 0xA9" by code_simp+
  have e: "encode_rune 8232 = [CHR 0xE2, CHR 0x80, CHR 0xA8]" "encode_rune 8233 = [CHR 0xE2, CHR 0x80, CHR 0xA9]"
    by (simp_all add: encode_rune_def utf8_encode_def c)
  show "json_unicode (''2028'' @ t) = Some ([CHR 0xE2, CHR 0x80, CHR 0xA8], t)"
    "json_unicode (''2029'' @ t) = Some ([CHR 0xE2, CHR 0x80, CHR 0xA9], t)"
    using take_hex_word[of 2 0 2 8 t] take_hex_word[of 2 0 2 9 t] unfolding h
    by (simp_all add: json_unicode_def is_surrogate_def e h)
qed

lemma json_str_char: "json_str (json_char c @ t) = map_option (\<lambda>(v, r). (c # v, r)) (json_str t)"
proof -
  let ?n = "of_char c :: nat"
  have c: "c = char_of ?n" by simp
  have esc: "json_str (bsl # e # t') = map_option (\<lambda>(v, r). (x # v, r)) (json_str t)"
    if "json_unescape (e # t') = Some ([x], t)" for e x t' using json_str_escape[OF that] by simp
  have eq: "?n = k \<Longrightarrow> c = char_of k" for k using c by simp
  consider (special) "c = dq \<or> c = bsl \<or> ?n \<in> {8, 9, 10, 12, 13}" |
    (hex) "c \<noteq> dq" "c \<noteq> bsl" "?n \<notin> {8, 9, 10, 12, 13}" "?n < 32 \<or> c = CHR ''<'' \<or> c = CHR ''>'' \<or> c = CHR ''&''" |
    (plain) "c \<noteq> dq" "c \<noteq> bsl" "\<not> (?n < 32 \<or> c = CHR ''<'' \<or> c = CHR ''>'' \<or> c = CHR ''&'')" by blast
  then show ?thesis
  proof cases
    case hex
    then have lt: "?n < 128" by auto
    have "json_char c = [bsl, CHR ''u'', CHR ''0'', CHR ''0'', hexd (?n div 16), hexd (?n mod 16)]"
      using hex by (simp add: json_char_def Let_def)
    moreover have "json_unescape (CHR ''u'' # CHR ''0'' # CHR ''0'' # hexd (?n div 16) # hexd (?n mod 16) # t) = Some ([c], t)"
      using json_unicode_ascii[OF lt, of t] by (simp add: json_unescape_short)
    ultimately show ?thesis using esc by simp
  next
    case plain
    then have "json_char c = [c]" by (auto simp: json_char_def Let_def)
    with plain show ?thesis using json_str_plain by simp
  next
    case special
    then show ?thesis
    proof (elim disjE)
      assume n: "?n \<in> {8, 9, 10, 12, 13}"
      then have "c \<noteq> dq" "c \<noteq> bsl" by (auto simp: dq_def bsl_def)
      with n show ?thesis
        by (auto simp: json_char_def Let_def json_unescape_short control_chars simp del: json_str.simps intro!: esc dest!: eq)
    qed (auto simp: json_char_def json_unescape_short simp del: json_str.simps intro!: esc)
  qed
qed

lemma json_str_chars: "json_str (concat (map json_char s) @ dq # t) = Some (s, t)"
  by (induction s) (simp_all add: json_str_char)

lemma json_str_body: "json_str (json_body s @ dq # t) = Some (s, t)"
proof (induction s rule: json_body.induct)
  case (1 a b c s)
  show ?case
  proof (cases "a = CHR 0xE2 \<and> b = CHR 0x80 \<and> (c = CHR 0xA8 \<or> c = CHR 0xA9)")
    case True
    then show ?thesis
      using 1(1) json_str_escape[of "CHR ''u'' # ''2028'' @ json_body s @ dq # t"]
        json_str_escape[of "CHR ''u'' # ''2029'' @ json_body s @ dq # t"]
        json_unicode_separator[of "json_body s @ dq # t"]
      by (auto simp: json_unescape_short simp del: json_str.simps)
  next
    case False
    have "json_body (a # b # c # s) = json_char a @ json_body (b # c # s)"
      by (simp only: json_body.simps if_not_P[OF False])
    then show ?thesis using 1(2)[OF False] by (simp add: json_str_char del: json_str.simps json_body.simps)
  qed
qed (simp_all only: json_body.simps json_str_chars)

lemma json_Unmarshal_json_string: "json_Unmarshal_string (json_string s) = Some s"
  using json_str_body[of s "[]"] by (simp add: json_Unmarshal_string_def json_string_def dq_def)


subsubsection \<open>Flat objects\<close>

definition json_member :: "string \<times> string \<Rightarrow> string" where
  "json_member m = dq # fst m @ dq # CHR '':'' # snd m"

text \<open>A raw value the object reader takes whole, wherever a member may end.\<close>

definition raw_value :: "string \<Rightarrow> bool" where
  "raw_value v \<longleftrightarrow>
     v \<noteq> [] \<and> \<not> json_space (hd v)
     \<and> (\<forall>t. t \<noteq> [] \<and> hd t \<in> {CHR '','', CHR ''}''} \<longrightarrow> json_skip (Suc (length (v @ t))) (v @ t) = Some t)"

lemma raw_value_string: "raw_value (json_string s)"
  by (simp add: raw_value_def json_string_def json_skip.simps json_str_body) (simp add: json_space_def dq_def)

lemma key_char_plain: "key_char c \<Longrightarrow> c \<noteq> dq \<and> c \<noteq> bsl \<and> \<not> (of_char c :: nat) < 32"
  by (auto simp: key_char_def lower_letter_def Let_def dq_def bsl_def)

lemma key_chars: "keyPattern k \<Longrightarrow> list_all key_char k"
  by (cases k) (auto simp: keyPattern_def key_char_def)

lemma json_str_key: "list_all key_char k \<Longrightarrow> json_str (k @ dq # t) = Some (k, t)"
proof (induction k)
  case (Cons c k)
  then show ?case using key_char_plain[of c] by simp
qed simp

lemma json_object_step:
  assumes "keyPattern k" "raw_value v" "c \<in> {CHR '','', CHR ''}''}"
  shows "json_object (Suc n) (json_member (k, v) @ c # r) =
           (if c = CHR '','' then map_option (\<lambda>(ms, rest). ((k, v) # ms, rest)) (json_object n r)
            else Some ([(k, v)], r))"
proof -
  have ws: "\<not> json_space dq" "\<not> json_space CHR '':''" "\<not> json_space c"
    using assms(3) by (auto simp: json_space_def dq_def)
  have v: "v \<noteq> []" "\<not> json_space (hd v)" using assms(2) by (simp_all add: raw_value_def)
  have "c # r \<noteq> [] \<and> hd (c # r) \<in> {CHR '','', CHR ''}''}" using assms(3) by simp
  then have sk: "json_skip (Suc (length (v @ c # r))) (v @ c # r) = Some (c # r)"
    using assms(2) unfolding raw_value_def by blast
  have wv: "skip_ws (v @ t) = v @ t" for t using v by (cases v) auto
  have raw: "raw_text (v @ t) t = v" for t by (simp add: raw_text_def)
  have "json_object (Suc n) (json_member (k, v) @ c # r) =
          (if c = CHR '','' then map_option (\<lambda>(ms, rest). ((k, v) # ms, rest)) (json_object n r)
           else if c = CHR ''}'' then Some ([(k, v)], r) else None)"
    using ws json_str_key[OF key_chars[OF assms(1)], of "CHR '':'' # v @ c # r"]
    by (simp add: json_member_def wv sk[simplified] raw Let_def del: json_str.simps)
  then show ?thesis using assms(3) by auto
qed

lemma json_object_members:
  "ms \<noteq> [] \<Longrightarrow> list_all (\<lambda>m. keyPattern (fst m) \<and> raw_value (snd m)) ms \<Longrightarrow> length ms \<le> n \<Longrightarrow>
   json_object n (strings_Join (map json_member ms) '','' @ CHR ''}'' # rest) = Some (ms, rest)"
proof (induction ms arbitrary: n)
  case (Cons m ms)
  then obtain n' where n: "n = Suc n'" by (cases n) auto
  obtain k v where m: "m = (k, v)" by fastforce
  show ?case
  proof (cases "ms = []")
    case True
    then show ?thesis using Cons.prems json_object_step[of k v "CHR ''}''" n' rest] by (simp add: n m)
  next
    case False
    then have "json_object n' (strings_Join (map json_member ms) '','' @ CHR ''}'' # rest) = Some (ms, rest)"
      using Cons n by simp
    then show ?thesis
      using False Cons.prems json_object_step[of k v "CHR '',''" n' "strings_Join (map json_member ms) '','' @ CHR ''}'' # rest"]
      by (simp add: n m strings_Join_Cons del: json_object.simps)
  qed
qed simp


lemma parse_members:
  assumes "list_all (\<lambda>m. keyPattern (fst m) \<and> raw_value (snd m)) ms"
  shows "parseJSONRecord (''{'' @ strings_Join (map json_member ms) '','' @ ''}'') =
           Some (foldl (\<lambda>out (k, v). gput k (case json_Unmarshal_string v of Some s \<Rightarrow> s | None \<Rightarrow> v) out) [] ms)"
proof -
  let ?s = "strings_Join (map json_member ms) '','' @ ''}''"
  have len: "length xs \<le> length (strings_Join xs '','' @ ''}'')" if "list_all (\<lambda>x. x \<noteq> []) xs" for xs :: "string list"
    using that by (induction xs) (auto simp: strings_Join_Cons Suc_le_eq)
  have "json_Unmarshal_map (''{'' @ ?s) = Some ms"
  proof (cases "ms = []")
    case True
    then show ?thesis by (simp add: json_Unmarshal_map_def json_space_def)
  next
    case False
    then obtain m ms' where ms: "ms = m # ms'" by (cases ms) auto
    have "list_all (\<lambda>x. x \<noteq> []) (map json_member ms)" by (simp add: list_all_iff json_member_def)
    then have "length ms \<le> length ?s" using len[of "map json_member ms"] by simp
    then have "json_object (length ?s) ?s = Some (ms, [])"
      using json_object_members[OF False assms, of "length ?s" "[]"] by simp
    moreover have "hd ?s = dq" "?s \<noteq> []" by (simp_all add: ms strings_Join_Cons json_member_def)
    then have "skip_ws ?s = ?s" "\<not> prefix ''}'' ?s"
      by (cases ?s; simp add: json_space_def dq_def)+
    ultimately show ?thesis by (simp add: json_Unmarshal_map_def json_space_def)
  qed
  then show ?thesis by (simp add: parseJSONRecord_def)
qed

lemma parse_encodeJSON:
  assumes "encodable ps"
  shows "parseJSONRecord (butlast (encodeJSON ps)) = Some (fields_map ps [])"
proof -
  let ?ms = "map (\<lambda>p. (fd_Key p, json_string (fd_Value p))) ps"
  have "butlast (encodeJSON ps) = ''{'' @ strings_Join (map json_member ?ms) '','' @ ''}''"
    by (simp add: encodeJSON_def butlast_append json_member_def comp_def)
  moreover have "list_all (\<lambda>m. keyPattern (fst m) \<and> raw_value (snd m)) ?ms"
    using assms by (simp add: encodable_def list_all_iff raw_value_string)
  then have "parseJSONRecord (''{'' @ strings_Join (map json_member ?ms) '','' @ ''}'') = Some (fields_map ps [])"
    by (simp only: parse_members foldl_map) (simp add: json_Unmarshal_json_string fields_map_def)
  ultimately show ?thesis by (simp only:)
qed


subsubsection \<open>Numbers and the summary\<close>

lemma digit_char: "n < 10 \<Longrightarrow> digit_byte (char_of (48 + n :: nat)) \<and> (of_char (char_of (48 + n :: nat)) :: nat) = 48 + n"
  by (simp add: digit_byte_def of_char_of)

lemma decimal_digits: "list_all digit_byte (decimal n) \<and> decimal n \<noteq> []"
proof (induction n rule: decimal.induct)
  case (1 n)
  show ?case
  proof (cases "n < 10")
    case True
    then show ?thesis using digit_char[of n] by (simp add: decimal.simps[of n])
  next
    case False
    then show ?thesis using 1 digit_char[of "n mod 10"] by (simp add: decimal.simps[of n])
  qed
qed

lemma decimal_head: "0 < n \<Longrightarrow> hd (decimal n) \<noteq> CHR ''0''"
proof (induction n rule: decimal.induct)
  case (1 n)
  show ?case
  proof (cases "n < 10")
    case True
    have "char_of (48 + n :: nat) \<noteq> CHR ''0''"
    proof
      assume "char_of (48 + n :: nat) = CHR ''0''"
      then have "(of_char (char_of (48 + n :: nat)) :: nat) = of_char CHR ''0''" by (simp only:)
      then show False using digit_char[OF True] 1(2) by simp
    qed
    with True show ?thesis by (simp add: decimal.simps[of n])
  next
    case False
    then show ?thesis using 1 decimal_digits[of "n div 10"] by (simp add: decimal.simps[of n])
  qed
qed

lemma digits_end:
  assumes "list_all digit_byte ds" "ds \<noteq> []" "t = [] \<or> \<not> digit_byte (hd t)"
  shows "some_digits (ds @ t) = Some t"
proof -
  have "dropWhile digit_byte (ds @ t) = t"
    using assms(1,3) by (cases t) (auto simp: list_all_iff dropWhile_append2)
  then show ?thesis using assms(1,2) by (cases ds) (auto simp: some_digits_def)
qed

lemma json_number_decimal:
  assumes "t \<noteq> []" "hd t \<in> {CHR '','', CHR ''}''}"
  shows "json_number (strconv_Itoa n @ t) = Some t"
proof -
  have t: "\<not> digit_byte (hd t)" "\<not> prefix ''.'' t" "\<not> prefix ''e'' t" "\<not> prefix ''E'' t"
    using assms by (cases t; auto simp: digit_byte_def)+
  have d: "(if prefix ''0'' (decimal m @ t) then Some (tl (decimal m @ t)) else some_digits (decimal m @ t)) = Some t" for m
  proof (cases "m = 0")
    case True
    have "decimal 0 = ''0''" by (simp add: decimal.simps[of 0]) code_simp
    with True show ?thesis by simp
  next
    case False
    then have "\<not> prefix ''0'' (decimal m @ t)" using decimal_head[of m] decimal_digits[of m] by (cases "decimal m") auto
    then show ?thesis using digits_end[of "decimal m" t] decimal_digits[of m] t by simp
  qed
  have m: "\<not> prefix ''-'' (decimal m @ t)" for m
    using decimal_digits[of m] by (cases "decimal m") (auto simp: digit_byte_def)
  have s1: "(if prefix ''-'' (strconv_Itoa n @ t) then tl (strconv_Itoa n @ t) else strconv_Itoa n @ t) = decimal (nat \<bar>n\<bar>) @ t"
    using m[of "nat n"] by (simp add: strconv_Itoa_def)
  show ?thesis unfolding json_number_def Let_def s1 d using t by simp
qed

lemma Itoa_head: "strconv_Itoa n \<noteq> []" "hd (strconv_Itoa n) = CHR ''-'' \<or> digit_byte (hd (strconv_Itoa n))"
  using decimal_digits[of "nat n"] by (cases "decimal (nat n)"; auto simp: strconv_Itoa_def)+

lemma Itoa_raw: "raw_value (strconv_Itoa n)" "json_Unmarshal_string (strconv_Itoa n) = None"
proof -
  obtain c r where c: "strconv_Itoa n = c # r" "c = CHR ''-'' \<or> digit_byte c"
    using Itoa_head[of n] by (cases "strconv_Itoa n") auto
  have ne: "c \<noteq> dq" "c \<noteq> CHR ''t''" "c \<noteq> CHR ''f''" "c \<noteq> CHR ''n''" "c \<noteq> CHR ''[''" "c \<noteq> CHR ''{''" "\<not> json_space c"
    using c(2) by (auto simp: digit_byte_def dq_def json_space_def)
  show "json_Unmarshal_string (strconv_Itoa n) = None" using ne by (simp add: json_Unmarshal_string_def c(1))
  have "json_skip (Suc m) (strconv_Itoa n @ t) = json_number (strconv_Itoa n @ t)" for m t
    using ne by (simp add: json_skip.simps c(1))
  moreover have "strconv_Itoa n \<noteq> []" "\<not> json_space (hd (strconv_Itoa n))" using ne(7) by (simp_all add: c(1))
  ultimately show "raw_value (strconv_Itoa n)" using json_number_decimal unfolding raw_value_def by simp
qed

lemma quote_key: "list_all key_char k \<Longrightarrow> strconv_Quote k = dq # k @ [dq]"
proof -
  assume k: "list_all key_char k"
  have "quote_char c = [c]" if "key_char c" for c
    using that key_char_plain[OF that] by (auto simp: quote_char_def Let_def key_char_def lower_letter_def)
  then have "concat (map quote_char k) = k" using k by (induction k) auto
  then show ?thesis by (simp add: strconv_Quote_def)
qed

definition summary_members :: "Field list \<Rightarrow> int \<Rightarrow> int \<Rightarrow> (string \<times> string) list" where
  "summary_members ps scanned n =
     (''scanned'', strconv_Itoa scanned) # (''findings'', strconv_Itoa n)
     # map (\<lambda>p. (fd_Key p, json_string (fd_Value p))) (drop 2 ps)"

lemma summary_keys: "keyPattern ''scanned''" "keyPattern ''findings''" "keyPattern ''elapsed''"
  by code_simp+

lemma encodeJSONSummary_members:
  assumes "encodable ps"
  shows "butlast (encodeJSONSummary ps scanned n) = ''{'' @ strings_Join (map json_member (summary_members ps scanned n)) '','' @ ''}''"
proof -
  have sep: "list_all (\<lambda>p. keyPattern (fd_Key p)) qs \<Longrightarrow>
      concat (map (\<lambda>p. '','' @ strconv_Quote (fd_Key p) @ '':'' @ json_string (fd_Value p)) qs) @ s =
        (if qs = [] then [] else '','' @ strings_Join (map json_member (map (\<lambda>p. (fd_Key p, json_string (fd_Value p))) qs)) '','') @ s" for qs s
    by (induction qs) (auto simp: strings_Join_Cons json_member_def quote_key key_chars)
  have "list_all (\<lambda>p. keyPattern (fd_Key p)) (drop 2 ps)"
    using assms by (auto simp: encodable_def list_all_iff dest: in_set_dropD)
  then show ?thesis
    using sep[of "drop 2 ps" "''}''"] quote_key[OF key_chars[OF summary_keys(1)]] quote_key[OF key_chars[OF summary_keys(2)]]
    by (auto simp: encodeJSONSummary_def butlast_append summary_members_def json_member_def strings_Join_Cons)
qed

lemma parse_encodeJSONSummary:
  assumes "encodable ps"
  shows "parseJSONRecord (butlast (encodeJSONSummary ps scanned n)) =
           Some (fields_map (\<lparr>fd_Key = ''scanned'', fd_Value = strconv_Itoa scanned\<rparr>
                             # \<lparr>fd_Key = ''findings'', fd_Value = strconv_Itoa n\<rparr> # drop 2 ps) [])"
proof -
  have "list_all (\<lambda>m. keyPattern (fst m) \<and> raw_value (snd m)) (summary_members ps scanned n)"
    using assms summary_keys
    by (auto simp: summary_members_def list_all_iff encodable_def raw_value_string Itoa_raw dest: in_set_dropD)
  then have "parseJSONRecord (''{'' @ strings_Join (map json_member (summary_members ps scanned n)) '','' @ ''}'')
      = Some (fields_map (\<lparr>fd_Key = ''scanned'', fd_Value = strconv_Itoa scanned\<rparr>
                             # \<lparr>fd_Key = ''findings'', fd_Value = strconv_Itoa n\<rparr> # drop 2 ps) [])"
    by (simp only: parse_members)
       (simp add: foldl_map json_Unmarshal_json_string Itoa_raw fields_map_def summary_members_def)
  then show ?thesis by (simp only: encodeJSONSummary_members[OF assms])
qed

end
