(* ===== verification/FindingsDiff.thy ===== *)
theory FindingsDiff
  imports Json Signal "HOL-Library.Char_ord" "HOL-Library.List_Lexorder" "HOL-Library.Product_Lexorder"
begin

section \<open>Run-to-run transitions\<close>

text \<open>
  \<^verbatim>\<open>pkg/findings\<close>: a report is read back into observations (\<^verbatim>\<open>report.go\<close>), each observation is keyed by
  its subject (\<^verbatim>\<open>subject.go\<close>, \<^verbatim>\<open>normalize.go\<close>), and two consecutive runs are compared (\<^verbatim>\<open>diff.go\<close>). The
  reader is given as the whole text it delivers. \<open>subject_step\<close> is what the comparison promises
  for one subject; \<open>Diff_subject\<close> shows that \<open>Diff\<close> is that machine run on every subject at once.
\<close>

subsection \<open>Subjects\<close>

definition generatedAlphabet :: string where
  "generatedAlphabet = ''bcdfghjklmnpqrstvwxz2456789''"

definition minGeneratedLen :: nat where "minGeneratedLen = 5"
definition maxGeneratedLen :: nat where "maxGeneratedLen = 10"
definition maxGeneratedSuffixes :: nat where "maxGeneratedSuffixes = 2"

definition isGeneratedSegment :: "string \<Rightarrow> bool" where
  "isGeneratedSegment seg =
     (if length seg < minGeneratedLen \<or> length seg > maxGeneratedLen then False
      else list_all (\<lambda>r. r \<in> set generatedAlphabet) seg)"

text \<open>The loop of \<^verbatim>\<open>NormalizeName\<close>, with the number of suffixes it may still strip.\<close>

fun strip_generated :: "nat \<Rightarrow> string list \<Rightarrow> string list" where
  "strip_generated 0 segs = segs"
| "strip_generated (Suc n) segs =
     (if length segs > 1 \<and> isGeneratedSegment (last segs) then strip_generated n (butlast segs) else segs)"

definition NormalizeName :: "string \<Rightarrow> string" where
  "NormalizeName name =
     (if name = [] then []
      else strings_Join (strip_generated maxGeneratedSuffixes (strings_SplitByte name CHR ''-'')) ''-'')"

definition SubjectKey :: "string \<Rightarrow> string \<Rightarrow> string \<Rightarrow> string \<Rightarrow> string \<Rightarrow> string" where
  "SubjectKey cluster namespace kindOfObject name canonicalReason =
     strings_Join [cluster, namespace, kindOfObject, NormalizeName name, canonicalReason] ''/''"

subsection \<open>Reading a report\<close>

record FindingObservation =
  fo_SubjectKey :: string
  fo_Fingerprint :: string
  fo_Cluster :: string
  fo_Namespace :: string
  fo_KindOfObject :: string
  fo_Name :: string
  fo_Reason :: string
  fo_Severity :: string
  fo_Message :: string

definition ObservationOf :: "Finding \<Rightarrow> string \<Rightarrow> FindingObservation" where
  "ObservationOf f cluster =
     (let reason = CanonicalReason (fg_Reason f) in
      \<lparr>fo_SubjectKey = SubjectKey cluster (fg_Namespace f) (fg_KindOfObject f) (fg_Name f) reason,
       fo_Fingerprint = fg_Fingerprint f, fo_Cluster = cluster, fo_Namespace = fg_Namespace f,
       fo_KindOfObject = fg_KindOfObject f, fo_Name = fg_Name f, fo_Reason = reason,
       fo_Severity = fg_Severity f, fo_Message = fg_Message f\<rparr>)"

definition maxReportLine :: nat where "maxReportLine = 1048576"

text \<open>\<^verbatim>\<open>bufio.ScanLines\<close>: the lines with their number; a final line needs no newline, and one trailing
  carriage return is dropped.\<close>

definition scan_lines :: "string \<Rightarrow> string list" where
  "scan_lines text = (let ls = strings_SplitByte text newline in if last ls = [] then butlast ls else ls)"

definition drop_cr :: "string \<Rightarrow> string" where
  "drop_cr s = (if s \<noteq> [] \<and> last s = CHR 0x0D then butlast s else s)"

text \<open>\<^verbatim>\<open>strconv.Atoi\<close>.\<close>

definition digits_int :: "string \<Rightarrow> int option" where
  "digits_int ds =
     (if ds \<noteq> [] \<and> list_all digit_byte ds then Some (foldl (\<lambda>v c. 10 * v + (of_char c - 48)) 0 ds) else None)"

definition strconv_Atoi :: "string \<Rightarrow> int option" where
  "strconv_Atoi s =
     (let v = (if prefix ''-'' s then map_option uminus (digits_int (tl s))
               else if prefix ''+'' s then digits_int (tl s) else digits_int s)
      in case v of None \<Rightarrow> None | Some n \<Rightarrow> if - (2 ^ 63) \<le> n \<and> n < 2 ^ 63 then Some n else None)"

definition isSummary :: "(string \<times> string) list \<Rightarrow> bool" where
  "isSummary recd = (gget recd ''scanned'' \<noteq> None \<and> gget recd ''findings'' \<noteq> None)"

datatype record_error = MalformedJSON | MalformedLogfmt logfmt_error

definition parseRecord :: "string \<Rightarrow> record_error + (string \<times> string) list" where
  "parseRecord text =
     (if prefix ''{'' text
      then (case parseJSONRecord text of None \<Rightarrow> Inl MalformedJSON | Some recd \<Rightarrow> Inr recd)
      else (case parseLogfmtRecord text [] of Inl err \<Rightarrow> Inl (MalformedLogfmt err) | Inr recd \<Rightarrow> Inr recd))"

datatype report_error =
  BadRecord nat record_error | BadCount nat string | NoKind nat string | AfterSummary nat | ReadTooLong
| NoSummary | CountMismatch int int

record ReportScan =
  rs_out :: "FindingObservation list"
  rs_noSubject :: int
  rs_sawSummary :: bool
  rs_declaredFindings :: int

definition field_of :: "(string \<times> string) list \<Rightarrow> string \<Rightarrow> string" where
  "field_of recd k = (case gget recd k of None \<Rightarrow> [] | Some v \<Rightarrow> v)"

text \<open>The finding a record spells, with the fields the observation reads.\<close>

definition finding_of :: "(string \<times> string) list \<Rightarrow> Finding" where
  "finding_of recd =
     \<lparr>fg_Kind = field_of recd ''kind'', fg_Severity = field_of recd ''severity'',
      fg_Namespace = field_of recd ''namespace'', fg_KindOfObject = field_of recd ''kind_of_object'',
      fg_Name = field_of recd ''name'', fg_Reason = field_of recd ''reason'',
      fg_Message = field_of recd ''message'', fg_Fingerprint = field_of recd ''fingerprint'',
      fg_ExemptReason = [], fg_ExemptExpires = [], fg_Details = []\<rparr>"

definition report_line :: "string \<Rightarrow> nat \<Rightarrow> string \<Rightarrow> ReportScan \<Rightarrow> report_error + ReportScan" where
  "report_line cluster line raw st =
     (if length raw \<ge> maxReportLine then Inl ReadTooLong
      else
        (let text = strings_TrimSpace (drop_cr raw) in
         if text = [] then Inr st
         else (case parseRecord text of
                 Inl err \<Rightarrow> Inl (BadRecord line err)
               | Inr recd \<Rightarrow>
                   if gget recd ''kind'' = None then
                     (if isSummary recd then
                        (case strconv_Atoi (field_of recd ''findings'') of
                           None \<Rightarrow> Inl (BadCount line (field_of recd ''findings''))
                         | Some n \<Rightarrow>
                             if n < 0 then Inl (BadCount line (field_of recd ''findings''))
                             else Inr (st\<lparr>rs_sawSummary := True, rs_declaredFindings := n\<rparr>))
                      else Inl (NoKind line text))
                   else if rs_sawSummary st then Inl (AfterSummary line)
                   else if field_of recd ''kind_of_object'' = [] \<and> field_of recd ''name'' = []
                   then Inr (st\<lparr>rs_noSubject := rs_noSubject st + 1\<rparr>)
                   else Inr (st\<lparr>rs_out := rs_out st @ [ObservationOf (finding_of recd) cluster]\<rparr>))))"

fun report_lines :: "string \<Rightarrow> nat \<Rightarrow> string list \<Rightarrow> ReportScan \<Rightarrow> report_error + ReportScan" where
  "report_lines cluster n [] st = Inr st"
| "report_lines cluster n (raw # raws) st =
     (case report_line cluster (Suc n) raw st of
        Inl err \<Rightarrow> Inl err | Inr st' \<Rightarrow> report_lines cluster (Suc n) raws st')"

definition report_start :: ReportScan where
  "report_start = \<lparr>rs_out = [], rs_noSubject = 0, rs_sawSummary = False, rs_declaredFindings = 0\<rparr>"

definition ParseReport :: "string \<Rightarrow> string \<Rightarrow> report_error + FindingObservation list \<times> int" where
  "ParseReport text cluster =
     (case report_lines cluster 0 (scan_lines text) report_start of
        Inl err \<Rightarrow> Inl err
      | Inr st \<Rightarrow>
          if \<not> rs_sawSummary st then Inl NoSummary
          else (let parsedTotal = int (length (rs_out st)) + rs_noSubject st in
                if parsedTotal \<noteq> rs_declaredFindings st then Inl (CountMismatch (rs_declaredFindings st) parsedTotal)
                else Inr (rs_out st, rs_noSubject st)))"

subsection \<open>Comparing two runs\<close>

datatype FindingTransition =
  TransitionNew | TransitionOngoing | TransitionEscalated | TransitionResolved | TransitionSuppressed

fun transitionOrder :: "FindingTransition \<Rightarrow> nat" where
  "transitionOrder TransitionEscalated = 0"
| "transitionOrder TransitionNew = 1"
| "transitionOrder TransitionResolved = 2"
| "transitionOrder TransitionOngoing = 3"
| "transitionOrder TransitionSuppressed = 4"

definition diff_severityRank :: "string \<Rightarrow> nat" where
  "diff_severityRank s =
     (if s = ''critical'' then 3 else if s = ''warning'' then 2 else if s = ''info'' then 1 else 0)"

record FindingState =
  fs_SubjectKey :: string
  fs_Fingerprint :: string
  fs_Cluster :: string
  fs_Namespace :: string
  fs_KindOfObject :: string
  fs_Name :: string
  fs_Reason :: string
  fs_Severity :: string
  fs_FirstSeen :: gotime
  fs_LastSeen :: gotime
  fs_AckUntil :: gotime
  fs_AckBy :: string

definition Acked :: "FindingState \<Rightarrow> gotime \<Rightarrow> bool" where
  "Acked s now = (\<not> IsZero (fs_AckUntil s) \<and> now < fs_AckUntil s)"

record FindingChange =
  fc_Transition :: FindingTransition
  fc_Observation :: FindingObservation
  fc_PrevSeverity :: string
  fc_FirstSeen :: gotime
  fc_LastSeen :: gotime
  fc_AckUntil :: gotime
  fc_AckBy :: string

record DiffResult =
  dr_Changes :: "FindingChange list"
  dr_Next :: "FindingState list"

text \<open>The loop body for an observation that is the first of its subject: the change and the next row.\<close>

definition classify :: "gotime \<Rightarrow> FindingState option \<Rightarrow> FindingObservation \<Rightarrow> FindingChange \<times> FindingState" where
  "classify now old obs =
     (let row = \<lparr>fs_SubjectKey = fo_SubjectKey obs, fs_Fingerprint = fo_Fingerprint obs, fs_Cluster = fo_Cluster obs,
                 fs_Namespace = fo_Namespace obs, fs_KindOfObject = fo_KindOfObject obs, fs_Name = fo_Name obs,
                 fs_Reason = fo_Reason obs, fs_Severity = fo_Severity obs, fs_FirstSeen = now, fs_LastSeen = now,
                 fs_AckUntil = 0, fs_AckBy = []\<rparr>
      in case old of
           None \<Rightarrow>
             (\<lparr>fc_Transition = TransitionNew, fc_Observation = obs, fc_PrevSeverity = [], fc_FirstSeen = now,
               fc_LastSeen = now, fc_AckUntil = 0, fc_AckBy = []\<rparr>, row)
         | Some o' \<Rightarrow>
             (let kept = row\<lparr>fs_FirstSeen := fs_FirstSeen o', fs_AckUntil := fs_AckUntil o', fs_AckBy := fs_AckBy o'\<rparr>;
                  ch = \<lparr>fc_Transition = TransitionOngoing, fc_Observation = obs, fc_PrevSeverity = fs_Severity o',
                        fc_FirstSeen = fs_FirstSeen o', fc_LastSeen = now, fc_AckUntil = 0, fc_AckBy = []\<rparr>
              in if Acked o' now
                 then (ch\<lparr>fc_Transition := TransitionSuppressed, fc_AckUntil := fs_AckUntil o', fc_AckBy := fs_AckBy o'\<rparr>,
                       kept\<lparr>fs_Severity := fs_Severity o'\<rparr>)
                 else if diff_severityRank (fo_Severity obs) > diff_severityRank (fs_Severity o')
                 then (ch\<lparr>fc_Transition := TransitionEscalated\<rparr>, kept)
                 else (ch, kept)))"

definition resolved_change :: "FindingState \<Rightarrow> FindingChange" where
  "resolved_change old =
     \<lparr>fc_Transition = TransitionResolved,
      fc_Observation =
        \<lparr>fo_SubjectKey = fs_SubjectKey old, fo_Fingerprint = fs_Fingerprint old, fo_Cluster = fs_Cluster old,
         fo_Namespace = fs_Namespace old, fo_KindOfObject = fs_KindOfObject old, fo_Name = fs_Name old,
         fo_Reason = fs_Reason old, fo_Severity = fs_Severity old, fo_Message = []\<rparr>,
      fc_PrevSeverity = fs_Severity old, fc_FirstSeen = fs_FirstSeen old, fc_LastSeen = fs_LastSeen old,
      fc_AckUntil = 0, fc_AckBy = []\<rparr>"

text \<open>\<^verbatim>\<open>prevByKey\<close>: with several rows of one key, the last.\<close>

definition prevByKey :: "FindingState list \<Rightarrow> (string \<times> FindingState) list" where
  "prevByKey prev = foldl (\<lambda>m s. gput (fs_SubjectKey s) s m) [] prev"

text \<open>The loop over the current run: what was seen, the changes and the rows, in order.\<close>

definition diff_step ::
  "(string \<times> FindingState) list \<Rightarrow> gotime \<Rightarrow> string list \<times> FindingChange list \<times> FindingState list \<Rightarrow>
   FindingObservation \<Rightarrow> string list \<times> FindingChange list \<times> FindingState list" where
  "diff_step byKey now acc obs =
     (let (seen, changes, rows) = acc; k = fo_SubjectKey obs in
      if k \<in> set seen then acc
      else (let (ch, row) = classify now (gget byKey k) obs in (k # seen, changes @ [ch], rows @ [row])))"

abbreviation change_key :: "FindingChange \<Rightarrow> nat \<times> string" where
  "change_key c \<equiv> (transitionOrder (fc_Transition c), fo_SubjectKey (fc_Observation c))"

definition Diff :: "FindingState list \<Rightarrow> FindingObservation list \<Rightarrow> gotime \<Rightarrow> DiffResult" where
  "Diff prev cur now =
     (let (seen, changes, rows) = foldl (diff_step (prevByKey prev) now) ([], [], []) cur;
          gone = filter (\<lambda>o'. fs_SubjectKey o' \<notin> set seen) prev
      in \<lparr>dr_Changes = sort_key change_key (changes @ map resolved_change gone),
          dr_Next = sort_key fs_SubjectKey rows\<rparr>)"

end
