(* ===== verification/FindingsLaws.thy ===== *)
theory FindingsLaws
  imports FindingsDiff
begin

section \<open>What the comparison promises\<close>

text \<open>
  \<open>Diff\<close> against a machine per subject, and acknowledgements over a history of runs. A subject's
  part of the state is the severity on record, when it was first seen and until when it is
  acknowledged.
\<close>

subsection \<open>Looking rows up by a key\<close>

lemma find_unique:
  "distinct (map f xs) \<Longrightarrow> List.find (\<lambda>x. f x = k) xs = Some x \<longleftrightarrow> x \<in> set xs \<and> f x = k"
  by (induction xs) (auto simp: image_iff)

lemma find_same_set:
  assumes "distinct (map f xs)" "distinct (map f ys)" "set xs = set ys"
  shows "List.find (\<lambda>x. f x = k) xs = List.find (\<lambda>x. f x = k) ys"
proof (cases "List.find (\<lambda>x. f x = k) ys")
  case None
  then have "List.find (\<lambda>x. f x = k) xs = None" using assms(3) by (auto simp: find_None_iff)
  with None show ?thesis by simp
next
  case (Some y)
  then have "y \<in> set xs \<and> f y = k" using find_unique[OF assms(2)] assms(3) by blast
  then have "List.find (\<lambda>x. f x = k) xs = Some y" using find_unique[OF assms(1)] by blast
  with Some show ?thesis by simp
qed

lemma distinct_sort_key: "distinct (map f xs) \<Longrightarrow> distinct (map f (sort_key g xs))"
  by (simp add: distinct_map)

lemma find_sort_key:
  "distinct (map f xs) \<Longrightarrow> List.find (\<lambda>x. f x = k) (sort_key g xs) = List.find (\<lambda>x. f x = k) xs"
  by (rule find_same_set) (simp_all only: distinct_sort_key set_sort)

lemma find_map: "List.find P (map f xs) = map_option f (List.find (P \<circ> f) xs)"
  by (induction xs) simp_all

lemma find_cong_fun: "(\<And>x. P x = Q x) \<Longrightarrow> List.find P xs = List.find Q xs"
  by (induction xs) simp_all

lemma find_append: "List.find P (xs @ ys) = (case List.find P xs of None \<Rightarrow> List.find P ys | Some x \<Rightarrow> Some x)"
  by (induction xs) simp_all

lemma find_filter_key:
  "Q k \<Longrightarrow> List.find (\<lambda>x. f x = k) (filter (\<lambda>x. Q (f x)) xs) = List.find (\<lambda>x. f x = k) xs"
  by (induction xs) auto

subsection \<open>The current run, one observation per subject\<close>

fun firsts :: "string list \<Rightarrow> FindingObservation list \<Rightarrow> FindingObservation list" where
  "firsts seen [] = []"
| "firsts seen (ob # obs) =
     (if fo_SubjectKey ob \<in> set seen then firsts seen obs else ob # firsts (fo_SubjectKey ob # seen) obs)"

lemma firsts_keys:
  "set (map fo_SubjectKey (firsts seen obs)) = set (map fo_SubjectKey obs) - set seen
   \<and> distinct (map fo_SubjectKey (firsts seen obs))"
  by (induction obs arbitrary: seen) auto

lemma firsts_find:
  "k \<notin> set seen \<Longrightarrow> List.find (\<lambda>o'. fo_SubjectKey o' = k) (firsts seen obs) = List.find (\<lambda>o'. fo_SubjectKey o' = k) obs"
  by (induction obs arbitrary: seen) auto

abbreviation classified :: "(string \<times> FindingState) list \<Rightarrow> gotime \<Rightarrow> FindingObservation \<Rightarrow> FindingChange \<times> FindingState" where
  "classified byKey now ob \<equiv> classify now (gget byKey (fo_SubjectKey ob)) ob"

lemma diff_fold:
  "foldl (diff_step byKey now) (seen, changes, rows) cur =
     (rev (map fo_SubjectKey (firsts seen cur)) @ seen,
      changes @ map (\<lambda>ob. fst (classified byKey now ob)) (firsts seen cur),
      rows @ map (\<lambda>ob. snd (classified byKey now ob)) (firsts seen cur))"
  by (induction cur arbitrary: seen changes rows) (auto simp: diff_step_def Let_def split: prod.splits)

lemma classify_keys:
  "fs_SubjectKey (snd (classify now old ob)) = fo_SubjectKey ob" "fc_Observation (fst (classify now old ob)) = ob"
  by (cases old; simp add: classify_def Let_def)+

definition row_at :: "FindingState list \<Rightarrow> string \<Rightarrow> FindingState option" where
  "row_at rows k = List.find (\<lambda>r. fs_SubjectKey r = k) rows"

definition observed :: "FindingObservation list \<Rightarrow> string \<Rightarrow> FindingObservation option" where
  "observed cur k = List.find (\<lambda>ob. fo_SubjectKey ob = k) cur"

definition change_at :: "FindingChange list \<Rightarrow> string \<Rightarrow> FindingChange option" where
  "change_at changes k = List.find (\<lambda>c. fo_SubjectKey (fc_Observation c) = k) changes"

lemma prevByKey_get: "distinct (map fs_SubjectKey prev) \<Longrightarrow> gget (prevByKey prev) k = row_at prev k"
  unfolding prevByKey_def row_at_def
proof (induction prev rule: rev_induct)
  case (snoc x xs)
  then have "List.find (\<lambda>r. fs_SubjectKey r = fs_SubjectKey x) xs = None" by (auto simp: find_None_iff image_iff)
  with snoc show ?case by (auto simp: find_append update_conv' split: option.splits)
qed simp

text \<open>The whole of \<open>Diff\<close>, before it sorts.\<close>

definition diff_changes :: "FindingState list \<Rightarrow> FindingObservation list \<Rightarrow> gotime \<Rightarrow> FindingChange list" where
  "diff_changes prev cur now =
     map (\<lambda>ob. fst (classified (prevByKey prev) now ob)) (firsts [] cur)
     @ map resolved_change (filter (\<lambda>o'. fs_SubjectKey o' \<notin> set (map fo_SubjectKey cur)) prev)"

definition diff_rows :: "FindingState list \<Rightarrow> FindingObservation list \<Rightarrow> gotime \<Rightarrow> FindingState list" where
  "diff_rows prev cur now = map (\<lambda>ob. snd (classified (prevByKey prev) now ob)) (firsts [] cur)"

lemma Diff_unsorted:
  "dr_Changes (Diff prev cur now) = sort_key change_key (diff_changes prev cur now)"
  "dr_Next (Diff prev cur now) = sort_key fs_SubjectKey (diff_rows prev cur now)"
proof -
  have "set (map fo_SubjectKey (firsts [] cur)) = set (map fo_SubjectKey cur)" using firsts_keys[of "[]" cur] by simp
  then show "dr_Changes (Diff prev cur now) = sort_key change_key (diff_changes prev cur now)"
    "dr_Next (Diff prev cur now) = sort_key fs_SubjectKey (diff_rows prev cur now)"
    by (simp_all add: Diff_def diff_fold diff_changes_def diff_rows_def)
qed

lemma diff_rows_distinct: "distinct (map fs_SubjectKey (diff_rows prev cur now))"
  using firsts_keys[of "[]" cur] by (simp add: diff_rows_def comp_def classify_keys)

lemma diff_changes_distinct:
  assumes "distinct (map fs_SubjectKey prev)"
  shows "distinct (map (\<lambda>c. fo_SubjectKey (fc_Observation c)) (diff_changes prev cur now))"
proof -
  have "map (\<lambda>c. fo_SubjectKey (fc_Observation c)) (diff_changes prev cur now) =
      map fo_SubjectKey (firsts [] cur)
      @ map fs_SubjectKey (filter (\<lambda>o'. fs_SubjectKey o' \<notin> set (map fo_SubjectKey cur)) prev)"
    by (simp add: diff_changes_def comp_def classify_keys resolved_change_def)
  then show ?thesis
    using firsts_keys[of "[]" cur] distinct_map_filter[OF assms] by auto (metis imageI)
qed

subsection \<open>One subject\<close>

text \<open>What one run does to one subject: what is reported and what is kept for the next run.\<close>

definition subject_step ::
  "gotime \<Rightarrow> FindingObservation option \<Rightarrow> FindingState option \<Rightarrow> FindingChange option \<times> FindingState option" where
  "subject_step now ob old =
     (case ob of
        Some o' \<Rightarrow> (let (ch, row) = classify now old o' in (Some ch, Some row))
      | None \<Rightarrow> (map_option resolved_change old, None))"

lemma Diff_subject:
  assumes "distinct (map fs_SubjectKey prev)"
  shows "(change_at (dr_Changes (Diff prev cur now)) k, row_at (dr_Next (Diff prev cur now)) k) =
           subject_step now (observed cur k) (row_at prev k)"
proof -
  let ?cl = "classified (prevByKey prev) now"
  let ?gone = "filter (\<lambda>o'. fs_SubjectKey o' \<notin> set (map fo_SubjectKey cur)) prev"
  have F: "List.find (\<lambda>ob. fo_SubjectKey ob = k) (firsts [] cur) = observed cur k"
    by (simp add: firsts_find observed_def)
  have rows: "row_at (dr_Next (Diff prev cur now)) k = map_option (\<lambda>ob. snd (?cl ob)) (observed cur k)"
    unfolding row_at_def Diff_unsorted find_sort_key[OF diff_rows_distinct]
    by (simp add: diff_rows_def find_map comp_def classify_keys F)
  have changes: "change_at (dr_Changes (Diff prev cur now)) k =
      (case observed cur k of
         Some ob \<Rightarrow> Some (fst (?cl ob))
       | None \<Rightarrow> map_option resolved_change (List.find (\<lambda>r. fs_SubjectKey r = k) ?gone))"
    unfolding change_at_def Diff_unsorted find_sort_key[OF diff_changes_distinct[OF assms]]
    by (simp add: diff_changes_def find_append find_map comp_def classify_keys F resolved_change_def split: option.splits)
  show ?thesis
  proof (cases "observed cur k")
    case None
    then have "k \<notin> set (map fo_SubjectKey cur)" by (auto simp: observed_def find_None_iff)
    then have "List.find (\<lambda>r. fs_SubjectKey r = k) ?gone = row_at prev k"
      unfolding row_at_def by (rule find_filter_key)
    with None show ?thesis by (simp add: rows changes subject_step_def)
  next
    case (Some ob)
    then have "fo_SubjectKey ob = k" by (auto simp: observed_def find_Some_iff)
    with Some show ?thesis by (simp add: rows changes subject_step_def prevByKey_get[OF assms] split: prod.splits)
  qed
qed

subsection \<open>The machine a subject follows\<close>

type_synonym subject_view = "string \<times> gotime \<times> gotime"  \<comment> \<open>severity on record, first seen, acknowledged until\<close>

definition view_of :: "FindingState \<Rightarrow> subject_view" where
  "view_of r = (fs_Severity r, fs_FirstSeen r, fs_AckUntil r)"

definition subject_machine ::
  "gotime \<Rightarrow> string option \<Rightarrow> subject_view option \<Rightarrow> FindingTransition option \<times> subject_view option" where
  "subject_machine now sev old =
     (case (sev, old) of
        (None, None) \<Rightarrow> (None, None)
      | (None, Some _) \<Rightarrow> (Some TransitionResolved, None)
      | (Some s, None) \<Rightarrow> (Some TransitionNew, Some (s, now, 0))
      | (Some s, Some (held, since, ack)) \<Rightarrow>
          if ack \<noteq> 0 \<and> now < ack then (Some TransitionSuppressed, Some (held, since, ack))
          else if diff_severityRank s > diff_severityRank held then (Some TransitionEscalated, Some (s, since, ack))
          else (Some TransitionOngoing, Some (s, since, ack)))"

lemma subject_step_machine:
  "map_prod (map_option fc_Transition) (map_option view_of) (subject_step now ob old) =
     subject_machine now (map_option fo_Severity ob) (map_option view_of old)"
  by (cases ob; cases old)
     (simp_all add: subject_step_def subject_machine_def classify_def resolved_change_def view_of_def Acked_def Let_def)

lemma Diff_machine:
  assumes "distinct (map fs_SubjectKey prev)"
  shows "(map_option fc_Transition (change_at (dr_Changes (Diff prev cur now)) k),
          map_option view_of (row_at (dr_Next (Diff prev cur now)) k)) =
         subject_machine now (map_option fo_Severity (observed cur k)) (map_option view_of (row_at prev k))"
  using arg_cong[OF Diff_subject[OF assms, of cur now k], of "map_prod (map_option fc_Transition) (map_option view_of)"]
  by (simp add: subject_step_machine)

lemma Next_distinct: "distinct (map fs_SubjectKey (dr_Next (Diff prev cur now)))"
  unfolding Diff_unsorted by (rule distinct_sort_key[OF diff_rows_distinct])

text \<open>
  C8: comparing two runs is, for every subject at once, one step of a small machine on that
  subject alone: absent and unknown stays silent, absent and known is \<open>resolved\<close> and forgotten,
  present and unknown is \<open>new\<close> from now on, present inside an open acknowledgement is \<open>suppressed\<close>
  with the severity on record held, present with a higher severity is \<open>escalated\<close>, and anything
  else is \<open>ongoing\<close>; the time a subject was first seen survives. The rows to keep and the changes
  to report hold each subject once and are in the documented order.
\<close>

theorem diff_refines_subjects:
  assumes "distinct (map fs_SubjectKey prev)"
  shows "sorted (map fs_SubjectKey (dr_Next (Diff prev cur now))) \<and> distinct (map fs_SubjectKey (dr_Next (Diff prev cur now)))
         \<and> sorted (map change_key (dr_Changes (Diff prev cur now)))
         \<and> distinct (map (\<lambda>c. fo_SubjectKey (fc_Observation c)) (dr_Changes (Diff prev cur now)))
         \<and> (\<forall>k. (map_option fc_Transition (change_at (dr_Changes (Diff prev cur now)) k),
                 map_option view_of (row_at (dr_Next (Diff prev cur now)) k)) =
                subject_machine now (map_option fo_Severity (observed cur k)) (map_option view_of (row_at prev k)))"
proof -
  have "distinct (map (\<lambda>c. fo_SubjectKey (fc_Observation c)) (dr_Changes (Diff prev cur now)))"
    unfolding Diff_unsorted by (rule distinct_sort_key[OF diff_changes_distinct[OF assms]])
  then show ?thesis
    using Next_distinct Diff_machine[OF assms] by (simp add: Diff_unsorted del: map_map)
qed

definition sample_finding :: "string \<Rightarrow> string \<Rightarrow> Finding" where
  "sample_finding name sev =
     \<lparr>fg_Kind = ''state.pod'', fg_Severity = sev, fg_Namespace = ''shop'', fg_KindOfObject = ''Pod'', fg_Name = name,
      fg_Reason = ''CrashLoopBackOff'', fg_Message = ''back-off'', fg_Fingerprint = ''f'', fg_ExemptReason = [],
      fg_ExemptExpires = [], fg_Details = []\<rparr>"

definition sample_row :: "string \<Rightarrow> string \<Rightarrow> gotime \<Rightarrow> FindingState" where
  "sample_row name sev ack =
     (snd (classify 5 None (ObservationOf (sample_finding name sev) [])))\<lparr>fs_AckUntil := ack\<rparr>"

theorem diff_refines_subjects_witness:
  "map fc_Transition (dr_Changes (Diff [sample_row ''pay-7d9f8-x9k2l'' ''warning'' 0, sample_row ''web-0'' ''info'' 0]
      [ObservationOf (sample_finding ''pay-7d9f8-q4m7p'' ''critical'') [], ObservationOf (sample_finding ''db-0'' ''info'') []] 9))
     = [TransitionEscalated, TransitionNew, TransitionResolved]
   \<and> sorted (map change_key (dr_Changes (Diff [sample_row ''pay-7d9f8-x9k2l'' ''warning'' 0, sample_row ''web-0'' ''info'' 0]
      [ObservationOf (sample_finding ''pay-7d9f8-q4m7p'' ''critical'') [], ObservationOf (sample_finding ''db-0'' ''info'') []] 9)))"
proof -
  have d: "distinct (map fs_SubjectKey [sample_row ''pay-7d9f8-x9k2l'' ''warning'' 0, sample_row ''web-0'' ''info'' 0])"
    by code_simp
  have t: "map fc_Transition (dr_Changes (Diff [sample_row ''pay-7d9f8-x9k2l'' ''warning'' 0, sample_row ''web-0'' ''info'' 0]
      [ObservationOf (sample_finding ''pay-7d9f8-q4m7p'' ''critical'') [], ObservationOf (sample_finding ''db-0'' ''info'') []] 9))
     = [TransitionEscalated, TransitionNew, TransitionResolved]"
    by code_simp
  show ?thesis using t diff_refines_subjects[OF d] by blast
qed

subsection \<open>A history of runs\<close>

definition run_diffs :: "FindingState list \<Rightarrow> (FindingObservation list \<times> gotime) list \<Rightarrow> FindingState list" where
  "run_diffs prev runs = foldl (\<lambda>rows (cur, now). dr_Next (Diff rows cur now)) prev runs"

lemma run_diffs_snoc: "run_diffs prev (runs @ [(cur, now)]) = dr_Next (Diff (run_diffs prev runs) cur now)"
  by (simp add: run_diffs_def)

lemma run_diffs_distinct: "distinct (map fs_SubjectKey prev) \<Longrightarrow> distinct (map fs_SubjectKey (run_diffs prev runs))"
  by (cases runs rule: rev_cases) (auto simp: run_diffs_def Next_distinct split: prod.splits)

text \<open>The runs of an acknowledgement's window: the subject is present and the window is open.\<close>

definition inside_ack :: "string \<Rightarrow> gotime \<Rightarrow> FindingObservation list \<times> gotime \<Rightarrow> bool" where
  "inside_ack k until run = (observed (fst run) k \<noteq> None \<and> snd run < until)"

lemma acked_row_held:
  assumes "distinct (map fs_SubjectKey prev)" "map_option view_of (row_at prev k) = Some (held, since, ack)" "ack \<noteq> 0"
    and "list_all (inside_ack k ack) runs"
  shows "map_option view_of (row_at (run_diffs prev runs) k) = Some (held, since, ack)"
  using assms(4)
proof (induction runs rule: rev_induct)
  case Nil
  then show ?case using assms(2) by (simp add: run_diffs_def)
next
  case (snoc run runs)
  obtain cur now where run: "run = (cur, now)" by fastforce
  then have "observed cur k \<noteq> None" "now < ack" using snoc.prems by (simp_all add: inside_ack_def)
  then show ?case
    using snoc Diff_machine[OF run_diffs_distinct[OF assms(1)], of runs cur now k] assms(3)
    by (auto simp: run run_diffs_snoc subject_machine_def)
qed

text \<open>
  C10: an acknowledgement is a pause. While its window is open and the subject stays present every
  run reports the subject as \<open>suppressed\<close>, whatever its severity does meanwhile; the first run
  at or after the end of the window whose severity exceeds the one on record when the window
  opened reports it as \<open>escalated\<close>, against that severity and with the time it was first seen.
\<close>

theorem acked_escalation_surfaces:
  assumes "distinct (map fs_SubjectKey prev)" "row_at prev k = Some r" "fs_AckUntil r \<noteq> 0"
    and "list_all (inside_ack k (fs_AckUntil r)) runs"
    and "observed cur k = Some ob" "fs_AckUntil r \<le> now"
    and "diff_severityRank (fs_Severity r) < diff_severityRank (fo_Severity ob)"
  shows "(\<forall>i < length runs.
            map_option fc_Transition
              (change_at (dr_Changes (Diff (run_diffs prev (take i runs)) (fst (runs ! i)) (snd (runs ! i)))) k)
            = Some TransitionSuppressed)
         \<and> (\<exists>c. change_at (dr_Changes (Diff (run_diffs prev runs) cur now)) k = Some c
                \<and> fc_Transition c = TransitionEscalated \<and> fc_Observation c = ob
                \<and> fc_PrevSeverity c = fs_Severity r \<and> fc_FirstSeen c = fs_FirstSeen r)"
proof -
  let ?ack = "fs_AckUntil r"
  have v: "map_option view_of (row_at prev k) = Some (fs_Severity r, fs_FirstSeen r, ?ack)"
    using assms(2) by (simp add: view_of_def)
  have held: "map_option view_of (row_at (run_diffs prev rs) k) = Some (fs_Severity r, fs_FirstSeen r, ?ack)"
    if "list_all (inside_ack k ?ack) rs" for rs
    using acked_row_held[OF assms(1) v assms(3) that] .
  have "map_option fc_Transition
          (change_at (dr_Changes (Diff (run_diffs prev (take i runs)) (fst (runs ! i)) (snd (runs ! i)))) k)
        = Some TransitionSuppressed" if i: "i < length runs" for i
  proof -
    have "inside_ack k ?ack (runs ! i)" "list_all (inside_ack k ?ack) (take i runs)"
      using assms(4) i by (auto simp: list_all_iff dest: in_set_takeD)
    then show ?thesis
      using held[of "take i runs"] assms(3)
        Diff_machine[OF run_diffs_distinct[OF assms(1)], of "take i runs" "fst (runs ! i)" "snd (runs ! i)" k]
      by (auto simp: subject_machine_def inside_ack_def)
  qed
  moreover
  obtain r' where r': "row_at (run_diffs prev runs) k = Some r'" "view_of r' = (fs_Severity r, fs_FirstSeen r, ?ack)"
    using held[OF assms(4)] by auto
  have "fst (subject_step now (observed cur k) (row_at (run_diffs prev runs) k)) = Some (fst (classify now (Some r') ob))"
    by (simp add: subject_step_def assms(5) r'(1) split: prod.splits)
  then have "change_at (dr_Changes (Diff (run_diffs prev runs) cur now)) k = Some (fst (classify now (Some r') ob))"
    using Diff_subject[OF run_diffs_distinct[OF assms(1)], of runs cur now k] by (metis fst_conv)
  moreover have "\<not> Acked r' now" using r'(2) assms(6) by (auto simp: Acked_def view_of_def)
  ultimately show ?thesis using r'(2) assms(7) by (auto simp: classify_def view_of_def Let_def)
qed

theorem acked_escalation_surfaces_witness:
  "\<exists>c. change_at
         (dr_Changes (Diff (run_diffs [sample_row ''pay-7d9f8-x9k2l'' ''warning'' 50]
                              [([ObservationOf (sample_finding ''pay-7d9f8-q4m7p'' ''critical'') []], 20),
                               ([ObservationOf (sample_finding ''pay-7d9f8-b4m7b'' ''info'') []], 30)])
                      [ObservationOf (sample_finding ''pay-7d9f8-c4m7c'' ''critical'') []] 60))
         ''/shop/Pod/pay/CrashLoopBackOff'' = Some c
       \<and> fc_Transition c = TransitionEscalated \<and> fc_PrevSeverity c = ''warning'' \<and> fc_FirstSeen c = 5"
proof -
  let ?r = "sample_row ''pay-7d9f8-x9k2l'' ''warning'' 50" and ?k = "''/shop/Pod/pay/CrashLoopBackOff''"
  let ?ob = "ObservationOf (sample_finding ''pay-7d9f8-c4m7c'' ''critical'') []"
  have h: "distinct (map fs_SubjectKey [?r])" "row_at [?r] ?k = Some ?r" "fs_AckUntil ?r \<noteq> 0"
    "list_all (inside_ack ?k (fs_AckUntil ?r))
       [([ObservationOf (sample_finding ''pay-7d9f8-q4m7p'' ''critical'') []], 20),
        ([ObservationOf (sample_finding ''pay-7d9f8-b4m7b'' ''info'') []], 30)]"
    "observed [?ob] ?k = Some ?ob" "fs_AckUntil ?r \<le> 60"
    "diff_severityRank (fs_Severity ?r) < diff_severityRank (fo_Severity ?ob)"
    "fs_Severity ?r = ''warning''" "fs_FirstSeen ?r = 5"
    by code_simp+
  show ?thesis using acked_escalation_surfaces[OF h(1-7)] unfolding h(8,9) by blast
qed

end
