(* ===== verification/Posture.thy ===== *)
theory Posture
  imports FindingsDiff
begin

section \<open>Posture policies and exemptions\<close>

text \<open>
  \<^verbatim>\<open>pkg/policy/policy.go\<close>, \<^verbatim>\<open>profiles.go\<close> and \<^verbatim>\<open>pkg/exempt/exempt.go\<close>: which checks a run reports, at what
  severity and with which parameters, from four layers (detector, profile, file, flags), and
  which findings an owner has declared intentional. A policy or exemption file is given as the
  record the YAML decoder delivers.
\<close>

subsection \<open>Globs\<close>

text \<open>
  \<^verbatim>\<open>path.Match\<close>, as its chunks: a chunk is what stands between two stars, each item of it takes one
  byte, and a chunk after a star is placed at its first fit. A star and \<^verbatim>\<open>?\<close> do not match a slash.
\<close>

datatype glob_item = AnyByte | OneOf bool "(char \<times> char) list" | Lit char

definition glob_esc :: "string \<Rightarrow> (char \<times> string) option" where
  "glob_esc s =
     (case s of
        [] \<Rightarrow> None
      | c # r \<Rightarrow>
          if c = CHR ''-'' \<or> c = CHR '']'' then None
          else if c = bsl then (case r of d # e # r' \<Rightarrow> Some (d, e # r') | _ \<Rightarrow> None)
          else if r = [] then None else Some (c, r))"

lemma glob_esc_shrinks: "glob_esc s = Some (c, r) \<Longrightarrow> length r < length s"
  by (auto simp: glob_esc_def split: list.splits if_splits)

function glob_ranges :: "bool \<Rightarrow> string \<Rightarrow> ((char \<times> char) list \<times> string) option" where
  "glob_ranges some s =
     (if some \<and> prefix '']'' s then Some ([], tl s)
      else (case glob_esc s of
              None \<Rightarrow> None
            | Some (lo, r) \<Rightarrow>
                if prefix ''-'' r
                then (case glob_esc (tl r) of
                        None \<Rightarrow> None
                      | Some (hi, r') \<Rightarrow> map_option (\<lambda>(rs, t). ((lo, hi) # rs, t)) (glob_ranges True r'))
                else map_option (\<lambda>(rs, t). ((lo, lo) # rs, t)) (glob_ranges True r)))"
  by pat_completeness auto
termination
  by (relation "measure (\<lambda>(b, s). length s)") (fastforce dest!: glob_esc_shrinks)+

declare glob_ranges.simps [simp del]

lemma glob_ranges_shrinks: "glob_ranges b s = Some (rs, t) \<Longrightarrow> length t < length s"
proof (induction b s arbitrary: rs t rule: glob_ranges.induct)
  case (1 b s)
  note ih = 1(1,2) and eq = 1(3)[unfolded glob_ranges.simps[of b s]]
  show ?case
  proof (cases "b \<and> prefix '']'' s")
    case True
    then show ?thesis using eq by (cases s) auto
  next
    case False
    then obtain lo r where e: "glob_esc s = Some (lo, r)" using eq by (auto split: option.splits)
    then have r: "length r < length s" by (rule glob_esc_shrinks)
    show ?thesis
    proof (cases "prefix ''-'' r")
      case True
      then obtain hi r' rs' where h: "glob_esc (tl r) = Some (hi, r')" "glob_ranges True r' = Some (rs', t)"
        using eq False e by (auto split: option.splits)
      have "length t < length r'" using ih(1)[OF False e refl True h(1) refl] h(2) by blast
      then show ?thesis using glob_esc_shrinks[OF h(1)] r by simp
    next
      case nd: False
      then obtain rs' where h: "glob_ranges True r = Some (rs', t)" using eq False e by (auto split: option.splits)
      show ?thesis using ih(2)[OF False e refl nd] h r by fastforce
    qed
  qed
qed

text \<open>The items up to the next star, and what follows.\<close>

function glob_items :: "string \<Rightarrow> (glob_item list \<times> string) option" where
  "glob_items [] = Some ([], [])"
| "glob_items (c # r) =
     (if c = CHR ''*'' then Some ([], c # r)
      else if c = CHR ''?'' then map_option (\<lambda>(is, t). (AnyByte # is, t)) (glob_items r)
      else if c = CHR ''['' then
        (let negated = prefix ''^'' r in
         case glob_ranges False (if negated then tl r else r) of
           None \<Rightarrow> None
         | Some (rs, r') \<Rightarrow> map_option (\<lambda>(is, t). (OneOf negated rs # is, t)) (glob_items r'))
      else if c = bsl then
        (case r of [] \<Rightarrow> None | d # r' \<Rightarrow> map_option (\<lambda>(is, t). (Lit d # is, t)) (glob_items r'))
      else map_option (\<lambda>(is, t). (Lit c # is, t)) (glob_items r))"
  by pat_completeness auto
termination
  by (relation "measure length") (auto dest!: glob_ranges_shrinks split: if_splits)

lemma glob_items_rest: "glob_items s = Some (is, t) \<Longrightarrow> length t \<le> length s \<and> (s \<noteq> [] \<and> hd s \<noteq> CHR ''*'' \<longrightarrow> length t < length s)"
proof (induction s arbitrary: "is" t rule: glob_items.induct)
  case (2 c r)
  show ?case
    using 2(5) 2(1)[of _ t] 2(2)[of "prefix ''^'' r" _ _ _ _ t] 2(3)[of _ _ _ t] 2(4)[of _ t]
    by (auto split: if_splits option.splits list.splits dest!: glob_ranges_shrinks simp: Let_def)
       (fastforce dest: glob_ranges_shrinks)+
qed simp

function glob_chunks :: "string \<Rightarrow> (bool \<times> glob_item list) list option" where
  "glob_chunks s =
     (if s = [] then Some []
      else (let star = prefix ''*'' s; r = dropWhile (\<lambda>c. c = CHR ''*'') s in
            case glob_items r of
              None \<Rightarrow> None
            | Some (is, t) \<Rightarrow> map_option (Cons (star, is)) (glob_chunks t)))"
  by pat_completeness auto
termination
proof (relation "measure length", goal_cases)
  case (2 s x xa xb a b)
  have le: "length (dropWhile (\<lambda>c. c = CHR ''*'') s) \<le> length s" by (rule length_dropWhile_le)
  show ?case
  proof (cases "prefix ''*'' s")
    case True
    then obtain s' where s: "s = CHR ''*'' # s'" by (cases s) auto
    have "length (dropWhile (\<lambda>c. c = CHR ''*'') s') \<le> length s'" by (rule length_dropWhile_le)
    then show ?thesis using 2 glob_items_rest[of xa a b] by (simp add: s)
  next
    case False
    then have "dropWhile (\<lambda>c. c = CHR ''*'') s = s" "hd s \<noteq> CHR ''*''" using 2(1) by (cases s; auto)+
    then show ?thesis using 2 glob_items_rest[of xa a b] by simp
  qed
qed simp

declare glob_chunks.simps [simp del]

definition item_takes :: "glob_item \<Rightarrow> char \<Rightarrow> bool" where
  "item_takes it c =
     (case it of
        AnyByte \<Rightarrow> c \<noteq> CHR ''/''
      | OneOf negated rs \<Rightarrow> list_ex (\<lambda>(lo, hi). lo \<le> c \<and> c \<le> hi) rs \<noteq> negated
      | Lit d \<Rightarrow> c = d)"

fun match_chunk :: "glob_item list \<Rightarrow> string \<Rightarrow> string option" where
  "match_chunk [] s = Some s"
| "match_chunk (it # is) [] = None"
| "match_chunk (it # is) (c # s) = (if item_takes it c then match_chunk is s else None)"

text \<open>The suffixes a star may leave, shortest skip first; it stops before a slash.\<close>

fun star_skips :: "string \<Rightarrow> string list" where
  "star_skips [] = []"
| "star_skips (c # s) = (if c = CHR ''/'' then [] else s # star_skips s)"

fun first_fit :: "(string \<Rightarrow> string option) \<Rightarrow> string list \<Rightarrow> string option" where
  "first_fit f [] = None"
| "first_fit f (s # ss) = (case f s of Some t \<Rightarrow> Some t | None \<Rightarrow> first_fit f ss)"

fun glob_run :: "(bool \<times> glob_item list) list \<Rightarrow> string \<Rightarrow> bool" where
  "glob_run [] name = (name = [])"
| "glob_run ((star, is) # rest) name =
     (if star \<and> is = [] then CHR ''/'' \<notin> set name
      else
        (case first_fit (\<lambda>s. case match_chunk is s of
                               Some t \<Rightarrow> if t = [] \<or> rest \<noteq> [] then Some t else None
                             | None \<Rightarrow> None)
                        (name # (if star then star_skips name else [])) of
           None \<Rightarrow> False
         | Some t \<Rightarrow> glob_run rest t))"

definition path_Match :: "string \<Rightarrow> string \<Rightarrow> bool option" where
  "path_Match pattern name = map_option (\<lambda>cs. glob_run cs name) (glob_chunks pattern)"

subsection \<open>Profiles\<close>

record CheckRule =
  cr_Enabled :: "bool option"
  cr_Severity :: string
  cr_Params :: "(string \<times> string) list"

record profileSpec =
  pf_name :: string
  pf_onlyAllowlist :: "string list option"
  pf_checks :: "(string \<times> CheckRule) list"

definition severity_rule :: "string \<Rightarrow> CheckRule" where
  "severity_rule sev = \<lparr>cr_Enabled = None, cr_Severity = sev, cr_Params = []\<rparr>"

definition switch_rule :: "bool \<Rightarrow> CheckRule" where
  "switch_rule on = \<lparr>cr_Enabled = Some on, cr_Severity = [], cr_Params = []\<rparr>"

definition onboarding_kinds :: "string list" where
  "onboarding_kinds =
     [''audit.podsecurity_gaps'', ''audit.default_sa_automount'', ''audit.no_network_policy'', ''audit.netpol_missing'',
      ''audit.no_resource_quota'', ''audit.no_limit_range'', ''audit.namespace_onboarding_gaps'',
      ''audit.cluster_admin_binding'', ''audit.wildcard_grant'', ''audit.wildcard_rbac'']"

definition builtinProfiles :: "(string \<times> profileSpec) list" where
  "builtinProfiles =
     [(''default'', \<lparr>pf_name = ''default'', pf_onlyAllowlist = None, pf_checks = []\<rparr>),
      (''strict'',
       \<lparr>pf_name = ''strict'', pf_onlyAllowlist = None,
        pf_checks =
          [(''audit.no_liveness_probe'', severity_rule ''warning''), (''audit.no_spread'', severity_rule ''warning''),
           (''audit.image_floating_tag'', severity_rule ''warning''),
           (''audit.liveness_preempts_readiness/LivenessDeadlineTiesReadiness'', severity_rule ''warning''),
           (''audit.liveness_preempts_readiness/LivenessFiresFirst'', severity_rule ''warning'')]\<rparr>),
      (''onboarding'',
       \<lparr>pf_name = ''onboarding'', pf_onlyAllowlist = Some onboarding_kinds,
        pf_checks = map (\<lambda>k. (k, switch_rule True)) onboarding_kinds\<rparr>),
      (''gke-autopilot'',
       \<lparr>pf_name = ''gke-autopilot'', pf_onlyAllowlist = None,
        pf_checks =
          map (\<lambda>k. (k, switch_rule False))
            [''audit.nodepool_cannot_grow'', ''audit.legacy_metadata'', ''audit.single_zone_nodepool'',
             ''audit.privileged_container'', ''audit.host_namespace'', ''audit.hostpath_mount'']\<rparr>)]"

definition lookupProfile :: "string \<Rightarrow> profileSpec option" where
  "lookupProfile name = gget builtinProfiles (if name = [] then ''default'' else name)"


subsection \<open>Policies\<close>

record PosturePolicy =
  pp_NameValue :: string
  pp_Profile :: string
  pp_MinSeverity :: string
  pp_SystemNS :: "string list"
  pp_Checks :: "(string \<times> CheckRule) list"
  pp_flagOnly :: "string list"
  pp_flagSkip :: "string list"
  pp_flagMinSeverity :: string
  pp_flagParams :: "(string \<times> (string \<times> string) list) list"
  pp_loadedFromFile :: bool
  pp_explicitProfile :: bool

datatype policy_error =
  UnknownProfile string | BadSeverity string | BadGlob string string | NilPolicy
| BadSet string | EmptySetValue string | BadSetKind string string

definition ForProfile :: "string \<Rightarrow> policy_error + PosturePolicy" where
  "ForProfile name =
     (case lookupProfile name of
        None \<Rightarrow> Inl (UnknownProfile name)
      | Some prof \<Rightarrow>
          Inr \<lparr>pp_NameValue = pf_name prof, pp_Profile = pf_name prof, pp_MinSeverity = [], pp_SystemNS = [], pp_Checks = [],
               pp_flagOnly = [], pp_flagSkip = [], pp_flagMinSeverity = [], pp_flagParams = [],
               pp_loadedFromFile = False, pp_explicitProfile = (name \<noteq> [])\<rparr>)"

definition SetProfile :: "string \<Rightarrow> PosturePolicy \<Rightarrow> policy_error + PosturePolicy" where
  "SetProfile name p =
     (case lookupProfile name of
        None \<Rightarrow> Inl (UnknownProfile name)
      | Some prof \<Rightarrow>
          Inr (p\<lparr>pp_Profile := pf_name prof, pp_explicitProfile := True,
                 pp_NameValue := (if \<not> pp_loadedFromFile p \<or> pp_NameValue p = [] then pf_name prof else pp_NameValue p)\<rparr>))"

definition Policy_Name :: "PosturePolicy option \<Rightarrow> string" where
  "Policy_Name po =
     (case po of
        None \<Rightarrow> ''default''
      | Some p \<Rightarrow> if pp_NameValue p \<noteq> [] then pp_NameValue p
                   else if pp_Profile p \<noteq> [] then pp_Profile p else ''default'')"

definition IsActive :: "PosturePolicy option \<Rightarrow> bool" where
  "IsActive po =
     (case po of
        None \<Rightarrow> False
      | Some p \<Rightarrow>
          pp_loadedFromFile p \<or> pp_explicitProfile p \<or> pp_flagOnly p \<noteq> [] \<or> pp_flagSkip p \<noteq> []
          \<or> pp_flagMinSeverity p \<noteq> [] \<or> pp_flagParams p \<noteq> [])"

definition policy_severityRank :: "string \<Rightarrow> nat" where
  "policy_severityRank s =
     (if s = ''critical'' then 3 else if s = ''warning'' then 2 else if s = ''info'' then 1 else 0)"

definition validateSeverity :: "string \<Rightarrow> bool" where
  "validateSeverity s = (s \<in> {''critical'', ''warning'', ''info''})"

text \<open>The comma-separated globs of one flag; the first malformed one is an error.\<close>

definition expandGlobs :: "string \<Rightarrow> string list \<Rightarrow> policy_error + string list" where
  "expandGlobs flagName raw =
     (let pats = filter (\<lambda>p. p \<noteq> [])
                   (concat (map (\<lambda>entry. map strings_TrimSpace (strings_SplitByte entry CHR '','')) raw))
      in case List.find (\<lambda>p. path_Match p ''audit.example'' = None) pats of
           Some p \<Rightarrow> Inl (BadGlob flagName p) | None \<Rightarrow> Inr pats)"

definition splitSetAssignments :: "string \<Rightarrow> string list" where
  "splitSetAssignments raw =
     foldl (\<lambda>out part.
              let trimmed = strings_TrimSpace part in
              if trimmed = [] then out
              else if CHR ''='' \<in> set trimmed \<or> out = [] then out @ [trimmed]
              else butlast out @ [last out @ '','' @ trimmed])
       [] (strings_SplitByte raw CHR '','')"

definition parseSetAssignment :: "string \<Rightarrow> policy_error + (string \<times> string \<times> string)" where
  "parseSetAssignment tok =
     (case strings_IndexByte tok CHR ''='' of
        None \<Rightarrow> Inl (BadSet tok)
      | Some eq \<Rightarrow>
          if eq = 0 \<or> eq = length tok - 1 then Inl (BadSet tok)
          else
            (let lhs = strings_TrimSpace (take eq tok); val = strings_TrimSpace (drop (Suc eq) tok) in
             if val = [] then Inl (EmptySetValue tok)
             else
               (let lastDot = strings_LastIndexByte lhs CHR ''.'' in
                if lastDot \<le> 0 \<or> lastDot = int (length lhs) - 1 then Inl (BadSet tok)
                else (let kind = take (nat lastDot) lhs; param = drop (Suc (nat lastDot)) lhs in
                      if CHR ''.'' \<notin> set kind then Inl (BadSetKind tok kind)
                      else Inr (kind, param, val)))))"

text \<open>The assignments are stored one by one: a malformed one stops the loop with the earlier ones kept.\<close>

fun apply_sets :: "string list \<Rightarrow> PosturePolicy \<Rightarrow> (policy_error + unit) \<times> PosturePolicy" where
  "apply_sets [] p = (Inr (), p)"
| "apply_sets (tok # toks) p =
     (case parseSetAssignment tok of
        Inl err \<Rightarrow> (Inl err, p)
      | Inr (kind, param, val) \<Rightarrow>
          apply_sets toks
            (p\<lparr>pp_flagParams :=
                 gput kind (gput param val (case gget (pp_flagParams p) kind of None \<Rightarrow> [] | Some m \<Rightarrow> m)) (pp_flagParams p)\<rparr>))"

definition ApplyFlags ::
  "string list \<Rightarrow> string list \<Rightarrow> string \<Rightarrow> string list \<Rightarrow> PosturePolicy \<Rightarrow> (policy_error + unit) \<times> PosturePolicy" where
  "ApplyFlags only skip minSeverity sets p =
     (case expandGlobs ''--only'' only of
        Inl err \<Rightarrow> (Inl err, p)
      | Inr parsedOnly \<Rightarrow>
          (case expandGlobs ''--skip'' skip of
             Inl err \<Rightarrow> (Inl err, p)
           | Inr parsedSkip \<Rightarrow>
               if minSeverity \<noteq> [] \<and> \<not> validateSeverity minSeverity then (Inl (BadSeverity minSeverity), p)
               else (case apply_sets (concat (map splitSetAssignments sets)) p of
                       (Inl err, p') \<Rightarrow> (Inl err, p')
                     | (Inr _, p') \<Rightarrow>
                         (Inr (), p'\<lparr>pp_flagOnly := pp_flagOnly p' @ parsedOnly, pp_flagSkip := pp_flagSkip p' @ parsedSkip,
                                     pp_flagMinSeverity := (if minSeverity = [] then pp_flagMinSeverity p' else minSeverity)\<rparr>))))"

definition isUnsuppressibleKind :: "string \<Rightarrow> bool" where
  "isUnsuppressibleKind kind = (suffix ''.unavailable'' kind \<or> prefix ''scan.'' kind \<or> kind = ''audit.policy_rule'')"

definition applyRule :: "bool \<times> string \<Rightarrow> CheckRule \<Rightarrow> bool \<times> string" where
  "applyRule es rule =
     (case cr_Enabled rule of None \<Rightarrow> fst es | Some on \<Rightarrow> on,
      if cr_Severity rule \<noteq> [] then cr_Severity rule else snd es)"

definition matchesAnyGlob :: "string list \<Rightarrow> string \<Rightarrow> string \<Rightarrow> bool" where
  "matchesAnyGlob patterns kind reason =
     list_ex (\<lambda>pat. path_Match pat kind = Some True
                     \<or> (reason \<noteq> [] \<and> path_Match pat (kind @ ''/'' @ reason) = Some True)) patterns"

text \<open>The rules of one layer for a kind and its reason, each applied when the table has it.\<close>

definition apply_checks ::
  "string \<Rightarrow> (string \<times> CheckRule) list \<Rightarrow> string \<Rightarrow> string \<Rightarrow> bool \<times> string \<times> string \<Rightarrow> bool \<times> string \<times> string" where
  "apply_checks source checks kind reason st =
     (let on = (\<lambda>k (en, sev, src). case gget checks k of
                                      None \<Rightarrow> (en, sev, src)
                                    | Some rule \<Rightarrow> (let (en', sev') = applyRule (en, sev) rule in (en', sev', source)));
          st1 = on kind st
      in if reason \<noteq> [] then on (kind @ ''/'' @ reason) st1 else st1)"

definition decideDetailed :: "PosturePolicy \<Rightarrow> string \<Rightarrow> string \<Rightarrow> string \<Rightarrow> bool \<times> string \<times> string" where
  "decideDetailed p kind reason defaultSev =
     (let st0 = (True, defaultSev, ''default'');
          st1 = (case lookupProfile (pp_Profile p) of
                   None \<Rightarrow> st0
                 | Some prof \<Rightarrow>
                     apply_checks ''profile'' (pf_checks prof) kind reason
                       (case pf_onlyAllowlist prof of
                          None \<Rightarrow> st0 | Some ks \<Rightarrow> (kind \<in> set ks, defaultSev, ''profile'')));
          (en2, sev, src2) = apply_checks ''file'' (pp_Checks p) kind reason st1;
          (en3, src3) = (if pp_MinSeverity p \<noteq> [] \<and> policy_severityRank sev < policy_severityRank (pp_MinSeverity p)
                         then (False, if en2 then ''file'' else src2) else (en2, src2));
          (en4, src4) = (if pp_flagOnly p \<noteq> [] then (matchesAnyGlob (pp_flagOnly p) kind reason, ''flag'') else (en3, src3));
          (en5, src5) = (if pp_flagSkip p \<noteq> [] \<and> matchesAnyGlob (pp_flagSkip p) kind reason then (False, ''flag'') else (en4, src4))
      in if pp_flagMinSeverity p \<noteq> [] \<and> policy_severityRank sev < policy_severityRank (pp_flagMinSeverity p)
         then (False, sev, ''flag'') else (en5, sev, src5))"

definition Policy_Decide :: "PosturePolicy option \<Rightarrow> string \<Rightarrow> string \<Rightarrow> string \<Rightarrow> bool \<times> string" where
  "Policy_Decide po kind reason defaultSev0 =
     (let defaultSev = (if defaultSev0 = [] then ''info'' else defaultSev0) in
      case po of
        None \<Rightarrow> (True, defaultSev)
      | Some p \<Rightarrow> if isUnsuppressibleKind kind then (True, defaultSev)
                   else (let (en, sev, src) = decideDetailed p kind reason defaultSev in (en, sev)))"

definition rawParam :: "PosturePolicy option \<Rightarrow> string \<Rightarrow> string \<Rightarrow> string option" where
  "rawParam po kind key =
     (case po of
        None \<Rightarrow> None
      | Some p \<Rightarrow>
          (let params = (\<lambda>checks. case gget checks kind of None \<Rightarrow> [] | Some rule \<Rightarrow> cr_Params rule);
               flag = (case gget (pp_flagParams p) kind of None \<Rightarrow> [] | Some m \<Rightarrow> m)
           in case gget flag key of
                Some v \<Rightarrow> Some v
              | None \<Rightarrow>
                  (case gget (params (pp_Checks p)) key of
                     Some v \<Rightarrow> Some v
                   | None \<Rightarrow> (case lookupProfile (pp_Profile p) of
                                None \<Rightarrow> None | Some prof \<Rightarrow> gget (params (pf_checks prof)) key))))"

text \<open>One layer of parameters merged over the others; a range over a map, so any order will do.\<close>

definition merge_params :: "string \<Rightarrow> (string \<times> string) list \<Rightarrow> (string \<times> string) list \<times> string \<Rightarrow> (string \<times> string) list \<times> string" where
  "merge_params source params acc =
     (foldr (\<lambda>(k, v). gput k v) params (fst acc), if params = [] then snd acc else source)"

definition EffectiveParams :: "PosturePolicy option \<Rightarrow> string \<Rightarrow> (string \<times> string) list \<times> string" where
  "EffectiveParams po kind =
     (case po of
        None \<Rightarrow> ([], [])
      | Some p \<Rightarrow>
          (let params = (\<lambda>checks. case gget checks kind of None \<Rightarrow> [] | Some rule \<Rightarrow> cr_Params rule);
               m0 = (case lookupProfile (pp_Profile p) of
                       None \<Rightarrow> ([], []) | Some prof \<Rightarrow> merge_params ''profile'' (params (pf_checks prof)) ([], []));
               m1 = merge_params ''file'' (params (pp_Checks p)) m0;
               m2 = merge_params ''flag'' (case gget (pp_flagParams p) kind of None \<Rightarrow> [] | Some m \<Rightarrow> m) m1
           in if fst m2 = [] then ([], []) else m2))"


subsection \<open>Exemptions\<close>

record Entry =
  ee_Kind :: string
  ee_Namespace :: string
  ee_Name :: string
  ee_Reason :: string
  ee_Expires :: string
  ee_Owner :: string
  ee_expires :: gotime

record ExemptSet =
  es_now :: gotime
  es_entries :: "Entry list"
  es_byKind :: "(string \<times> Entry list) list"

definition entry_expired :: "Entry \<Rightarrow> gotime \<Rightarrow> bool" where
  "entry_expired e now = (\<not> now < ee_expires e)"

text \<open>The loop of \<^verbatim>\<open>Load\<close> over the validated entries of a file.\<close>

definition load_entries :: "gotime \<Rightarrow> Entry list \<Rightarrow> ExemptSet" where
  "load_entries now es =
     foldl (\<lambda>s e. let s' = s\<lparr>es_entries := es_entries s @ [e]\<rparr> in
              if entry_expired e now then s'
              else s'\<lparr>es_byKind := gput (ee_Kind e)
                        ((case gget (es_byKind s) (ee_Kind e) of None \<Rightarrow> [] | Some l \<Rightarrow> l) @ [e]) (es_byKind s)\<rparr>)
       \<lparr>es_now = now, es_entries = [], es_byKind = []\<rparr> es"

definition moreSpecific :: "Entry \<Rightarrow> Entry \<Rightarrow> bool" where
  "moreSpecific a b =
     (if (ee_Name a \<noteq> []) \<noteq> (ee_Name b \<noteq> []) then ee_Name a \<noteq> []
      else if (ee_Namespace a \<noteq> []) \<noteq> (ee_Namespace b \<noteq> []) then ee_Namespace a \<noteq> []
      else ee_Reason a < ee_Reason b)"

definition entry_covers :: "string \<Rightarrow> string \<Rightarrow> Entry \<Rightarrow> bool" where
  "entry_covers namespace name e =
     ((ee_Namespace e = [] \<or> ee_Namespace e = namespace) \<and> (ee_Name e = [] \<or> ee_Name e = name))"

definition Exempt :: "ExemptSet option \<Rightarrow> string \<Rightarrow> string \<Rightarrow> string \<Rightarrow> (string \<times> string) option" where
  "Exempt so kind namespace name =
     (case so of
        None \<Rightarrow> None
      | Some s \<Rightarrow>
          map_option (\<lambda>e. (ee_Reason e, ee_Expires e))
            (scan_best moreSpecific None
               (filter (entry_covers namespace name) (case gget (es_byKind s) kind of None \<Rightarrow> [] | Some l \<Rightarrow> l))))"

end
