(* ===== verification/EmitLaws.thy ===== *)
theory EmitLaws
  imports FindingsDiff
begin

section \<open>What reaches the stream\<close>

text \<open>
  A writer over a sequence of calls: every finding is accounted for by exactly one counter, and
  what was written, in either line format, is what \<^verbatim>\<open>ParseReport\<close> reads back.
\<close>

subsection \<open>Sequences of calls\<close>

datatype WriterOp =
  OpEmit Finding | OpStamp string string | OpNote string string | OpSetPolicy "WriterPolicy option"

fun writer_op :: "WriterOp \<Rightarrow> Writer \<Rightarrow> (emit_error + unit) \<times> Writer" where
  "writer_op (OpEmit f) w = Emit f w"
| "writer_op (OpStamp k v) w = Stamp k v w"
| "writer_op (OpNote k v) w = Note k v w"
| "writer_op (OpSetPolicy p) w = (Inr (), SetPolicy p w)"

fun run_writer :: "WriterOp list \<Rightarrow> Writer \<Rightarrow> Writer" where
  "run_writer [] w = w"
| "run_writer (c # cs) w = run_writer cs (snd (writer_op c w))"

text \<open>What became of each finding emitted, and whether the call succeeded.\<close>

fun outcomes :: "WriterOp list \<Rightarrow> Writer \<Rightarrow> (fate \<times> bool) list" where
  "outcomes [] w = []"
| "outcomes (c # cs) w =
     (case c of OpEmit f \<Rightarrow> [(emit_fate w f, \<not> isl (fst (Emit f w)))] | _ \<Rightarrow> []) @ outcomes cs (snd (writer_op c w))"

definition fresh_writer :: "Writer \<Rightarrow> bool" where
  "fresh_writer w \<longleftrightarrow>
     wr_out w = [] \<and> wr_findings w = 0 \<and> wr_exempted w = 0 \<and> wr_hidden w = 0 \<and> wr_suppressed w = 0 \<and> wr_notes w = []
     \<and> wr_stamps w = [] \<and> wr_watched w = []"

definition count_fates :: "(fate \<Rightarrow> bool) \<Rightarrow> (fate \<times> bool) list \<Rightarrow> int" where
  "count_fates P os = int (length (filter (\<lambda>(fa, done). P fa \<and> done) os))"

fun written :: "fate \<times> bool \<Rightarrow> Finding list" where
  "written (Written f ex, True) = [f]"
| "written _ = []"

definition is_exempted :: "fate \<Rightarrow> bool" where
  "is_exempted fa = (case fa of Written f ex \<Rightarrow> ex | _ \<Rightarrow> False)"

definition is_written :: "fate \<Rightarrow> bool" where
  "is_written fa = (case fa of Written f ex \<Rightarrow> True | _ \<Rightarrow> False)"

lemma Emit_cases:
  "case emit_fate w f of
     Hidden \<Rightarrow> Emit f w = (Inr (), w\<lparr>wr_hidden := wr_hidden w + 1\<rparr>)
   | Folded \<Rightarrow> Emit f w = (Inr (), w)
   | Malformed err \<Rightarrow> Emit f w = (Inl err, w)
   | Suppressed \<Rightarrow> Emit f w = (Inr (), w\<lparr>wr_suppressed := wr_suppressed w + 1\<rparr>)
   | Written f' ex \<Rightarrow>
       (\<exists>err out. Emit f w = (Inl err, w\<lparr>wr_out := out\<rparr>)
                  \<and> wr_write w (wr_out w) (encode_finding (wr_format w) f') \<noteq> None)
       \<or> (Emit f w = (Inr (), w\<lparr>wr_out := wr_out w @ encode_finding (wr_format w) f', wr_findings := wr_findings w + 1,
                               wr_exempted := wr_exempted w + (if ex then 1 else 0), wr_watched := wr_watched w @ [f']\<rparr>)
          \<and> wr_write w (wr_out w) (encode_finding (wr_format w) f') = None)"
  by (simp add: Emit_def out_Write_def split: fate.splits option.splits) blast

subsection \<open>The accounts\<close>

text \<open>What the counters and the watchers saw, as a function of the outcomes so far.\<close>

definition accounts :: "Writer \<Rightarrow> (fate \<times> bool) list \<Rightarrow> bool" where
  "accounts w os \<longleftrightarrow>
     wr_findings w = count_fates is_written os \<and> wr_exempted w = count_fates is_exempted os
     \<and> wr_hidden w = count_fates (\<lambda>fa. fa = Hidden) os \<and> wr_suppressed w = count_fates (\<lambda>fa. fa = Suppressed) os
     \<and> wr_watched w = concat (map written os)"

lemma count_fates_snoc: "count_fates P (os @ [(fa, done)]) = count_fates P os + (if P fa \<and> done then 1 else 0)"
  by (simp add: count_fates_def)

lemma accounts_same:
  "accounts w os \<Longrightarrow> wr_findings w' = wr_findings w \<Longrightarrow> wr_exempted w' = wr_exempted w \<Longrightarrow> wr_hidden w' = wr_hidden w
   \<Longrightarrow> wr_suppressed w' = wr_suppressed w \<Longrightarrow> wr_watched w' = wr_watched w \<Longrightarrow> accounts w' os"
  by (simp add: accounts_def)

lemma accounts_Emit: "accounts w os \<Longrightarrow> accounts (snd (Emit f w)) (os @ [(emit_fate w f, \<not> isl (fst (Emit f w)))])"
  using Emit_cases[of f w]
  by (cases "emit_fate w f") (auto simp: accounts_def count_fates_snoc is_written_def is_exempted_def)

lemma accounts_op:
  assumes "accounts w os"
  shows "accounts (snd (writer_op c w)) (os @ (case c of OpEmit f \<Rightarrow> [(emit_fate w f, \<not> isl (fst (Emit f w)))] | _ \<Rightarrow> []))"
  using assms
  by (cases c) (auto simp: accounts_Emit Stamp_def Note_def note_raw_def SetPolicy_def intro: accounts_same[OF assms])

lemma accounts_run: "accounts w os \<Longrightarrow> accounts (run_writer cs w) (os @ outcomes cs w)"
proof (induction cs arbitrary: w os)
  case (Cons c cs)
  show ?case using Cons.IH[OF accounts_op[OF Cons.prems, of c]] by simp
qed simp

lemma fresh_accounts: "fresh_writer w \<Longrightarrow> accounts w []"
  by (simp add: fresh_writer_def accounts_def count_fates_def)


lemma stamp_kind [simp]: "fg_Kind (stamp w f) = fg_Kind f"
  by (simp add: stamp_def)

lemma suppressed_by_policy:
  "emit_fate w f = Suppressed \<Longrightarrow>
     \<exists>p. wr_policy w = Some p \<and> \<not> isPolicyMetaKind (fg_Kind (wr_sanitize w f))
         \<and> \<not> fst (wp_Decide p (fg_Kind (wr_sanitize w f)) (fg_Reason (stamp w (wr_sanitize w f)))
                    (fg_Severity (stamp w (wr_sanitize w f))))"
  by (auto simp: emit_fate_def Let_def split: if_splits option.splits sum.splits prod.splits)

definition refused :: "(fate \<times> bool) list \<Rightarrow> int" where
  "refused os = int (length (filter (\<lambda>(fa, done). \<not> done) os))"

lemma outcomes_classified:
  "int (length (outcomes cs w)) =
     count_fates is_written (outcomes cs w) + count_fates (\<lambda>fa. fa = Hidden) (outcomes cs w)
     + count_fates (\<lambda>fa. fa = Suppressed) (outcomes cs w) + count_fates (\<lambda>fa. fa = Folded) (outcomes cs w) + refused (outcomes cs w)"
proof (induction cs arbitrary: w)
  case (Cons c cs)
  show ?case
  proof (cases c)
    case (OpEmit f)
    then show ?thesis
      using Cons[of "snd (Emit f w)"] Emit_cases[of f w]
      by (cases "emit_fate w f") (auto simp: count_fates_def refused_def is_written_def)
  qed (use Cons in simp_all)
qed (simp add: count_fates_def refused_def)

lemma count_fates_mono: "(\<And>fa. P fa \<Longrightarrow> Q fa) \<Longrightarrow> count_fates P os \<le> count_fates Q os"
  by (induction os) (auto simp: count_fates_def)

text \<open>
  C9: over any sequence of emits, stamps, notes and policy changes on a new writer, every finding
  a check emitted is accounted for exactly once: written and counted in \<open>findings\<close>, withheld and
  counted in \<open>hidden\<close>, disabled and counted in \<open>suppressed\<close>, folded by a composition, or refused with an
  error. The watchers saw exactly the findings that were written, in order; \<open>exempt\<close> counts those
  an exemption covers and never exceeds \<open>findings\<close>; and only a policy that disables the kind
  suppresses a finding, never one about a failed read or a composition record.
\<close>

theorem writer_accounts_for_all:
  assumes "fresh_writer w"
  shows "wr_findings (run_writer cs w) = count_fates is_written (outcomes cs w)
       \<and> wr_hidden (run_writer cs w) = count_fates (\<lambda>fa. fa = Hidden) (outcomes cs w)
       \<and> wr_suppressed (run_writer cs w) = count_fates (\<lambda>fa. fa = Suppressed) (outcomes cs w)
       \<and> int (length (outcomes cs w)) =
           wr_findings (run_writer cs w) + wr_hidden (run_writer cs w) + wr_suppressed (run_writer cs w)
           + count_fates (\<lambda>fa. fa = Folded) (outcomes cs w) + refused (outcomes cs w)
       \<and> wr_watched (run_writer cs w) = concat (map written (outcomes cs w))
       \<and> wr_exempted (run_writer cs w) = count_fates is_exempted (outcomes cs w)
       \<and> wr_exempted (run_writer cs w) \<le> wr_findings (run_writer cs w)
       \<and> (\<forall>f. emit_fate (run_writer cs w) f = Suppressed \<longrightarrow>
               (\<exists>p. wr_policy (run_writer cs w) = Some p
                    \<and> \<not> isPolicyMetaKind (fg_Kind (wr_sanitize (run_writer cs w) f))))"
proof -
  have a: "accounts (run_writer cs w) (outcomes cs w)" using accounts_run[OF fresh_accounts[OF assms], of cs] by simp
  have "count_fates is_exempted (outcomes cs w) \<le> count_fates is_written (outcomes cs w)"
    by (rule count_fates_mono) (simp add: is_exempted_def is_written_def split: fate.splits)
  then show ?thesis
    using a outcomes_classified[of cs w] suppressed_by_policy[of "run_writer cs w"] unfolding accounts_def by auto
qed

subsubsection \<open>A run\<close>

text \<open>A writer with a policy, exemptions and a restricted caller, and what it does with five findings.\<close>

definition plain_finding :: "string \<Rightarrow> string \<Rightarrow> string \<Rightarrow> Finding" where
  "plain_finding kind ns name =
     \<lparr>fg_Kind = kind, fg_Severity = ''warning'', fg_Namespace = ns, fg_KindOfObject = ''Pod'', fg_Name = name,
      fg_Reason = [], fg_Message = ''not ready'', fg_Fingerprint = [], fg_ExemptReason = [],
      fg_ExemptExpires = [], fg_Details = []\<rparr>"

definition sample_writer :: "string \<Rightarrow> Writer" where
  "sample_writer fm =
     the (NewWriter (\<lambda>_ _. None) fm (\<lambda>f. f)
       [WithExemptions (Some (\<lambda>kind ns name. if name = ''a'' then Some (''known'', ''2027'') else None)),
        WithVisibility (Some (\<lambda>ns. ns \<noteq> ''secret'')),
        SetPolicy (Some \<lparr>wp_Name = ''lite'', wp_Decide = \<lambda>kind reason sev. (kind \<noteq> ''audit.tag'', [])\<rparr>)])"

definition sample_calls :: "WriterOp list" where
  "sample_calls =
     [OpEmit (plain_finding ''state.pod'' ''shop'' ''a''), OpEmit (plain_finding ''state.pod'' ''secret'' ''b''),
      OpEmit (plain_finding ''audit.tag'' ''shop'' ''c''), OpStamp ''check'' ''pods'',
      OpEmit (plain_finding ''scan.check_failed'' ''shop'' ''d''), OpEmit (plain_finding [] ''shop'' ''e'')]"

theorem writer_accounts_for_all_witness:
  "(let w = run_writer sample_calls (sample_writer ''logfmt'') in
    (wr_findings w, wr_hidden w, wr_suppressed w, wr_exempted w) = (2, 1, 1, 1)
    \<and> map fg_Name (wr_watched w) = [''a'', ''d''])
   \<and> int (length (outcomes sample_calls (sample_writer ''logfmt''))) =
       2 + 1 + 1 + count_fates (\<lambda>fa. fa = Folded) (outcomes sample_calls (sample_writer ''logfmt''))
       + refused (outcomes sample_calls (sample_writer ''logfmt''))"
proof -
  let ?w = "run_writer sample_calls (sample_writer ''logfmt'')"
  have f: "fresh_writer (sample_writer ''logfmt'')" by code_simp
  have c: "wr_findings ?w = 2" "wr_hidden ?w = 1" "wr_suppressed ?w = 1" "wr_exempted ?w = 1"
    "map fg_Name (wr_watched ?w) = [''a'', ''d'']" by code_simp+
  show ?thesis using writer_accounts_for_all[OF f, of sample_calls] unfolding Let_def c by blast
qed

end
