(* ===== verification/ReportLaws.thy ===== *)
theory ReportLaws
  imports EmitLaws
begin

section \<open>A report reads back\<close>

text \<open>
  The two line formats of the writer against the reader of \<^verbatim>\<open>pkg/findings\<close>: every line the writer
  produces is one line, survives trimming, and parses to the pairs it encodes; the summary is
  recognised and its count agrees.
\<close>

subsection \<open>Lines\<close>

definition solid :: "string \<Rightarrow> bool" where
  "solid s \<longleftrightarrow> s \<noteq> [] \<and> \<not> is_space (hd s) \<and> \<not> is_space (last s) \<and> newline \<notin> set s"

lemma trim_solid: "solid s \<Longrightarrow> strings_TrimSpace (drop_cr s) = s"
proof -
  assume s: "solid s"
  have keep: "dropWhile is_space (c # t) = c # t" if "\<not> is_space c" for c t using that by simp
  have "last s \<noteq> CHR 0x0D" using s by (auto simp: solid_def is_space_def)
  then have "drop_cr s = s" by (simp add: drop_cr_def)
  moreover have "dropWhile is_space s = s" using s by (cases s) (auto simp: solid_def)
  moreover have "dropWhile is_space (rev s) = rev s" using s by (cases s rule: rev_cases) (auto simp: solid_def)
  ultimately show "strings_TrimSpace (drop_cr s) = s" by (simp add: strings_TrimSpace_def)
qed

lemma scan_lines_join:
  "list_all (\<lambda>l. newline \<notin> set l) ls \<Longrightarrow> scan_lines (concat (map (\<lambda>l. l @ [newline]) ls)) = ls"
proof -
  assume "list_all (\<lambda>l. newline \<notin> set l) ls"
  then have "strings_SplitByte (concat (map (\<lambda>l. l @ [newline]) ls)) newline = ls @ [[]]"
    by (induction ls) (simp_all add: strings_SplitByte_append)
  then show ?thesis by (simp add: scan_lines_def)
qed

lemma unhex_newline: "unhex newline = None" by (simp add: unhex_def newline_def)

lemma hexd_newline: "n < 16 \<Longrightarrow> hexd n \<noteq> newline"
  using unhex_hexd[of n] unhex_newline by auto

lemma quote_char_newline: "newline \<notin> set (quote_char c)"
proof -
  have h: "of_char c div 16 < (16 :: nat)" "of_char c mod 16 < (16 :: nat)"
    using nat_of_char_less_256[of c] by (simp_all add: div_less_iff_less_mult)
  show ?thesis
    using hexd_newline[OF h(1)] hexd_newline[OF h(2)]
    by (auto simp: quote_char_def Let_def newline_def dq_def bsl_def)
qed

lemma json_char_newline: "newline \<notin> set (json_char c)"
proof -
  have h: "of_char c div 16 < (16 :: nat)" "of_char c mod 16 < (16 :: nat)"
    using nat_of_char_less_256[of c] by (simp_all add: div_less_iff_less_mult)
  show ?thesis
    using hexd_newline[OF h(1)] hexd_newline[OF h(2)]
    by (auto simp: json_char_def Let_def newline_def dq_def bsl_def)
qed

lemma json_string_newline: "newline \<notin> set (json_string s)"
proof -
  have "newline \<notin> set (json_body s)"
    by (induction s rule: json_body.induct) (auto simp: json_char_newline, auto simp: newline_def bsl_def)
  then show ?thesis by (simp add: json_string_def newline_def dq_def)
qed

lemma key_newline: "keyPattern k \<Longrightarrow> newline \<notin> set k"
proof -
  assume "keyPattern k"
  then have "\<forall>c \<in> set k. key_char c" using key_chars by (simp add: list_all_iff)
  moreover have "\<not> key_char newline" by (simp add: newline_def key_char_def lower_letter_def)
  ultimately show "newline \<notin> set k" by auto
qed

lemma lower_letter_solid: "lower_letter c \<Longrightarrow> \<not> is_space c \<and> c \<noteq> CHR ''{''"
  by (auto simp: lower_letter_def is_space_def)

lemma encode_pair_solid:
  assumes "keyPattern (fd_Key p)"
  shows "solid (encode_pair p)" "lower_letter (hd (encode_pair p))"
proof -
  let ?v = "fd_Value p"
  have k: "fd_Key p \<noteq> []" "lower_letter (hd (fd_Key p))" using assms by (simp_all add: keyPattern_def)
  then show hd: "lower_letter (hd (encode_pair p))" by (simp add: encode_pair_def)
  have eq: "\<not> is_space CHR ''=''" "\<not> is_space dq" "CHR ''='' \<noteq> newline" "dq \<noteq> newline"
    by (simp_all add: is_space_def dq_def newline_def)
  have "\<not> is_space (last (encode_pair p)) \<and> newline \<notin> set (encode_pair p)"
  proof (cases "logfmtNeedsQuoting ?v")
    case True
    then show ?thesis
      using eq key_newline[OF assms] quote_char_newline by (simp add: encode_pair_def strconv_Quote_def)
  next
    case False
    have "\<not> is_space c \<and> c \<noteq> newline" if "c \<in> set ?v" for c
    proof -
      have "\<not> (of_char c :: nat) < 32" "c \<noteq> CHR '' ''"
        using False that by (auto simp: logfmtNeedsQuoting_def list_ex_iff Let_def)
      then show ?thesis by (auto simp: is_space_def newline_def)
    qed
    then show ?thesis using False eq key_newline[OF assms] by (auto simp: encode_pair_def)
  qed
  then show "solid (encode_pair p)"
    using k hd lower_letter_solid by (auto simp: solid_def encode_pair_def)
qed

lemma logfmt_solid:
  assumes "encodable ps" "ps \<noteq> []"
  shows "solid (strings_Join (map encode_pair ps) '' '') \<and> lower_letter (hd (strings_Join (map encode_pair ps) '' ''))"
  using assms
proof (induction ps)
  case (Cons p ps)
  then have p: "solid (encode_pair p)" "lower_letter (hd (encode_pair p))"
    using encode_pair_solid[of p] by (simp_all add: encodable_def)
  show ?case
  proof (cases "ps = []")
    case False
    then have "solid (strings_Join (map encode_pair ps) '' '')" using Cons by (simp add: encodable_def)
    then show ?thesis using p False by (auto simp: strings_Join_Cons solid_def newline_def)
  qed (use p in simp)
qed simp

lemma json_solid: assumes "newline \<notin> set s" shows "solid (''{'' @ s @ ''}'')"
  using assms by (simp add: solid_def newline_def is_space_def)

subsection \<open>What a line says\<close>

text \<open>A line of either format that carries the pairs \<open>ps\<close>.\<close>

definition carries :: "string \<Rightarrow> Field list \<Rightarrow> bool" where
  "carries line ps \<longleftrightarrow> solid line \<and> parseRecord line = Inr (fields_map ps [])"

lemma logfmt_carries:
  assumes "encodable ps" "ps \<noteq> []" shows "carries (butlast (EncodeLogfmt ps)) ps"
proof -
  let ?l = "strings_Join (map encode_pair ps) '' ''"
  have l: "butlast (EncodeLogfmt ps) = ?l" by (simp add: EncodeLogfmt_def)
  have s: "solid ?l" "lower_letter (hd ?l)" using logfmt_solid[OF assms] by simp_all
  then have "\<not> prefix ''{'' ?l" using lower_letter_solid by (cases ?l) auto
  then show ?thesis using s by (simp add: carries_def l parseRecord_def record_encoded[OF assms(1)])
qed

lemma Join_newline: "list_all (\<lambda>x. newline \<notin> set x) xs \<Longrightarrow> newline \<notin> set (strings_Join xs '','')"
  by (induction xs) (auto simp: strings_Join_Cons newline_def)

lemma json_carries:
  assumes "encodable ps" shows "carries (butlast (encodeJSON ps)) ps"
proof -
  let ?xs = "map (\<lambda>p. [dq] @ fd_Key p @ [dq] @ '':'' @ json_string (fd_Value p)) ps"
  have l: "butlast (encodeJSON ps) = ''{'' @ strings_Join ?xs '','' @ ''}''"
    by (simp add: encodeJSON_def butlast_append)
  have "list_all (\<lambda>x. newline \<notin> set x) ?xs"
    using assms key_newline json_string_newline by (auto simp: encodable_def list_all_iff newline_def dq_def)
  then have "solid (butlast (encodeJSON ps))" unfolding l by (rule json_solid[OF Join_newline])
  then show ?thesis using parse_encodeJSON[OF assms] by (simp add: carries_def parseRecord_def l)
qed


text \<open>A line format: any non-empty list of well-named pairs is one line, which parses to the same pairs.\<close>

locale line_format =
  fixes encode :: "Field list \<Rightarrow> string"
  assumes one_line: "encodable ps \<Longrightarrow> ps \<noteq> [] \<Longrightarrow> encode ps = butlast (encode ps) @ [newline]"
    and says: "encodable ps \<Longrightarrow> ps \<noteq> [] \<Longrightarrow> carries (butlast (encode ps)) ps"
begin

lemma record_back: "encodable ps \<Longrightarrow> ps \<noteq> [] \<Longrightarrow> parseRecord (butlast (encode ps)) = Inr (fields_map ps [])"
  using says by (simp add: carries_def)

lemma stream_back:
  assumes "list_all (\<lambda>ps. encodable ps \<and> ps \<noteq> []) pss"
  shows "map parseRecord (scan_lines (concat (map encode pss))) = map (\<lambda>ps. Inr (fields_map ps [])) pss"
proof -
  have "concat (map encode pss) = concat (map (\<lambda>l. l @ [newline]) (map (\<lambda>ps. butlast (encode ps)) pss))"
    unfolding map_map comp_def using assms one_line
    by (intro arg_cong[of _ _ concat] map_cong) (auto simp: list_all_iff)
  moreover have "list_all (\<lambda>l. newline \<notin> set l) (map (\<lambda>ps. butlast (encode ps)) pss)"
    using assms says by (auto simp: list_all_iff carries_def solid_def)
  ultimately have "scan_lines (concat (map encode pss)) = map (\<lambda>ps. butlast (encode ps)) pss"
    by (simp only: scan_lines_join)
  then show ?thesis using assms record_back by (auto simp: list_all_iff)
qed

end

interpretation logfmt_lines: line_format EncodeLogfmt
  by unfold_locales (simp_all add: logfmt_carries, simp add: EncodeLogfmt_def)

interpretation json_lines: line_format encodeJSON
  by unfold_locales (simp_all add: json_carries, simp add: encodeJSON_def butlast_append)

lemma Itoa_newline: "newline \<notin> set (strconv_Itoa n)"
proof -
  have "newline \<notin> set (decimal m)" for m
    using decimal_digits[of m] by (auto simp: list_all_iff digit_byte_def newline_def)
  then show ?thesis by (auto simp: strconv_Itoa_def newline_def)
qed

lemma json_summary_carries:
  assumes "encodable ps"
  shows "carries (butlast (encodeJSONSummary ps scanned n))
           (\<lparr>fd_Key = ''scanned'', fd_Value = strconv_Itoa scanned\<rparr>
            # \<lparr>fd_Key = ''findings'', fd_Value = strconv_Itoa n\<rparr> # drop 2 ps)"
proof -
  note l = encodeJSONSummary_members[OF assms, of scanned n]
  have "list_all (\<lambda>x. newline \<notin> set x) (map json_member (summary_members ps scanned n))"
    using assms key_newline json_string_newline Itoa_newline
    by (auto simp: summary_members_def json_member_def encodable_def list_all_iff newline_def dq_def dest: in_set_dropD)
  then have "solid (butlast (encodeJSONSummary ps scanned n))" unfolding l by (rule json_solid[OF Join_newline])
  then show ?thesis
    using parse_encodeJSONSummary[OF assms, of scanned n] l by (simp add: carries_def parseRecord_def)
qed

lemma fields_map_get:
  "gget (fields_map ps out) k =
     (case map_of (rev (map (\<lambda>p. (fd_Key p, fd_Value p)) ps)) k of None \<Rightarrow> gget out k | Some v \<Rightarrow> Some v)"
  unfolding fields_map_def
  by (induction ps rule: rev_induct) (auto simp: update_conv' split: option.splits)

text \<open>The fields an observation is made of; a detail must not reuse their keys.\<close>

definition read_keys :: "string list" where
  "read_keys = take 8 EnvelopeFields"

definition plain_details :: "Finding \<Rightarrow> bool" where
  "plain_details f = list_all (\<lambda>d. fd_Key d \<notin> set read_keys) (fg_Details f)"

lemma map_of_rev_distinct: "distinct (map fst xs) \<Longrightarrow> map_of (rev xs) k = map_of xs k"
proof (induction xs)
  case (Cons x xs)
  then have "map_of xs (fst x) = None" by (auto simp: map_of_eq_None_iff)
  with Cons show ?case by (cases x) (auto simp: map_add_def split: option.splits)
qed simp

lemma map_of_nonempty:
  "distinct (map fd_Key L) \<Longrightarrow>
   map_of (map (\<lambda>p. (fd_Key p, fd_Value p)) (filter (\<lambda>p. fd_Value p \<noteq> []) L)) k =
     (case map_of (map (\<lambda>p. (fd_Key p, fd_Value p)) L) k of None \<Rightarrow> None | Some v \<Rightarrow> if v = [] then None else Some v)"
proof (induction L)
  case (Cons p L)
  then have "map_of (map (\<lambda>p. (fd_Key p, fd_Value p)) L) (fd_Key p) = None"
    by (auto simp: map_of_eq_None_iff image_image)
  with Cons show ?case by (auto split: option.splits)
qed simp

text \<open>The envelope of a finding with its empty values.\<close>

definition envelope :: "Finding \<Rightarrow> (string \<times> string) list" where
  "envelope f =
     zip EnvelopeFields
       [fg_Kind f, fg_Severity f, fg_Namespace f, fg_KindOfObject f, fg_Name f, fg_Reason f, fg_Message f,
        fg_Fingerprint f, fg_ExemptReason f, fg_ExemptExpires f]"

definition envelope_fields :: "Finding \<Rightarrow> Field list" where
  "envelope_fields f = map (\<lambda>(k, v). \<lparr>fd_Key = k, fd_Value = v\<rparr>) (envelope f)"

lemma finding_pairs_envelope: "finding_pairs f = filter (\<lambda>p. fd_Value p \<noteq> []) (envelope_fields f @ fg_Details f)"
  by (simp only: finding_pairs_def envelope_fields_def envelope_def EnvelopeFields_def zip_Cons_Cons zip_Nil list.map prod.case)

lemma envelope_fields_pairs:
  "map (\<lambda>p. (fd_Key p, fd_Value p)) (envelope_fields f) = envelope f" "map fd_Key (envelope_fields f) = EnvelopeFields"
  by (simp_all add: envelope_fields_def envelope_def EnvelopeFields_def)

lemma finding_field:
  assumes "plain_details f" "k \<in> set read_keys"
  shows "gget (fields_map (finding_pairs f) []) k =
           (case map_of (envelope f) k of None \<Rightarrow> None | Some v \<Rightarrow> if v = [] then None else Some v)"
proof -
  let ?kv = "\<lambda>p. (fd_Key p, fd_Value p)" and ?ne = "\<lambda>p. fd_Value p \<noteq> []"
  let ?L = "envelope_fields f" and ?D = "filter ?ne (fg_Details f)"
  have "distinct EnvelopeFields" by code_simp
  then have d: "distinct (map fd_Key ?L)" by (simp add: envelope_fields_pairs)
  have d2: "distinct (map fst (map ?kv (filter ?ne ?L)))"
    using distinct_map_filter[OF d] by (simp add: comp_def)
  have "k \<notin> fst ` set (rev (map ?kv ?D))" using assms by (auto simp: plain_details_def list_all_iff)
  then have D: "map_of (rev (map ?kv ?D) @ ys) k = map_of ys k" for ys
    using map_of_eq_None_iff[of "rev (map ?kv ?D)" k] by (simp add: map_add_def)
  have "gget (fields_map (finding_pairs f) []) k = map_of (rev (map ?kv (filter ?ne ?L))) k"
    using D[of "rev (map ?kv (filter ?ne ?L))"]
    by (simp add: fields_map_get finding_pairs_envelope del: rev_map split: option.splits)
  also have "\<dots> = map_of (map ?kv (filter ?ne ?L)) k" by (rule map_of_rev_distinct[OF d2])
  finally show ?thesis unfolding map_of_nonempty[OF d] envelope_fields_pairs(1) .
qed

lemma finding_of_pairs:
  assumes "plain_details f"
  shows "finding_of (fields_map (finding_pairs f) []) = f\<lparr>fg_ExemptReason := [], fg_ExemptExpires := [], fg_Details := []\<rparr>"
proof -
  have "field_of (fields_map (finding_pairs f) []) k = (case map_of (envelope f) k of None \<Rightarrow> [] | Some v \<Rightarrow> v)"
    if "k \<in> set read_keys" for k
    using finding_field[OF assms that] by (auto simp: field_of_def split: option.splits)
  then show ?thesis
    by (simp add: finding_of_def read_keys_def EnvelopeFields_def envelope_def)
qed

lemma kind_present:
  "plain_details f \<Longrightarrow> fg_Kind f \<noteq> [] \<Longrightarrow> gget (fields_map (finding_pairs f) []) ''kind'' = Some (fg_Kind f)"
  using finding_field[of f "''kind''"] by (simp add: read_keys_def EnvelopeFields_def envelope_def)

lemma subject_fields:
  assumes "plain_details f"
  shows "field_of (fields_map (finding_pairs f) []) ''kind_of_object'' = fg_KindOfObject f"
    "field_of (fields_map (finding_pairs f) []) ''name'' = fg_Name f"
  using arg_cong[OF finding_of_pairs[OF assms], of fg_KindOfObject] arg_cong[OF finding_of_pairs[OF assms], of fg_Name]
  by (simp_all add: finding_of_def)

subsection \<open>What is on the stream\<close>

definition well_formed :: "Finding \<Rightarrow> bool" where
  "well_formed f \<longleftrightarrow> fg_Kind f \<noteq> [] \<and> list_all (\<lambda>d. keyPattern (fd_Key d)) (fg_Details f)"

lemma validated: "finding_validate f = Inr u \<longleftrightarrow> well_formed f"
proof -
  have "List.find (\<lambda>d. \<not> keyPattern (fd_Key d)) (fg_Details f) = None \<longleftrightarrow> list_all (\<lambda>d. keyPattern (fd_Key d)) (fg_Details f)"
    by (auto simp: find_None_iff list_all_iff)
  then show ?thesis by (auto simp: finding_validate_def well_formed_def split: option.splits)
qed

lemma written_well_formed: "emit_fate w f = Written f' ex \<Longrightarrow> well_formed f'"
  by (auto simp: emit_fate_def Let_def validated split: if_splits option.splits sum.splits prod.splits)
     (auto simp: well_formed_def)

lemma envelope_keys: "list_all keyPattern EnvelopeFields" by code_simp

lemma pairs_encodable: "well_formed f \<Longrightarrow> encodable (finding_pairs f) \<and> finding_pairs f \<noteq> []"
proof -
  assume w: "well_formed f"
  have "list_all keyPattern (map fd_Key (envelope_fields f))" by (simp only: envelope_fields_pairs envelope_keys)
  then have "encodable (finding_pairs f)"
    using w by (auto simp: encodable_def finding_pairs_envelope well_formed_def list_all_iff)
  moreover have "\<lparr>fd_Key = ''kind'', fd_Value = fg_Kind f\<rparr> \<in> set (finding_pairs f)"
    using w by (simp add: finding_pairs_envelope envelope_fields_def envelope_def EnvelopeFields_def well_formed_def)
  ultimately show ?thesis by auto
qed

definition reliable :: "Writer \<Rightarrow> bool" where
  "reliable w \<longleftrightarrow> (\<forall>out line. wr_write w out line = None)"

definition summary_note :: "Field \<Rightarrow> bool" where
  "summary_note n \<longleftrightarrow> keyPattern (fd_Key n) \<and> fd_Key n \<noteq> ''scanned'' \<and> fd_Key n \<noteq> ''findings''"

definition streamed :: "Format \<Rightarrow> Writer \<Rightarrow> bool" where
  "streamed fm w \<longleftrightarrow>
     wr_format w = fm \<and> reliable w \<and> wr_out w = concat (map (encode_finding fm) (wr_watched w))
     \<and> wr_findings w = int (length (wr_watched w))
     \<and> list_all well_formed (wr_watched w) \<and> list_all summary_note (wr_notes w)"

lemma put_field_keys: "x \<in> set (put_field k v fs) \<Longrightarrow> fd_Key x = k \<or> x \<in> set fs"
proof -
  assume x: "x \<in> set (put_field k v fs)"
  show ?thesis
  proof (cases "List.find (\<lambda>i. fd_Key (fs ! i) = k) [0..<length fs]")
    case (Some i)
    then have "fd_Key (fs ! i) = k" by (auto simp: find_Some_iff)
    moreover have "x = (fs ! i)\<lparr>fd_Value := v\<rparr> \<or> x \<in> set fs"
      using x Some set_update_subset_insert[of fs i "(fs ! i)\<lparr>fd_Value := v\<rparr>"] by (auto simp: put_field_def)
    ultimately show ?thesis by auto
  qed (use x in \<open>auto simp: put_field_def\<close>)
qed

lemma streamed_op: "streamed fm w \<Longrightarrow> streamed fm (snd (writer_op c w))"
proof (cases c)
  case (OpEmit f)
  assume s: "streamed fm w"
  then have "wr_write w (wr_out w) l = None" for l by (simp add: streamed_def reliable_def)
  then show ?thesis
    using s OpEmit Emit_cases[of f w] written_well_formed[of w f]
    by (cases "emit_fate w f") (auto simp: streamed_def reliable_def)
next
  case (OpNote k v)
  assume s: "streamed fm w"
  have "list_all summary_note (put_field k v (wr_notes w))"
    if "keyPattern k" "k \<notin> {''scanned'', ''findings'', ''elapsed''}"
    using s that put_field_keys[of _ k v "wr_notes w"] by (fastforce simp: streamed_def summary_note_def list_all_iff)
  then show ?thesis using s OpNote by (auto simp: Note_def note_raw_def streamed_def reliable_def)
qed (auto simp: Stamp_def SetPolicy_def streamed_def reliable_def)

lemma streamed_run: "streamed fm w \<Longrightarrow> streamed fm (run_writer cs w)"
  by (induction cs arbitrary: w) (simp_all add: streamed_op)

subsection \<open>Reading it\<close>

lemma digits_decimal: "foldl (\<lambda>v c. 10 * v + (of_char c - 48)) 0 (decimal n) = (int n)"
proof (induction n rule: decimal.induct)
  case (1 n)
  have d: "(of_char (char_of (48 + m :: nat)) :: int) - 48 = int m" if "m < 10" for m
    using digit_char[OF that] by (metis add_diff_cancel_left' of_char_of of_nat_add of_nat_numeral of_nat_of_char)
  show ?case
  proof (cases "n < 10")
    case True
    then show ?thesis using d[of n] by (simp add: decimal.simps[of n])
  next
    case False
    have "10 * int (n div 10) + int (n mod 10) = int n" by presburger
    with False show ?thesis using 1 d[of "n mod 10"] by (simp add: decimal.simps[of n])
  qed
qed

lemma Atoi_Itoa: "0 \<le> n \<Longrightarrow> n < 2 ^ 63 \<Longrightarrow> strconv_Atoi (strconv_Itoa n) = Some n"
proof -
  assume n: "0 \<le> n" "n < 2 ^ 63"
  obtain c r where c: "decimal (nat n) = c # r" "digit_byte c" using decimal_digits[of "nat n"] by (cases "decimal (nat n)") auto
  then have "\<not> prefix ''-'' (decimal (nat n))" "\<not> prefix ''+'' (decimal (nat n))" by (auto simp: digit_byte_def)
  moreover have "digits_int (decimal (nat n)) = Some n"
    using decimal_digits[of "nat n"] digits_decimal[of "nat n"] n(1) by (simp add: digits_int_def)
  ultimately show ?thesis using n by (simp add: strconv_Atoi_def strconv_Itoa_def)
qed

definition has_subject :: "Finding \<Rightarrow> bool" where
  "has_subject f \<longleftrightarrow> fg_KindOfObject f \<noteq> [] \<or> fg_Name f \<noteq> []"

lemma ObservationOf_envelope:
  "ObservationOf (f\<lparr>fg_ExemptReason := [], fg_ExemptExpires := [], fg_Details := []\<rparr>) cluster = ObservationOf f cluster"
  by (simp add: ObservationOf_def)

lemma report_finding:
  assumes "carries line (finding_pairs f)" "plain_details f" "well_formed f" "length line < maxReportLine" "\<not> rs_sawSummary st"
  shows "report_line cluster n line st =
           Inr (if has_subject f then st\<lparr>rs_out := rs_out st @ [ObservationOf f cluster]\<rparr>
                else st\<lparr>rs_noSubject := rs_noSubject st + 1\<rparr>)"
proof -
  have "solid line" "parseRecord line = Inr (fields_map (finding_pairs f) [])" using assms(1) by (simp_all add: carries_def)
  moreover have "line \<noteq> []" using calculation(1) by (simp add: solid_def)
  moreover have "fg_Kind f \<noteq> []" using assms(3) by (simp add: well_formed_def)
  ultimately show ?thesis
    using assms kind_present[OF assms(2)]
    by (simp add: report_line_def trim_solid subject_fields finding_of_pairs ObservationOf_envelope has_subject_def)
qed

lemma report_findings:
  assumes "list_all (\<lambda>f. carries (line f) (finding_pairs f) \<and> plain_details f \<and> well_formed f \<and> length (line f) < maxReportLine) fs"
    and "\<not> rs_sawSummary st"
  shows "report_lines cluster n (map line fs @ rest) st =
           report_lines cluster (n + length fs) rest
             (st\<lparr>rs_out := rs_out st @ map (\<lambda>f. ObservationOf f cluster) (filter has_subject fs),
                 rs_noSubject := rs_noSubject st + int (length (filter (\<lambda>f. \<not> has_subject f) fs))\<rparr>)"
  using assms
proof (induction fs arbitrary: n st)
  case (Cons f fs)
  then have "report_line cluster (Suc n) (line f) st =
      Inr (if has_subject f then st\<lparr>rs_out := rs_out st @ [ObservationOf f cluster]\<rparr>
           else st\<lparr>rs_noSubject := rs_noSubject st + 1\<rparr>)"
    using report_finding[of "line f" f st cluster "Suc n"] by simp
  with Cons show ?case by (simp add: ac_simps)
qed simp

lemma report_summary:
  assumes "carries line ps" "length line < maxReportLine" "0 \<le> m" "m < 2 ^ 63"
    and "gget (fields_map ps []) ''kind'' = None" "gget (fields_map ps []) ''scanned'' \<noteq> None"
    and "gget (fields_map ps []) ''findings'' = Some (strconv_Itoa m)"
  shows "report_line cluster n line st = Inr (st\<lparr>rs_sawSummary := True, rs_declaredFindings := m\<rparr>)"
proof -
  have "solid line" "parseRecord line = Inr (fields_map ps [])" using assms(1) by (simp_all add: carries_def)
  moreover have "line \<noteq> []" using calculation(1) by (simp add: solid_def)
  ultimately show ?thesis
    using assms by (simp add: report_line_def trim_solid isSummary_def field_of_def Atoi_Itoa)
qed

text \<open>The pairs of a summary: no \<open>kind\<close>, and the count is the writer's.\<close>

definition own_keys :: "string list" where
  "own_keys = [''elapsed'', ''policy'', ''suppressed'', ''exempt'', ''hidden'']"

lemma summary_tail:
  assumes "list_all summary_note (wr_notes w)" "p \<in> set (drop 2 (summary_pairs scanned elapsed w))"
  shows "p \<in> set (wr_notes w) \<or> fd_Key p \<in> set own_keys"
  using assms(2) by (auto simp: summary_pairs_def own_keys_def split: option.splits if_splits)

lemma summary_get:
  assumes "list_all summary_note (wr_notes w)" "list_all (\<lambda>n. fd_Key n \<noteq> ''kind'') (wr_notes w)"
    and ps: "ps = \<lparr>fd_Key = ''scanned'', fd_Value = a\<rparr> # \<lparr>fd_Key = ''findings'', fd_Value = b\<rparr> # drop 2 (summary_pairs scanned elapsed w)"
  shows "encodable ps" "gget (fields_map ps []) ''kind'' = None" "gget (fields_map ps []) ''scanned'' = Some a"
    "gget (fields_map ps []) ''findings'' = Some b"
proof -
  let ?D = "drop 2 (summary_pairs scanned elapsed w)" and ?kv = "\<lambda>p. (fd_Key p, fd_Value p)"
  have own: "list_all keyPattern own_keys" "''kind'' \<notin> set own_keys" "''scanned'' \<notin> set own_keys" "''findings'' \<notin> set own_keys"
    by code_simp+
  have D: "keyPattern (fd_Key p) \<and> fd_Key p \<noteq> ''kind'' \<and> fd_Key p \<noteq> ''scanned'' \<and> fd_Key p \<noteq> ''findings''"
    if "p \<in> set ?D" for p
    using summary_tail[OF assms(1) that] assms(1,2) own by (auto simp: summary_note_def list_all_iff)
  then show "encodable ps" using summary_keys by (simp add: encodable_def ps list_all_iff)
  have none: "map_of (rev (map ?kv ?D)) k = None" if "k \<in> {''kind'', ''scanned'', ''findings''}" for k
    using D that by (auto simp: map_of_eq_None_iff)
  show "gget (fields_map ps []) ''kind'' = None" "gget (fields_map ps []) ''scanned'' = Some a"
    "gget (fields_map ps []) ''findings'' = Some b"
    using none[of "''kind''"] none[of "''scanned''"] none[of "''findings''"]
    by (simp_all add: fields_map_get ps map_add_def)
qed

subsection \<open>The whole report\<close>

definition ascii_only :: "string \<Rightarrow> bool" where
  "ascii_only s = list_all (\<lambda>c. (of_char c :: nat) < 128) s"

lemma fresh_streamed: "fresh_writer w \<Longrightarrow> reliable w \<Longrightarrow> streamed (wr_format w) w"
  by (simp add: fresh_writer_def streamed_def)

lemma finding_line:
  assumes "fm \<noteq> FormatFindings" "well_formed f"
  shows "encode_finding fm f = butlast (encode_finding fm f) @ [newline] \<and> carries (butlast (encode_finding fm f)) (finding_pairs f)"
  using assms pairs_encodable[OF assms(2)] logfmt_lines.one_line logfmt_lines.says json_lines.one_line json_lines.says
  by (cases fm) (auto simp: encode_finding_def)

lemma summary_line:
  assumes "streamed fm w" "fm \<noteq> FormatFindings" "list_all (\<lambda>n. fd_Key n \<noteq> ''kind'') (wr_notes w)" "wr_findings w < 2 ^ 63"
  shows "\<exists>line. Summary scanned elapsed w = (Inr (), w\<lparr>wr_out := wr_out w @ line @ [newline]\<rparr>) \<and> solid line
           \<and> (length line < maxReportLine \<longrightarrow>
                (\<forall>cluster n st. report_line cluster n line st = Inr (st\<lparr>rs_sawSummary := True, rs_declaredFindings := wr_findings w\<rparr>)))"
proof -
  let ?ps = "summary_pairs scanned elapsed w"
  let ?qs = "\<lparr>fd_Key = ''scanned'', fd_Value = strconv_Itoa scanned\<rparr>
             # \<lparr>fd_Key = ''findings'', fd_Value = strconv_Itoa (wr_findings w)\<rparr> # drop 2 ?ps"
  have qs: "?ps = ?qs" by (simp add: summary_pairs_def)
  have nt: "list_all summary_note (wr_notes w)" using assms(1) by (simp add: streamed_def)
  note g = summary_get[OF nt assms(3) refl, of "strconv_Itoa scanned" "strconv_Itoa (wr_findings w)" scanned elapsed]
  have e: "encodable ?ps" using g(1) unfolding qs[symmetric] .
  have ne: "?ps \<noteq> []" by (simp add: summary_pairs_def)
  have sum: "Summary scanned elapsed w = (Inr (), w\<lparr>wr_out := wr_out w @ l\<rparr>)"
    if "l = (case fm of FormatJSON \<Rightarrow> encodeJSONSummary ?ps scanned (wr_findings w)
             | FormatFindings \<Rightarrow> encodeFindingsSummary ?ps | FormatLogfmt \<Rightarrow> EncodeLogfmt ?ps)" for l
    using assms(1) that by (simp add: Summary_def out_Write_def streamed_def reliable_def Let_def)
  have "\<exists>line. Summary scanned elapsed w = (Inr (), w\<lparr>wr_out := wr_out w @ line @ [newline]\<rparr>) \<and> carries line ?qs"
  proof (cases fm)
    case FormatLogfmt
    then show ?thesis
      using logfmt_carries[OF e ne] sum[of "EncodeLogfmt ?ps"] unfolding qs[symmetric] by (auto simp: EncodeLogfmt_def)
  next
    case FormatJSON
    let ?x = "encodeJSONSummary ?ps scanned (wr_findings w)"
    have "butlast ?x @ [newline] = ?x" by (simp add: encodeJSONSummary_def butlast_append)
    then have "Summary scanned elapsed w = (Inr (), w\<lparr>wr_out := wr_out w @ butlast ?x @ [newline]\<rparr>)"
      using sum[of ?x] FormatJSON by simp
    then show ?thesis using json_summary_carries[OF e, of scanned "wr_findings w"] by blast
  qed (use assms(2) in simp)
  then obtain line where l: "Summary scanned elapsed w = (Inr (), w\<lparr>wr_out := wr_out w @ line @ [newline]\<rparr>)" "carries line ?qs"
    by blast
  moreover have "0 \<le> wr_findings w" using assms(1) by (simp add: streamed_def)
  ultimately show ?thesis
    using report_summary[OF l(2) _ _ assms(4) g(2) _ g(4)] g(3) by (auto simp: carries_def)
qed

text \<open>
  C7: what a writer wrote is what a differ reads. After any sequence of calls on a new writer in
  either line format, the stream closed by its summary parses without an error, and the result
  is exactly the findings that reached the stream, in order: those that name an object as
  observations, the others counted. This holds for any sanitizer, exemptions, policy,
  visibility and folds, as long as no detail reuses an envelope key, no note is called \<open>kind\<close>,
  every line fits the reader's buffer and the text is ASCII, which is where trimming and quoting
  are the ones modelled.
\<close>

theorem report_reads_back:
  assumes "fresh_writer w" "reliable w" "wr_format w \<noteq> FormatFindings"
    and "list_all plain_details (wr_watched (run_writer cs w))"
    and "list_all (\<lambda>n. fd_Key n \<noteq> ''kind'') (wr_notes (run_writer cs w))"
    and "wr_findings (run_writer cs w) < 2 ^ 63"
    and "list_all (\<lambda>l. length l < maxReportLine) (scan_lines (wr_out (snd (Summary scanned elapsed (run_writer cs w)))))"
    and "ascii_only (wr_out (snd (Summary scanned elapsed (run_writer cs w))))"
  shows "ParseReport (wr_out (snd (Summary scanned elapsed (run_writer cs w)))) cluster =
           Inr (map (\<lambda>f. ObservationOf f cluster) (filter has_subject (wr_watched (run_writer cs w))),
                int (length (filter (\<lambda>f. \<not> has_subject f) (wr_watched (run_writer cs w)))))"
proof -
  let ?w = "run_writer cs w" and ?fm = "wr_format w"
  let ?fs = "wr_watched ?w" and ?body = "\<lambda>f. butlast (encode_finding ?fm f)"
  have s: "streamed ?fm ?w" by (rule streamed_run[OF fresh_streamed[OF assms(1,2)]])
  then have wf: "list_all well_formed ?fs" and out: "wr_out ?w = concat (map (encode_finding ?fm) ?fs)"
    and cnt: "wr_findings ?w = int (length ?fs)" by (simp_all add: streamed_def)
  have line: "encode_finding ?fm f = ?body f @ [newline] \<and> carries (?body f) (finding_pairs f)" if "f \<in> set ?fs" for f
    using finding_line[OF assms(3)] wf that by (auto simp: list_all_iff)
  obtain sl where sl: "Summary scanned elapsed ?w = (Inr (), ?w\<lparr>wr_out := wr_out ?w @ sl @ [newline]\<rparr>)" "solid sl"
    and rd: "length sl < maxReportLine \<Longrightarrow>
      report_line cluster n sl st = Inr (st\<lparr>rs_sawSummary := True, rs_declaredFindings := wr_findings ?w\<rparr>)" for n st
    using summary_line[OF s assms(3,5,6), of scanned elapsed] by blast
  have "concat (map (encode_finding ?fm) ?fs) = concat (map (\<lambda>l. l @ [newline]) (map ?body ?fs))"
    unfolding map_map comp_def using line by (intro arg_cong[of _ _ concat] map_cong) auto
  then have tx: "wr_out (snd (Summary scanned elapsed ?w)) = concat (map (\<lambda>l. l @ [newline]) (map ?body ?fs @ [sl]))"
    by (simp add: sl(1) out)
  have "list_all (\<lambda>l. newline \<notin> set l) (map ?body ?fs @ [sl])"
    using line sl(2) by (auto simp: list_all_iff carries_def solid_def)
  then have ls: "scan_lines (wr_out (snd (Summary scanned elapsed ?w))) = map ?body ?fs @ [sl]"
    unfolding tx by (rule scan_lines_join)
  have "list_all (\<lambda>f. carries (?body f) (finding_pairs f) \<and> plain_details f \<and> well_formed f \<and> length (?body f) < maxReportLine) ?fs"
    and len: "length sl < maxReportLine"
    using line wf assms(4,7) unfolding ls by (auto simp: list_all_iff)
  note rf = report_findings[OF this(1), of report_start cluster 0 "[sl]"]
  have "length (filter has_subject ?fs) + length (filter (\<lambda>f. \<not> has_subject f) ?fs) = length ?fs"
    by (rule sum_length_filter_compl)
  then show ?thesis
    unfolding ParseReport_def ls using rf rd[OF len] cnt by (simp add: report_start_def del: of_nat_add add: of_nat_add[symmetric])
qed

definition sample_report :: "string \<Rightarrow> string" where
  "sample_report fm = wr_out (snd (Summary 7 0 (run_writer sample_calls (sample_writer fm))))"

theorem report_reads_back_witness:
  "ParseReport (sample_report ''json'') ''c1'' =
     Inr (map (\<lambda>f. ObservationOf f ''c1'') (filter has_subject (wr_watched (run_writer sample_calls (sample_writer ''json'')))), 0)"
proof -
  let ?w = "sample_writer ''json''"
  have h: "fresh_writer ?w" "wr_format ?w \<noteq> FormatFindings"
    "list_all plain_details (wr_watched (run_writer sample_calls ?w))"
    "list_all (\<lambda>n. fd_Key n \<noteq> ''kind'') (wr_notes (run_writer sample_calls ?w))"
    "wr_findings (run_writer sample_calls ?w) = 2"
    "length (filter (\<lambda>f. \<not> has_subject f) (wr_watched (run_writer sample_calls ?w))) = 0"
    by code_simp+
  have r: "reliable ?w" by (simp add: reliable_def sample_writer_def NewWriter_def ParseFormat_def WithExemptions_def WithVisibility_def SetPolicy_def)
  have a: "ascii_only (sample_report ''json'')" by code_simp
  have "list_all (\<lambda>l. length l < 300) (scan_lines (sample_report ''json''))" by code_simp
  then have "list_all (\<lambda>l. length l < maxReportLine) (scan_lines (sample_report ''json''))"
    by (auto simp: list_all_iff maxReportLine_def)
  then show ?thesis
    using report_reads_back[OF h(1) r h(2-4), of 7 0 "''c1''"] h(5,6) a unfolding sample_report_def by simp
qed

end
