(* ===== verification/PostureLaws.thy ===== *)
theory PostureLaws
  imports Posture ReportLaws
begin

section \<open>What a policy decides\<close>

text \<open>
  The layered evaluation of a policy against its reading as a first match, the parameters a
  detector reads against the ones a policy reports, the exemption that applies, and the stream a
  writer produces under a policy and a set of exemptions.
\<close>

subsection \<open>The layers, read from the top\<close>

text \<open>The rules that speak about a kind and reason, the strongest first.\<close>

definition speaking :: "PosturePolicy \<Rightarrow> string \<Rightarrow> string \<Rightarrow> CheckRule list" where
  "speaking p kind reason =
     (let table = (\<lambda>checks. (if reason \<noteq> [] then [gget checks (kind @ ''/'' @ reason)] else []) @ [gget checks kind]);
          prof = (case lookupProfile (pp_Profile p) of None \<Rightarrow> [] | Some prof \<Rightarrow> pf_checks prof)
      in map the (filter (\<lambda>r. r \<noteq> None) (table (pp_Checks p) @ table prof)))"

definition first_switch :: "CheckRule list \<Rightarrow> bool \<Rightarrow> bool" where
  "first_switch rules d = (case map (the \<circ> cr_Enabled) (filter (\<lambda>r. cr_Enabled r \<noteq> None) rules) of [] \<Rightarrow> d | b # _ \<Rightarrow> b)"

definition first_severity :: "CheckRule list \<Rightarrow> string \<Rightarrow> string" where
  "first_severity rules d = (case map cr_Severity (filter (\<lambda>r. cr_Severity r \<noteq> []) rules) of [] \<Rightarrow> d | s # _ \<Rightarrow> s)"

definition allowed :: "PosturePolicy \<Rightarrow> string \<Rightarrow> bool" where
  "allowed p kind =
     (case lookupProfile (pp_Profile p) of
        None \<Rightarrow> True
      | Some prof \<Rightarrow> (case pf_onlyAllowlist prof of None \<Rightarrow> True | Some ks \<Rightarrow> kind \<in> set ks))"

definition below :: "string \<Rightarrow> string \<Rightarrow> bool" where
  "below sev least = (least \<noteq> [] \<and> policy_severityRank sev < policy_severityRank least)"

lemma first_switch_Cons: "first_switch (r # rules) d = (case cr_Enabled r of None \<Rightarrow> first_switch rules d | Some b \<Rightarrow> b)"
  by (cases "cr_Enabled r") (simp_all add: first_switch_def)

lemma first_severity_Cons: "first_severity (r # rules) d = (if cr_Severity r = [] then first_severity rules d else cr_Severity r)"
  by (simp add: first_severity_def)

lemma first_Nil [simp]: "first_switch [] d = d" "first_severity [] s = s"
  by (simp_all add: first_switch_def first_severity_def)

lemma first_append:
  "first_switch (xs @ ys) d = first_switch xs (first_switch ys d)"
  "first_severity (xs @ ys) s = first_severity xs (first_severity ys s)"
  by (induction xs) (simp_all add: first_switch_Cons first_severity_Cons split: option.splits)

text \<open>One layer: its rules, the reason's before the kind's.\<close>

definition layer :: "(string \<times> CheckRule) list \<Rightarrow> string \<Rightarrow> string \<Rightarrow> CheckRule list" where
  "layer checks kind reason =
     map the (filter (\<lambda>r. r \<noteq> None)
       ((if reason \<noteq> [] then [gget checks (kind @ ''/'' @ reason)] else []) @ [gget checks kind]))"

lemma apply_checks_layer:
  "apply_checks source checks kind reason (en, sev, src) =
     (first_switch (layer checks kind reason) en, first_severity (layer checks kind reason) sev,
      if layer checks kind reason = [] then src else source)"
  by (cases "gget checks kind"; cases "gget checks (kind @ ''/'' @ reason)")
     (auto simp: apply_checks_def layer_def applyRule_def Let_def first_switch_Cons first_severity_Cons split: option.splits)

lemma speaking_layers:
  "speaking p kind reason =
     layer (pp_Checks p) kind reason
     @ (case lookupProfile (pp_Profile p) of None \<Rightarrow> [] | Some prof \<Rightarrow> layer (pf_checks prof) kind reason)"
  by (auto simp: speaking_def layer_def Let_def split: option.splits)

lemma Policy_Decide_first:
  fixes p kind reason sev0
  defines "d \<equiv> (if sev0 = [] then ''info'' else sev0)"
  defines "rules \<equiv> speaking p kind reason"
  defines "sev \<equiv> first_severity rules d"
  shows "Policy_Decide (Some p) kind reason sev0 =
           (if isUnsuppressibleKind kind then (True, d)
            else (if matchesAnyGlob (pp_flagSkip p) kind reason \<or> below sev (pp_flagMinSeverity p) then False
                  else if pp_flagOnly p \<noteq> [] then matchesAnyGlob (pp_flagOnly p) kind reason
                  else if below sev (pp_MinSeverity p) then False
                  else first_switch rules (allowed p kind), sev))"
proof -
  have nil: "matchesAnyGlob [] kind reason = False" by (simp add: matchesAnyGlob_def)
  let ?st = "case lookupProfile (pp_Profile p) of
      None \<Rightarrow> (True, d, ''default'')
    | Some prof \<Rightarrow> apply_checks ''profile'' (pf_checks prof) kind reason
        (case pf_onlyAllowlist prof of None \<Rightarrow> (True, d, ''default'') | Some ks \<Rightarrow> (kind \<in> set ks, d, ''profile''))"
  have "\<exists>src. apply_checks ''file'' (pp_Checks p) kind reason ?st = (first_switch rules (allowed p kind), sev, src)"
  proof (cases "lookupProfile (pp_Profile p)")
    case None
    then show ?thesis by (simp add: apply_checks_layer rules_def sev_def speaking_layers allowed_def)
  next
    case (Some prof)
    then show ?thesis
      by (cases "pf_onlyAllowlist prof") (simp_all add: apply_checks_layer rules_def sev_def speaking_layers first_append allowed_def)
  qed
  then obtain src where st: "apply_checks ''file'' (pp_Checks p) kind reason ?st = (first_switch rules (allowed p kind), sev, src)"
    by blast
  show ?thesis
    unfolding Policy_Decide_def decideDetailed_def d_def[symmetric] Let_def
    by (auto simp: st below_def nil split: prod.splits)
qed

text \<open>
  C13: evaluating the four layers from the bottom up is the same as asking them from the top down
  and taking the first answer. The severity is that of the first rule that names one (file
  before profile, a rule for the reason before one for the kind), else the detector's. A
  finding is dropped when \<open>--skip\<close> matches or its severity is below \<open>--min-severity\<close>; otherwise
  \<open>--only\<close> decides alone when it is given; otherwise the file's floor drops it, else the first
  rule that switches, else the profile's allow-list. Records about failed reads and
  compositions are enabled whatever the policy says.
\<close>

theorem policy_first_match:
  fixes p kind reason sev0
  defines "d \<equiv> (if sev0 = [] then ''info'' else sev0)"
  defines "rules \<equiv> speaking p kind reason"
  defines "sev \<equiv> first_severity rules d"
  shows "Policy_Decide (Some p) kind reason sev0 =
           (if isUnsuppressibleKind kind then (True, d)
            else (if matchesAnyGlob (pp_flagSkip p) kind reason \<or> below sev (pp_flagMinSeverity p) then False
                  else if pp_flagOnly p \<noteq> [] then matchesAnyGlob (pp_flagOnly p) kind reason
                  else if below sev (pp_MinSeverity p) then False
                  else first_switch rules (allowed p kind), sev))"
  unfolding d_def rules_def sev_def by (rule Policy_Decide_first)

subsection \<open>Parameters\<close>

lemma merge_get: "gget (fst (merge_params source params acc)) key = (case gget params key of None \<Rightarrow> gget (fst acc) key | Some v \<Rightarrow> Some v)"
  unfolding merge_params_def fst_conv by (induction params) (auto simp: update_conv')

lemma EffectiveParams_raw: "gget (fst (EffectiveParams po kind)) key = rawParam po kind key"
proof (cases po)
  case (Some p)
  let ?m = "merge_params ''flag'' (case gget (pp_flagParams p) kind of None \<Rightarrow> [] | Some m \<Rightarrow> m)
      (merge_params ''file'' (case gget (pp_Checks p) kind of None \<Rightarrow> [] | Some rule \<Rightarrow> cr_Params rule)
        (case lookupProfile (pp_Profile p) of
           None \<Rightarrow> ([], [])
         | Some prof \<Rightarrow> merge_params ''profile'' (case gget (pf_checks prof) kind of None \<Rightarrow> [] | Some rule \<Rightarrow> cr_Params rule) ([], [])))"
  have e: "EffectiveParams po kind = (if fst ?m = [] then ([], []) else ?m)" by (simp only: EffectiveParams_def Some Let_def option.case)
  have "gget (fst ?m) key = rawParam po kind key"
    by (auto simp: merge_get rawParam_def Some Let_def split: option.splits)
  then show ?thesis unfolding e by auto
qed (simp add: EffectiveParams_def rawParam_def)

lemma SplitByte_Join:
  "vs \<noteq> [] \<Longrightarrow> list_all (\<lambda>v. c \<notin> set v) vs \<Longrightarrow> strings_SplitByte (strings_Join vs [c]) c = vs"
proof (induction vs)
  case (Cons v vs)
  then show ?case by (cases "vs = []") (simp_all add: strings_Join_Cons strings_SplitByte_append strings_SplitByte_single)
qed simp

text \<open>One element of a list value: trimmed, not empty, without the separators.\<close>

definition set_word :: "string \<Rightarrow> bool" where
  "set_word v \<longleftrightarrow> v \<noteq> [] \<and> \<not> is_space (hd v) \<and> \<not> is_space (last v) \<and> CHR '','' \<notin> set v \<and> CHR ''='' \<notin> set v"

lemma trim_ends: "s \<noteq> [] \<Longrightarrow> \<not> is_space (hd s) \<Longrightarrow> \<not> is_space (last s) \<Longrightarrow> strings_TrimSpace s = s"
proof -
  assume s: "s \<noteq> []" "\<not> is_space (hd s)" "\<not> is_space (last s)"
  have "dropWhile is_space s = s" using s by (cases s) auto
  moreover have "dropWhile is_space (rev s) = rev s" using s by (cases s rule: rev_cases) auto
  ultimately show ?thesis by (simp add: strings_TrimSpace_def)
qed

lemma Join_words:
  "vs \<noteq> [] \<Longrightarrow> list_all set_word vs \<Longrightarrow>
   strings_Join vs '','' \<noteq> [] \<and> \<not> is_space (hd (strings_Join vs '','')) \<and> \<not> is_space (last (strings_Join vs '',''))
   \<and> CHR ''='' \<notin> set (strings_Join vs '','')"
proof (induction vs)
  case (Cons v vs)
  then show ?case by (cases "vs = []") (auto simp: strings_Join_Cons set_word_def)
qed simp

lemma Join_snoc: "xs \<noteq> [] \<Longrightarrow> strings_Join (xs @ [x]) sep = strings_Join xs sep @ sep @ x"
  by (induction xs) (auto simp: strings_Join_Cons)

lemma split_set:
  assumes "set_word v0 \<or> CHR ''='' \<in> set v0" "CHR '','' \<notin> set v0" "v0 \<noteq> []" "\<not> is_space (hd v0)" "\<not> is_space (last v0)"
    and "list_all set_word vs"
  shows "splitSetAssignments (strings_Join (v0 # vs) '','') = [strings_Join (v0 # vs) '','']"
proof -
  let ?f = "\<lambda>out part. let trimmed = strings_TrimSpace part in
              if trimmed = [] then out
              else if CHR ''='' \<in> set trimmed \<or> out = [] then out @ [trimmed]
              else butlast out @ [last out @ '','' @ trimmed]"
  have "strings_SplitByte (strings_Join (v0 # vs) '','') CHR '','' = v0 # vs"
    using assms by (intro SplitByte_Join) (auto simp: set_word_def list_all_iff)
  moreover have "?f [] v0 = [v0]" using assms trim_ends[of v0] by (simp add: Let_def)
  moreover have "foldl ?f [strings_Join xs '',''] vs = [strings_Join (xs @ vs) '','']" if "xs \<noteq> []" for xs
    using assms(6) that
  proof (induction vs arbitrary: xs)
    case (Cons v vs)
    have "strings_TrimSpace v = v" using Cons.prems by (auto simp: set_word_def intro: trim_ends)
    then have "?f [strings_Join xs '',''] v = [strings_Join (xs @ [v]) '','']"
      using Cons.prems by (simp add: Let_def set_word_def Join_snoc)
    then show ?case using Cons.IH[of "xs @ [v]"] Cons.prems by simp
  qed simp
  from this[of "[v0]"] have "foldl ?f [v0] vs = [strings_Join (v0 # vs) '','']" by simp
  ultimately show ?thesis by (simp add: splitSetAssignments_def)
qed

lemma LastIndexByte_append: "c \<notin> set b \<Longrightarrow> strings_LastIndexByte (a @ c # b) c = int (length a)"
  using strings_IndexByte_append[of c "rev b" "rev a"] by (simp add: strings_LastIndexByte_def)

text \<open>A kind and a parameter a flag can name.\<close>

definition set_target :: "string \<Rightarrow> string \<Rightarrow> bool" where
  "set_target kind param \<longleftrightarrow>
     kind \<noteq> [] \<and> \<not> is_space (hd kind) \<and> CHR ''.'' \<in> set kind \<and> CHR ''='' \<notin> set kind \<and> CHR '','' \<notin> set kind
     \<and> param \<noteq> [] \<and> \<not> is_space (last param) \<and> CHR ''.'' \<notin> set param \<and> CHR ''='' \<notin> set param \<and> CHR '','' \<notin> set param"

lemma parse_set:
  assumes "set_target kind param" "val \<noteq> []" "\<not> is_space (hd val)" "\<not> is_space (last val)"
  shows "parseSetAssignment (kind @ ''.'' @ param @ ''='' @ val) = Inr (kind, param, val)"
proof -
  let ?lhs = "kind @ CHR ''.'' # param"
  have t: "kind \<noteq> []" "param \<noteq> []" "\<not> is_space (hd kind)" "\<not> is_space (last param)" "CHR ''.'' \<in> set kind"
    "CHR ''.'' \<notin> set param" "CHR ''='' \<notin> set ?lhs"
    using assms(1) by (auto simp: set_target_def)
  have i: "strings_IndexByte (?lhs @ CHR ''='' # val) CHR ''='' = Some (length ?lhs)"
    using t(7) by (rule strings_IndexByte_append)
  have l: "strings_TrimSpace ?lhs = ?lhs" using t by (intro trim_ends) auto
  have v: "strings_TrimSpace val = val" using assms by (intro trim_ends)
  have d: "strings_LastIndexByte ?lhs CHR ''.'' = int (length kind)" using t(6) by (rule LastIndexByte_append)
  have e: "kind @ ''.'' @ param @ ''='' @ val = ?lhs @ CHR ''='' # val" by simp
  show ?thesis unfolding e parseSetAssignment_def i option.case
    using t assms(2) by (simp add: Let_def l[simplified] v d[simplified] del: append_assoc)
qed

text \<open>
  C31: what \<open>--set\<close> says is what a detector reads. A parameter set on the command line, also a list
  value with commas in it, is accepted, and reading it gives back exactly that value over
  anything the file or the profile says; no other parameter of any kind changes. For every
  policy, the merged map that \<open>audit policy\<close> shows agrees with what a detector reads, key by key.
\<close>

theorem set_flag_reads_back:
  assumes "set_target kind param" "vs \<noteq> []" "list_all set_word vs"
  shows "\<exists>p'. ApplyFlags [] [] [] [kind @ ''.'' @ param @ ''='' @ strings_Join vs '',''] p = (Inr (), p')
             \<and> rawParam (Some p') kind param = Some (strings_Join vs '','')
             \<and> (\<forall>k q. (k, q) \<noteq> (kind, param) \<longrightarrow> rawParam (Some p') k q = rawParam (Some p) k q)
             \<and> (\<forall>k q. gget (fst (EffectiveParams (Some p') k)) q = rawParam (Some p') k q)"
proof -
  let ?val = "strings_Join vs '',''" and ?tok = "kind @ ''.'' @ param @ ''='' @ strings_Join vs '',''"
  obtain v0 vs' where vs: "vs = v0 # vs'" using assms(2) by (cases vs) auto
  let ?v = "kind @ ''.'' @ param @ ''='' @ v0"
  have val: "?val \<noteq> []" "\<not> is_space (hd ?val)" "\<not> is_space (last ?val)" using Join_words[OF assms(2,3)] by auto
  have tok: "?tok = strings_Join (?v # vs') '',''" by (simp add: vs strings_Join_Cons)
  have "splitSetAssignments (strings_Join (?v # vs') '','') = [strings_Join (?v # vs') '','']"
    using assms by (intro split_set) (auto simp: vs set_word_def set_target_def)
  then have sp: "splitSetAssignments ?tok = [?tok]" by (simp only: tok)
  let ?old = "case gget (pp_flagParams p) kind of None \<Rightarrow> [] | Some m \<Rightarrow> m"
  let ?p' = "p\<lparr>pp_flagParams := gput kind (gput param ?val ?old) (pp_flagParams p)\<rparr>"
  have "apply_sets [?tok] p = (Inr (), ?p')" by (simp only: apply_sets.simps parse_set[OF assms(1) val] sum.case prod.case)
  then have "ApplyFlags [] [] [] [?tok] p = (Inr (), ?p')"
    by (simp add: ApplyFlags_def expandGlobs_def sp del: append.simps apply_sets.simps)
  moreover have "rawParam (Some ?p') kind param = Some ?val" by (simp add: rawParam_def update_conv')
  moreover have "rawParam (Some ?p') k q = rawParam (Some p) k q" if "(k, q) \<noteq> (kind, param)" for k q
    using that by (auto simp: rawParam_def update_conv' Let_def split: option.splits)
  ultimately show ?thesis using EffectiveParams_raw by blast
qed

theorem set_flag_reads_back_witness:
  "\<exists>p p'. ForProfile ''strict'' = Inr p
        \<and> ApplyFlags [] [] [] [''audit.image_floating_tag.floating_tags=latest,dev''] p = (Inr (), p')
        \<and> rawParam (Some p') ''audit.image_floating_tag'' ''floating_tags'' = Some ''latest,dev''"
proof -
  have h: "set_target ''audit.image_floating_tag'' ''floating_tags''" "[''latest'', ''dev''] \<noteq> []"
    "list_all set_word [''latest'', ''dev'']" by code_simp+
  obtain p where "ForProfile ''strict'' = Inr p" by (simp add: ForProfile_def lookupProfile_def builtinProfiles_def)
  then show ?thesis using set_flag_reads_back[OF h, of p] by auto
qed


subsection \<open>Exemptions\<close>

text \<open>The entries of a file that cover a finding and have not expired.\<close>

definition live_cover :: "gotime \<Rightarrow> string \<Rightarrow> string \<Rightarrow> string \<Rightarrow> Entry \<Rightarrow> bool" where
  "live_cover now kind namespace name e \<longleftrightarrow>
     ee_Kind e = kind \<and> now < ee_expires e \<and> entry_covers namespace name e"

lemma load_entries_index:
  "(case gget (es_byKind (load_entries now es)) kind of None \<Rightarrow> [] | Some l \<Rightarrow> l)
     = filter (\<lambda>e. ee_Kind e = kind \<and> now < ee_expires e) es"
  unfolding load_entries_def
  by (induction es rule: rev_induct) (auto simp: entry_expired_def update_conv' Let_def split: option.splits)

lemma Exempt_loaded:
  "Exempt (Some (load_entries now es)) kind namespace name =
     map_option (\<lambda>e. (ee_Reason e, ee_Expires e)) (scan_best moreSpecific None (filter (live_cover now kind namespace name) es))"
proof -
  have "filter (entry_covers namespace name) (filter (\<lambda>e. ee_Kind e = kind \<and> now < ee_expires e) es)
      = filter (live_cover now kind namespace name) es"
    by (auto simp: live_cover_def intro: filter_cong)
  then show ?thesis by (simp add: Exempt_def load_entries_index)
qed

interpretation specificity: preference moreSpecific
  by unfold_locales (auto simp: moreSpecific_def not_less split: if_splits)

text \<open>An entry that names an object is narrower than one that does not, then one that names a namespace.\<close>

definition narrower :: "Entry \<Rightarrow> Entry \<Rightarrow> bool" where
  "narrower a b \<longleftrightarrow>
     ee_Name a \<noteq> [] \<and> ee_Name b = []
     \<or> (ee_Name a = [] \<longleftrightarrow> ee_Name b = []) \<and> ee_Namespace a \<noteq> [] \<and> ee_Namespace b = []"

lemma narrower_wins: "\<not> moreSpecific a b \<Longrightarrow> \<not> narrower a b"
  by (auto simp: moreSpecific_def narrower_def split: if_splits)

text \<open>What an exemption promises: silence means no live entry covers the finding, and the one that
  speaks is one no other live entry is narrower than.\<close>

definition exemption_sound :: "gotime \<Rightarrow> Entry list \<Rightarrow> string \<Rightarrow> string \<Rightarrow> string \<Rightarrow> (string \<times> string) option \<Rightarrow> bool" where
  "exemption_sound now es kind namespace name answer =
     (case answer of
        None \<Rightarrow> list_all (\<lambda>e. \<not> live_cover now kind namespace name e) es
      | Some a \<Rightarrow>
          list_ex (\<lambda>e. live_cover now kind namespace name e \<and> a = (ee_Reason e, ee_Expires e)
                        \<and> list_all (\<lambda>e'. live_cover now kind namespace name e' \<longrightarrow> \<not> narrower e' e) es) es)"

lemma Exempt_sound: "exemption_sound now es kind namespace name (Exempt (Some (load_entries now es)) kind namespace name)"
proof (cases "scan_best moreSpecific None (filter (live_cover now kind namespace name) es)")
  case None
  then show ?thesis by (simp add: exemption_sound_def Exempt_loaded list_all_iff filter_empty_conv)
next
  case (Some b)
  have "b \<in> set (filter (live_cover now kind namespace name) es)" using scan_best_mem[OF Some] by simp
  moreover have "\<not> narrower e b" if "e \<in> set (filter (live_cover now kind namespace name) es)" for e
    using specificity.scan_optimal[OF Some] that narrower_wins by blast
  ultimately show ?thesis by (auto simp: exemption_sound_def Exempt_loaded Some list_ex_iff list_all_iff)
qed

subsection \<open>A stream under a policy\<close>

definition regraded :: "PosturePolicy \<Rightarrow> Finding \<Rightarrow> Finding" where
  "regraded p f =
     (if isUnsuppressibleKind (fg_Kind f) then f
      else f\<lparr>fg_Severity := snd (Policy_Decide (Some p) (fg_Kind f) (fg_Reason f) (fg_Severity f))\<rparr>)"

definition reported :: "PosturePolicy \<Rightarrow> Finding \<Rightarrow> bool" where
  "reported p f = fst (Policy_Decide (Some p) (fg_Kind f) (fg_Reason f) (fg_Severity f))"

definition exemption_of :: "gotime \<Rightarrow> Entry list \<Rightarrow> Finding \<Rightarrow> (string \<times> string) option" where
  "exemption_of now es f = Exempt (Some (load_entries now es)) (fg_Kind f) (fg_Namespace f) (fg_Name f)"

definition annotated :: "gotime \<Rightarrow> Entry list \<Rightarrow> Finding \<Rightarrow> Finding" where
  "annotated now es f =
     (case exemption_of now es f of None \<Rightarrow> f | Some (r, x) \<Rightarrow> f\<lparr>fg_ExemptReason := r, fg_ExemptExpires := x\<rparr>)"

definition under_policy :: "PosturePolicy \<Rightarrow> gotime \<Rightarrow> Entry list \<Rightarrow> Writer \<Rightarrow> bool" where
  "under_policy p now es w \<longleftrightarrow>
     reliable w \<and> wr_visible w = None \<and> wr_folds w = [] \<and> wr_stamps w = []
     \<and> wr_policy w = Some \<lparr>wp_Name = Policy_Name (Some p), wp_Decide = Policy_Decide (Some p)\<rparr>
     \<and> wr_exempt w = Some (Exempt (Some (load_entries now es)))"

lemma severity_never_empty: "\<not> isUnsuppressibleKind k \<Longrightarrow> snd (Policy_Decide (Some p) k r s) \<noteq> []"
proof -
  assume "\<not> isUnsuppressibleKind k"
  have "first_severity rules d \<noteq> []" if "d \<noteq> []" for rules d
    using that by (induction rules) (simp_all add: first_severity_Cons)
  then show ?thesis
    using \<open>\<not> isUnsuppressibleKind k\<close> by (simp add: Policy_Decide_first)
qed

lemma fate_under_policy:
  assumes "under_policy p now es w" "well_formed (wr_sanitize w f)"
  shows "emit_fate w f =
           (let g = regraded p (wr_sanitize w f) in
            if reported p (wr_sanitize w f) then Written (annotated now es g) (exemption_of now es g \<noteq> None) else Suppressed)"
proof -
  let ?f = "wr_sanitize w f"
  have st: "stamp w ?f = ?f" using assms(1) by (simp add: under_policy_def stamp_def)
  have v: "finding_validate ?f = Inr ()" using assms(2) by (simp add: validated)
  have meta: "isPolicyMetaKind k = isUnsuppressibleKind k" for k by (simp add: isPolicyMetaKind_def isUnsuppressibleKind_def)
  have on: "isUnsuppressibleKind (fg_Kind ?f) \<Longrightarrow> reported p ?f" by (simp add: reported_def Policy_Decide_def)
  show ?thesis
    using assms(1) on severity_never_empty[of "fg_Kind ?f" p "fg_Reason ?f" "fg_Severity ?f"]
    by (auto simp: emit_fate_def under_policy_def Let_def st v meta regraded_def reported_def annotated_def exemption_of_def
        split: option.splits prod.splits)
qed

lemma under_policy_emit:
  assumes "under_policy p now es w" "well_formed (wr_sanitize w f)"
  shows "under_policy p now es (snd (Emit f w))" "wr_sanitize (snd (Emit f w)) = wr_sanitize w" "\<not> isl (fst (Emit f w))"
proof -
  have "wr_write w (wr_out w) l = None" for l using assms(1) by (simp add: under_policy_def reliable_def)
  then show "under_policy p now es (snd (Emit f w))" "wr_sanitize (snd (Emit f w)) = wr_sanitize w" "\<not> isl (fst (Emit f w))"
    using Emit_cases[of f w] fate_under_policy[OF assms] assms(1)
    by (auto simp: Let_def under_policy_def reliable_def split: if_splits)
qed

lemma outcomes_under_policy:
  assumes "under_policy p now es w" "list_all (\<lambda>f. well_formed (wr_sanitize w f)) fs"
  shows "outcomes (map OpEmit fs) w =
           map (\<lambda>f. (let g = regraded p (wr_sanitize w f) in
                     if reported p (wr_sanitize w f) then Written (annotated now es g) (exemption_of now es g \<noteq> None)
                     else Suppressed, True)) fs"
  using assms
proof (induction fs arbitrary: w)
  case (Cons f fs)
  then have wf: "well_formed (wr_sanitize w f)" by simp
  note e = under_policy_emit[OF Cons.prems(1) wf]
  show ?case
    using Cons.IH[OF e(1)] Cons.prems(2) e(2,3) fate_under_policy[OF Cons.prems(1) wf] by simp
qed simp

text \<open>
  C14: a run under a policy and a set of exemptions reports exactly the findings the policy enables,
  in order, each with the severity the policy gives it and annotated with the exemption that
  covers it. Nothing else is dropped, in particular nothing an exemption covers; the summary's
  counters are the number of disabled findings and of exempted ones. An exemption speaks exactly
  when a live entry covers the finding, and no other live entry that covers it is narrower.
\<close>

theorem stream_under_policy:
  fixes p now es w fs
  defines "san \<equiv> wr_sanitize w" and "run \<equiv> run_writer (map OpEmit fs) w"
  assumes "fresh_writer w" "under_policy p now es w" "list_all (\<lambda>f. well_formed (wr_sanitize w f)) fs"
  shows "wr_watched run = map (annotated now es \<circ> regraded p) (filter (reported p) (map san fs))
       \<and> wr_suppressed run = int (length (filter (\<lambda>f. \<not> reported p f) (map san fs)))
       \<and> wr_exempted run =
           int (length (filter (\<lambda>f. exemption_of now es (regraded p f) \<noteq> None) (filter (reported p) (map san fs))))
       \<and> (\<forall>f. exemption_sound now es (fg_Kind f) (fg_Namespace f) (fg_Name f) (exemption_of now es f))"
proof -
  let ?os = "outcomes (map OpEmit fs) w"
  have a: "accounts run ?os" using accounts_run[OF fresh_accounts[OF assms(3)], of "map OpEmit fs"] by (simp add: run_def)
  note os = outcomes_under_policy[OF assms(4,5)]
  have "concat (map written ?os) = map (annotated now es \<circ> regraded p) (filter (reported p) (map san fs))"
    unfolding os san_def by (induction fs) (simp_all add: Let_def)
  moreover have "count_fates (\<lambda>fa. fa = Suppressed) ?os = int (length (filter (\<lambda>f. \<not> reported p f) (map san fs)))"
    unfolding os san_def count_fates_def by (induction fs) (simp_all add: Let_def)
  moreover have "count_fates is_exempted ?os =
      int (length (filter (\<lambda>f. exemption_of now es (regraded p f) \<noteq> None) (filter (reported p) (map san fs))))"
    unfolding os san_def count_fates_def by (induction fs) (simp_all add: Let_def is_exempted_def)
  ultimately show ?thesis using a Exempt_sound by (simp add: accounts_def exemption_of_def)
qed

definition tag_policy :: PosturePolicy where
  "tag_policy =
     \<lparr>pp_NameValue = ''house'', pp_Profile = ''strict'', pp_MinSeverity = [], pp_SystemNS = [],
      pp_Checks = [(''audit.no_pdb'', switch_rule False)], pp_flagOnly = [], pp_flagSkip = [], pp_flagMinSeverity = [],
      pp_flagParams = [], pp_loadedFromFile = True, pp_explicitProfile = True\<rparr>"

definition tag_entry :: "string \<Rightarrow> string \<Rightarrow> gotime \<Rightarrow> Entry" where
  "tag_entry ns why until =
     \<lparr>ee_Kind = ''audit.no_spread'', ee_Namespace = ns, ee_Name = [], ee_Reason = why, ee_Expires = ''2027-01-01'',
      ee_Owner = [], ee_expires = until\<rparr>"

definition tag_writer :: Writer where
  "tag_writer =
     the (NewWriter (\<lambda>_ _. None) ''logfmt'' (\<lambda>f. f)
       [WithExemptions (Some (Exempt (Some (load_entries 10 [tag_entry [] ''one zone'' 99, tag_entry ''shop'' ''pilot'' 99,
          tag_entry ''shop'' ''old'' 5])))),
        SetPolicy (Some \<lparr>wp_Name = Policy_Name (Some tag_policy), wp_Decide = Policy_Decide (Some tag_policy)\<rparr>)])"

definition tag_findings :: "Finding list" where
  "tag_findings =
     map (\<lambda>k. (plain_finding k ''shop'' ''web'')\<lparr>fg_Severity := ''info''\<rparr>) [''audit.no_spread'', ''audit.no_pdb'', ''scan.check_failed'']"

theorem stream_under_policy_witness:
  "map (\<lambda>f. (fg_Kind f, fg_Severity f, fg_ExemptReason f)) (wr_watched (run_writer (map OpEmit tag_findings) tag_writer))
     = [(''audit.no_spread'', ''warning'', ''pilot''), (''scan.check_failed'', ''info'', [])]
   \<and> wr_suppressed (run_writer (map OpEmit tag_findings) tag_writer) =
       int (length (filter (\<lambda>f. \<not> reported tag_policy f) tag_findings))"
proof -
  let ?es = "[tag_entry [] ''one zone'' 99, tag_entry ''shop'' ''pilot'' 99, tag_entry ''shop'' ''old'' 5]"
  have f: "fresh_writer tag_writer" by code_simp
  have san: "wr_sanitize tag_writer f = f" for f
    by (simp add: tag_writer_def NewWriter_def ParseFormat_def WithExemptions_def SetPolicy_def)
  have u: "under_policy tag_policy 10 ?es tag_writer"
    by (simp add: under_policy_def reliable_def tag_writer_def NewWriter_def ParseFormat_def WithExemptions_def SetPolicy_def)
  have "list_all well_formed tag_findings" by code_simp
  then have wf: "list_all (\<lambda>f. well_formed (wr_sanitize tag_writer f)) tag_findings" by (simp add: san)
  have "map (\<lambda>f. (fg_Kind f, fg_Severity f, fg_ExemptReason f)) (wr_watched (run_writer (map OpEmit tag_findings) tag_writer))
     = [(''audit.no_spread'', ''warning'', ''pilot''), (''scan.check_failed'', ''info'', [])]" by code_simp
  moreover have "map (wr_sanitize tag_writer) tag_findings = tag_findings" by (simp add: san map_idI)
  ultimately show ?thesis using stream_under_policy[OF f u wf] by simp
qed

end
