(* ===== verification/Cron.thy ===== *)
theory Cron
  imports Prelude
begin

section \<open>Cron schedules\<close>

text \<open>
  \<^verbatim>\<open>pkg/cronsched/cronsched.go\<close>. The cron grammar is that of \<^verbatim>\<open>github.com/robfig/cron\<close>, which is not part of
  the repository: its parser is an argument of \<open>Cron_Parse\<close>, and a parsed schedule is the function
  it has, from a time to the first activation strictly after it, 0 when there is none.
\<close>

record Schedule =
  sc_inner :: "(gotime \<Rightarrow> gotime) option"
  sc_spec :: string

definition hasZonePrefix :: "string \<Rightarrow> bool" where
  "hasZonePrefix schedule \<longleftrightarrow>
     length schedule \<ge> 3 \<and> (take 3 schedule = ''TZ='' \<or> (length schedule \<ge> 8 \<and> take 8 schedule = ''CRON_TZ=''))"

definition Cron_Parse :: "(string \<Rightarrow> (gotime \<Rightarrow> gotime) option) \<Rightarrow> string \<Rightarrow> string \<Rightarrow> Schedule option" where
  "Cron_Parse ParseStandard schedule timeZone =
     (let spec = (if timeZone \<noteq> [] then ''CRON_TZ='' @ timeZone @ '' '' @ schedule
                  else if schedule \<noteq> [] \<and> \<not> hasZonePrefix schedule then ''CRON_TZ=UTC '' @ schedule
                  else schedule)
      in map_option (\<lambda>inner. \<lparr>sc_inner = Some inner, sc_spec = (if timeZone \<noteq> [] then spec else schedule)\<rparr>)
           (ParseStandard spec))"

definition Cron_Next :: "Schedule \<Rightarrow> gotime \<Rightarrow> gotime" where
  "Cron_Next s t = (case sc_inner s of None \<Rightarrow> 0 | Some nxt \<Rightarrow> nxt t)"

definition maxWalk :: nat where "maxWalk = 10000"

text \<open>The loop of \<^verbatim>\<open>MissedSince\<close>, with the number of rounds it has left.\<close>

fun missed_walk :: "Schedule \<Rightarrow> nat \<Rightarrow> gotime \<Rightarrow> gotime \<Rightarrow> nat \<Rightarrow> nat \<times> bool" where
  "missed_walk s 0 t now n = (n, True)"
| "missed_walk s (Suc k) t now n =
     (let t' = Cron_Next s t in
      if IsZero t' \<or> now < t' then (n, False) else missed_walk s k t' now (Suc n))"

definition MissedSince :: "Schedule \<Rightarrow> gotime \<Rightarrow> gotime \<Rightarrow> nat \<times> bool" where
  "MissedSince s anchor now =
     (if sc_inner s = None \<or> IsZero anchor \<or> \<not> anchor < now then (0, False)
      else missed_walk s maxWalk anchor now 0)"

definition Overdue :: "Schedule \<Rightarrow> gotime \<Rightarrow> gotime \<Rightarrow> duration \<Rightarrow> gotime \<times> bool" where
  "Overdue s anchor now grace =
     (if sc_inner s = None \<or> IsZero anchor then (0, False)
      else (let expected = Cron_Next s anchor in
            if IsZero expected then (0, False) else (expected, \<not> now < expected + grace)))"

subsection \<open>Counting activations\<close>

text \<open>
  What the cron library documents of a schedule with the activation times \<open>A\<close>: the next one
  strictly after a time, and the zero time when there is none.
\<close>

definition activates :: "gotime set \<Rightarrow> (gotime \<Rightarrow> gotime) \<Rightarrow> bool" where
  "activates A nxt \<longleftrightarrow>
     0 \<notin> A
     \<and> (\<forall>t. if nxt t = 0 then \<forall>a \<in> A. a \<le> t else nxt t \<in> A \<and> t < nxt t \<and> (\<forall>a \<in> A. t < a \<longrightarrow> nxt t \<le> a))"

definition due :: "gotime set \<Rightarrow> gotime \<Rightarrow> gotime \<Rightarrow> gotime set" where
  "due A t now = {a \<in> A. t < a \<and> a \<le> now}"

lemma finite_due: "finite (due A t now)"
  by (rule finite_subset[of _ "{t<..now}"]) (auto simp: due_def)

lemma due_empty:
  assumes "activates A nxt" "nxt t = 0 \<or> now < nxt t" shows "due A t now = {}"
proof -
  have "(nxt t = 0 \<longrightarrow> (\<forall>a \<in> A. a \<le> t)) \<and> (nxt t \<noteq> 0 \<longrightarrow> (\<forall>a \<in> A. t < a \<longrightarrow> nxt t \<le> a))"
    using assms(1) unfolding activates_def by (metis (no_types, lifting))
  then show ?thesis using assms(2) by (fastforce simp: due_def)
qed

lemma due_next:
  assumes "activates A nxt" "nxt t \<noteq> 0" "nxt t \<le> now"
  shows "card (due A t now) = Suc (card (due A (nxt t) now))"
proof -
  have n: "nxt t \<in> A" "t < nxt t" "\<forall>a \<in> A. t < a \<longrightarrow> nxt t \<le> a"
    using assms(1,2) unfolding activates_def by (metis (no_types, lifting))+
  then have "due A t now = insert (nxt t) (due A (nxt t) now)" using assms(3) by (force simp: due_def)
  then show ?thesis using finite_due by (simp add: due_def)
qed

lemma missed_walk_counts:
  assumes "activates A nxt" "sc_inner s = Some nxt"
  shows "missed_walk s k t now n = (n + min k (card (due A t now)), k \<le> card (due A t now))"
proof (induction k arbitrary: t n)
  case (Suc k)
  have nx: "Cron_Next s t = nxt t" using assms(2) by (simp add: Cron_Next_def)
  show ?case
  proof (cases "nxt t = 0 \<or> now < nxt t")
    case True
    then show ?thesis using due_empty[OF assms(1) True] by (auto simp: nx Let_def)
  next
    case False
    then show ?thesis using due_next[OF assms(1), of t now] Suc[of "nxt t" "Suc n"] by (simp add: nx Let_def)
  qed
qed simp

text \<open>
  C32: the walk over a schedule ends, after at most \<open>maxWalk\<close> steps and whatever the anchor, with
  the exact number of activations since the anchor, or with the ceiling and the flag that says
  so; and a schedule is overdue exactly when some activation since the anchor is at least the
  grace period old, the expected one being the first of them.
\<close>

theorem missed_is_exact:
  assumes "activates A nxt" "sc_inner s = Some nxt" "anchor \<noteq> 0"
  shows "MissedSince s anchor now = (min maxWalk (card (due A anchor now)), maxWalk \<le> card (due A anchor now))
       \<and> (snd (Overdue s anchor now grace) \<longleftrightarrow> (\<exists>a \<in> A. anchor < a \<and> a + grace \<le> now))
       \<and> (snd (Overdue s anchor now grace) \<longrightarrow>
            fst (Overdue s anchor now grace) \<in> A \<and> anchor < fst (Overdue s anchor now grace)
            \<and> (\<forall>a \<in> A. anchor < a \<longrightarrow> fst (Overdue s anchor now grace) \<le> a))"
proof -
  have nx: "Cron_Next s anchor = nxt anchor" using assms(2) by (simp add: Cron_Next_def)
  have first: "if nxt anchor = 0 then \<forall>a \<in> A. a \<le> anchor
      else nxt anchor \<in> A \<and> anchor < nxt anchor \<and> (\<forall>a \<in> A. anchor < a \<longrightarrow> nxt anchor \<le> a)"
    using assms(1) unfolding activates_def by blast
  have "MissedSince s anchor now = (min maxWalk (card (due A anchor now)), maxWalk \<le> card (due A anchor now))"
  proof (cases "anchor < now")
    case True
    then show ?thesis using assms missed_walk_counts[OF assms(1,2), of maxWalk anchor now 0] by (simp add: MissedSince_def)
  next
    case False
    then have "due A anchor now = {}" by (auto simp: due_def)
    with False show ?thesis by (simp add: MissedSince_def maxWalk_def)
  qed
  moreover have "snd (Overdue s anchor now grace) \<longleftrightarrow> (\<exists>a \<in> A. anchor < a \<and> a + grace \<le> now)"
    using assms(2,3) first by (fastforce simp: Overdue_def nx Let_def split: if_splits)
  moreover have "snd (Overdue s anchor now grace) \<Longrightarrow> fst (Overdue s anchor now grace) = nxt anchor \<and> nxt anchor \<noteq> 0"
    using assms(2,3) by (auto simp: Overdue_def nx Let_def split: if_splits)
  ultimately show ?thesis using first by auto
qed

theorem missed_is_exact_witness:
  "\<exists>s. MissedSince s 3 30 = (3, False) \<and> card (due {a. a mod 10 = 5} 3 30) = 3 \<and> snd (Overdue s 3 30 20)"
proof -
  let ?nxt = "\<lambda>t :: int. 15 + 10 * ((t - 5) div 10)"
  let ?s = "\<lparr>sc_inner = Some ?nxt, sc_spec = ''5/10''\<rparr>" and ?A = "{a :: int. a mod 10 = 5}"
  have m: "?nxt t mod 10 = 5" for t by presburger
  have z: "?nxt t \<noteq> 0" for t by presburger
  have "?nxt t \<le> a" if "a mod 10 = 5" "t < a" for t a
  proof -
    have "(t - 5) div 10 < a div 10" using that by presburger
    then show ?thesis using that(1) by presburger
  qed
  moreover have "t < ?nxt t" for t by presburger
  ultimately have act: "activates ?A ?nxt" using m z by (simp add: activates_def)
  have inner: "sc_inner ?s = Some ?nxt" by simp
  have "due ?A 3 30 = {5, 15, 25}" by (simp add: due_def set_eq_iff) presburger
  then have c: "card (due ?A 3 30) = 3" by simp
  have "(3 :: gotime) \<noteq> 0" by simp
  note t = missed_is_exact[OF act inner this, of 30 20]
  have "MissedSince ?s 3 30 = (3, False)" unfolding t[THEN conjunct1] c by (simp add: maxWalk_def)
  moreover have "\<exists>a \<in> ?A. 3 < a \<and> a + 20 \<le> 30" by (rule bexI[of _ 5]) simp_all
  then have "snd (Overdue ?s 3 30 20)" using t[THEN conjunct2, THEN conjunct1] by blast
  ultimately show ?thesis using c by blast
qed

end
