(* ===== verification/Wire.thy ===== *)
theory Wire
  imports Emit "HOL-Library.Char_ord" "HOL-Library.List_Lexorder"
begin

section \<open>What goes on the wire: UTF-8, timestamps and JSON values\<close>

text \<open>
  The part of \<^verbatim>\<open>unicode/utf8\<close>, \<^verbatim>\<open>time\<close> and \<^verbatim>\<open>encoding/json\<close> that \<^verbatim>\<open>pkg/inject\<close> measures payloads with.
  A text is a list of bytes; \<open>utf8_chunks\<close> cuts it into the byte sequences of its runes, an
  invalid byte being a chunk of its own. A payload is a JSON value, which \<open>json_Marshal\<close> renders
  or refuses. The last part shows that the length of a rendered value inside a JSON string is a
  sum over its parts, whatever bytes the texts hold.
\<close>

subsection \<open>Runes\<close>

abbreviation byte_of :: "char \<Rightarrow> nat" where
  "byte_of c \<equiv> of_char c"

definition tail_byte :: "nat \<Rightarrow> nat \<Rightarrow> char \<Rightarrow> bool" where
  "tail_byte lo hi c = (lo \<le> byte_of c \<and> byte_of c \<le> hi)"

text \<open>The range of the second byte after each lead byte, and how many bytes the sequence has.\<close>

definition utf8_lead :: "nat \<Rightarrow> (nat \<times> nat \<times> nat) option" where
  "utf8_lead b =
     (if 194 \<le> b \<and> b \<le> 223 then Some (2, 128, 191)
      else if b = 224 then Some (3, 160, 191)
      else if b = 237 then Some (3, 128, 159)
      else if 225 \<le> b \<and> b \<le> 239 then Some (3, 128, 191)
      else if b = 240 then Some (4, 144, 191)
      else if 241 \<le> b \<and> b \<le> 243 then Some (4, 128, 191)
      else if b = 244 then Some (4, 128, 143)
      else None)"

text \<open>The width \<^verbatim>\<open>utf8.DecodeRuneInString\<close> reports for the first rune: 1 also for an invalid byte.\<close>

definition rune_width :: "string \<Rightarrow> nat" where
  "rune_width s =
     (case s of
        [] \<Rightarrow> 0
      | a # r \<Rightarrow>
          (case utf8_lead (byte_of a) of
             None \<Rightarrow> 1
           | Some (n, lo, hi) \<Rightarrow>
               (case r of
                  [] \<Rightarrow> 1
                | b # r' \<Rightarrow>
                    if tail_byte lo hi b \<and> n - 2 \<le> length r' \<and> list_all (tail_byte 128 191) (take (n - 2) r')
                    then n else 1)))"

lemma rune_width_pos: "s \<noteq> [] \<Longrightarrow> 0 < rune_width s"
  by (auto simp: rune_width_def utf8_lead_def split: list.splits option.splits if_splits)

function utf8_chunks :: "string \<Rightarrow> string list" where
  "utf8_chunks s = (if s = [] then [] else take (rune_width s) s # utf8_chunks (drop (rune_width s) s))"
  by pat_completeness auto
termination
  by (relation "measure length") (auto simp: rune_width_pos)

declare utf8_chunks.simps [simp del]

text \<open>A chunk that is one byte above the ASCII range is an invalid byte; as a rune it is U+FFFD.\<close>

definition bad_chunk :: "string \<Rightarrow> bool" where
  "bad_chunk c = (length c = 1 \<and> 128 \<le> byte_of (hd c))"

definition rune_bytes :: "string \<Rightarrow> string" where
  "rune_bytes c = (if bad_chunk c then [CHR 0xEF, CHR 0xBF, CHR 0xBD] else c)"

text \<open>\<^verbatim>\<open>string([]rune(s)[:k])\<close>.\<close>

definition rune_prefix :: "nat \<Rightarrow> string \<Rightarrow> string" where
  "rune_prefix k s = concat (map rune_bytes (take k (utf8_chunks s)))"

subsection \<open>Timestamps\<close>

text \<open>
  Time is nanoseconds from the zero \<^verbatim>\<open>time.Time\<close>, midnight of January 1, year 1, in UTC. The civil
  date counts days from March 1, year 0; a year outside four digits does not marshal.
\<close>

definition civil :: "int \<Rightarrow> int \<times> int \<times> int" where
  "civil days =
     (let z = days + 306; era = z div 146097; doe = z mod 146097;
          yoe = (doe - doe div 1460 + doe div 36524 - doe div 146096) div 365;
          doy = doe - (365 * yoe + yoe div 4 - yoe div 100);
          mp = (5 * doy + 2) div 153;
          m = (if mp < 10 then mp + 3 else mp - 9)
      in (yoe + era * 400 + (if m \<le> 2 then 1 else 0), m, doy - (153 * mp + 2) div 5 + 1))"

fun padded :: "nat \<Rightarrow> int \<Rightarrow> string" where
  "padded 0 n = []"
| "padded (Suc k) n = padded k (n div 10) @ [char_of (48 + nat (n mod 10))]"

definition rfc3339_fraction :: "int \<Rightarrow> string" where
  "rfc3339_fraction ns =
     (if ns = 0 then [] else ''.'' @ rev (dropWhile (\<lambda>c. c = CHR ''0'') (rev (padded 9 ns))))"

definition json_time :: "gotime \<Rightarrow> string option" where
  "json_time t =
     (let s = t div Second; (y, m, d) = civil (s div 86400); r = s mod 86400 in
      if 0 \<le> y \<and> y \<le> 9999 then
        Some (padded 4 y @ ''-'' @ padded 2 m @ ''-'' @ padded 2 d @ ''T'' @ padded 2 (r div 3600) @ '':''
              @ padded 2 (r div 60 mod 60) @ '':'' @ padded 2 (r mod 60) @ rfc3339_fraction (t mod Second) @ ''Z'')
      else None)"

subsection \<open>JSON values\<close>

text \<open>A number is kept as the digits it is written with.\<close>

datatype jval =
  JString string | JNumber string | JTime gotime | JBool bool | JNull
| JArray "jval list" | JObject "(string \<times> jval) list"

definition json_chunk :: "string \<Rightarrow> string" where
  "json_chunk c =
     (if bad_chunk c then bsl # ''ufffd''
      else if c = [CHR 0xE2, CHR 0x80, CHR 0xA8] then bsl # ''u2028''
      else if c = [CHR 0xE2, CHR 0x80, CHR 0xA9] then bsl # ''u2029''
      else if length c = 1 then json_char (hd c) else c)"

definition json_escape :: "string \<Rightarrow> string" where
  "json_escape s = concat (map json_chunk (utf8_chunks s))"

definition json_quoted :: "string \<Rightarrow> string" where
  "json_quoted s = dq # json_escape s @ [dq]"

fun json_ok :: "jval \<Rightarrow> bool" where
  "json_ok (JTime t) = (json_time t \<noteq> None)"
| "json_ok (JArray vs) = list_all json_ok vs"
| "json_ok (JObject ms) = list_all (\<lambda>(k, v). json_ok v) ms"
| "json_ok v = True"

fun json_text :: "jval \<Rightarrow> string" where
  "json_text (JString s) = json_quoted s"
| "json_text (JNumber s) = s"
| "json_text (JTime t) = dq # the (json_time t) @ [dq]"
| "json_text (JBool b) = (if b then ''true'' else ''false'')"
| "json_text JNull = ''null''"
| "json_text (JArray vs) = ''['' @ strings_Join (map json_text vs) '','' @ '']''"
| "json_text (JObject ms) =
     ''{'' @ strings_Join (map (\<lambda>(k, v). json_quoted k @ '':'' @ json_text v) ms) '','' @ ''}''"

definition json_Marshal :: "jval \<Rightarrow> string option" where
  "json_Marshal v = (if json_ok v then Some (json_text v) else None)"

subsection \<open>Lengths add up\<close>

text \<open>A text that ends between two runes whatever follows it.\<close>

definition whole_runes :: "string \<Rightarrow> bool" where
  "whole_runes s \<longleftrightarrow> (\<forall>t. utf8_chunks (s @ t) = utf8_chunks s @ utf8_chunks t)"

abbreviation ascii :: "string \<Rightarrow> bool" where
  "ascii s \<equiv> list_all (\<lambda>c. byte_of c < 128) s"

lemma utf8_chunks_Nil [simp]: "utf8_chunks [] = []"
  by (subst utf8_chunks.simps) simp

lemma whole_runes_Nil [simp, intro]: "whole_runes []"
  by (simp add: whole_runes_def)

lemma whole_runes_append [intro]: "whole_runes a \<Longrightarrow> whole_runes b \<Longrightarrow> whole_runes (a @ b)"
  by (simp add: whole_runes_def)

lemma whole_runes_concat: "(\<And>s. s \<in> set ss \<Longrightarrow> whole_runes s) \<Longrightarrow> whole_runes (concat ss)"
  by (induction ss) auto

lemma chunk_of_width:
  assumes "rune_width (c @ t) = length c" "c \<noteq> []"
  shows "utf8_chunks (c @ t) = c # utf8_chunks t"
  using assms by (subst utf8_chunks.simps) simp

lemma whole_runes_chunk:
  assumes "\<And>t. rune_width (c @ t) = length c" "c \<noteq> []"
  shows "whole_runes c"
proof -
  have c: "utf8_chunks (c @ t) = c # utf8_chunks t" for t using assms by (intro chunk_of_width)
  show ?thesis using c c[of "[]"] by (simp add: whole_runes_def)
qed

lemma rune_width_ascii: "byte_of a < 128 \<Longrightarrow> rune_width (a # r) = 1"
  by (simp add: rune_width_def utf8_lead_def)

lemma whole_runes_ascii: "ascii s \<Longrightarrow> whole_runes s"
proof (induction s)
  case (Cons a s)
  then have "whole_runes [a]" by (intro whole_runes_chunk) (simp_all add: rune_width_ascii)
  then show ?case using whole_runes_append[of "[a]" s] Cons by simp
qed simp

lemma rune_width_le: "rune_width s \<le> length s"
  by (auto simp: rune_width_def utf8_lead_def split: list.splits option.splits if_splits)

text \<open>The width of a multi-byte rune depends on its own bytes only.\<close>

lemma rune_width_stable:
  assumes "2 \<le> rune_width s"
  shows "rune_width (take (rune_width s) s @ t) = rune_width s"
proof (cases s)
  case (Cons a r)
  with assms obtain n lo hi b r' where n: "utf8_lead (byte_of a) = Some (n, lo, hi)" "r = b # r'"
    "rune_width s = n" "tail_byte lo hi b" "n - 2 \<le> length r'" "list_all (tail_byte 128 191) (take (n - 2) r')"
    by (auto simp: rune_width_def split: list.splits option.splits if_splits)
  obtain m where m: "n = Suc (Suc m)" using assms n(3) by (metis add_2_eq_Suc le_Suc_ex)
  have s: "s = a # b # r'" "m \<le> length r'" "list_all (tail_byte 128 191) (take m r')" using Cons n m by simp_all
  have "rune_width (a # b # take m r' @ t) = Suc (Suc m)"
    using n(1,4) s(2,3) m by (simp add: rune_width_def)
  then show ?thesis using s(1) n(3) m by simp
qed (use assms in \<open>simp add: rune_width_def\<close>)

lemma chunk_cases:
  assumes "c \<in> set (utf8_chunks s)"
  shows "(length c = 1) \<or> (2 \<le> length c \<and> whole_runes c)"
  using assms
proof (induction s rule: utf8_chunks.induct)
  case (1 s)
  have s: "s \<noteq> []" using 1(2) by auto
  have "c = take (rune_width s) s \<or> c \<in> set (utf8_chunks (drop (rune_width s) s))"
    using 1(2) s by (subst (asm) utf8_chunks.simps) simp
  then show ?case
  proof
    assume c: "c = take (rune_width s) s"
    have l: "length c = rune_width s" using c rune_width_le[of s] by simp
    show ?thesis
    proof (cases "rune_width s = 1")
      case False
      then have w: "2 \<le> rune_width s" using rune_width_pos[OF s] by simp
      have "rune_width (c @ t) = length c" for t using rune_width_stable[OF w, of t] l c by simp
      then have "whole_runes c" using l w by (intro whole_runes_chunk) auto
      then show ?thesis using l w by simp
    qed (use l in simp)
  qed (use 1(1) s in blast)
qed

lemma ascii_json_char: "byte_of c < 128 \<Longrightarrow> ascii (json_char c)"
  by (auto simp: json_char_def Let_def bsl_def dq_def hexd_def of_char_of)

lemma whole_json_chunk: "c \<in> set (utf8_chunks s) \<Longrightarrow> whole_runes (json_chunk c)"
  using chunk_cases[of c s] whole_runes_ascii[OF ascii_json_char[of "hd c"]]
  by (auto simp: json_chunk_def bad_chunk_def bsl_def not_le intro: whole_runes_ascii)

lemma whole_rune_bytes:
  assumes "c \<in> set (utf8_chunks s)"
  shows "whole_runes (rune_bytes c)"
proof (cases "bad_chunk c")
  case True
  have "rune_width ([CHR 0xEF, CHR 0xBF, CHR 0xBD] @ t) = 3" for t
    by (simp add: rune_width_def utf8_lead_def tail_byte_def)
  then have "whole_runes [CHR 0xEF, CHR 0xBF, CHR 0xBD]" by (intro whole_runes_chunk) simp_all
  then show ?thesis using True by (simp add: rune_bytes_def)
next
  case False
  then show ?thesis
    using chunk_cases[OF assms]
    by (cases c) (auto simp: rune_bytes_def bad_chunk_def intro: whole_runes_ascii)
qed

lemma whole_json_quoted: "whole_runes (json_quoted s)"
proof -
  have "whole_runes (json_escape s)"
    unfolding json_escape_def by (rule whole_runes_concat) (auto intro: whole_json_chunk)
  then show ?thesis
    using whole_runes_append[OF whole_runes_append[of "[dq]" "json_escape s"], of "[dq]"]
    by (simp add: json_quoted_def dq_def whole_runes_ascii)
qed

definition wire_cost :: "string \<Rightarrow> nat" where
  "wire_cost s = length (json_escape s)"

lemma wire_cost_append: "whole_runes a \<Longrightarrow> wire_cost (a @ b) = wire_cost a + wire_cost b"
  by (simp add: wire_cost_def json_escape_def whole_runes_def)

lemma wire_cost_ascii_plain:
  assumes "list_all (\<lambda>c. byte_of c < 128 \<and> json_char c = [c]) s"
  shows "wire_cost s = length s"
  using assms
proof (induction s)
  case (Cons a s)
  have "utf8_chunks [a] = [[a]]" using Cons.prems chunk_of_width[of "[a]" "[]"] by (simp add: rune_width_ascii)
  then have "wire_cost [a] = 1"
    using Cons.prems by (simp add: wire_cost_def json_escape_def json_chunk_def bad_chunk_def)
  moreover have "wire_cost ([a] @ s) = wire_cost [a] + wire_cost s"
    using Cons.prems by (intro wire_cost_append whole_runes_ascii) simp
  ultimately show ?case using Cons by simp
qed (simp add: wire_cost_def json_escape_def)

fun plain_numbers :: "jval \<Rightarrow> bool" where
  "plain_numbers (JNumber s) = ascii s"
| "plain_numbers (JArray vs) = list_all plain_numbers vs"
| "plain_numbers (JObject ms) = list_all (\<lambda>(k, v). plain_numbers v) ms"
| "plain_numbers v = True"

lemma ascii_padded: "ascii (padded k n)"
  by (induction k arbitrary: n) (simp_all add: of_char_of)

lemma ascii_json_time:
  assumes "json_time t = Some s"
  shows "ascii s"
proof -
  have "ascii (rfc3339_fraction n)" for n
    using ascii_padded[of 9 n] by (auto simp: rfc3339_fraction_def list_all_iff dest: set_dropWhileD)
  then show ?thesis using assms ascii_padded
    by (auto simp: json_time_def Let_def split: prod.splits if_splits)
qed

lemma whole_runes_Join: "list_all whole_runes xs \<Longrightarrow> whole_runes sep \<Longrightarrow> whole_runes (strings_Join xs sep)"
  by (induction xs sep rule: strings_Join.induct) auto

lemma whole_runes_around: "ascii a \<Longrightarrow> ascii b \<Longrightarrow> whole_runes s \<Longrightarrow> whole_runes (a @ s @ b)"
  by (simp add: whole_runes_append whole_runes_ascii)

definition member_text :: "string \<times> jval \<Rightarrow> string" where
  "member_text m = json_quoted (fst m) @ '':'' @ json_text (snd m)"

lemma object_text: "json_text (JObject ms) = ''{'' @ strings_Join (map member_text ms) '','' @ ''}''"
proof -
  have "(\<lambda>(k, v). json_quoted k @ '':'' @ json_text v) = member_text" by (auto simp: member_text_def)
  then show ?thesis by (simp only: json_text.simps)
qed

lemma whole_comma: "whole_runes '',''"
  by (simp add: whole_runes_ascii)

lemma whole_member_text: "whole_runes (json_text (snd m)) \<Longrightarrow> whole_runes (member_text m)"
  unfolding member_text_def by (intro whole_runes_append whole_json_quoted) (simp add: whole_runes_ascii)

lemma whole_json_text: "json_ok v \<Longrightarrow> plain_numbers v \<Longrightarrow> whole_runes (json_text v)"
proof (induction v)
  case (JTime t)
  then obtain s where "json_time t = Some s" by auto
  then show ?case
    using whole_runes_around[of "[dq]" "[dq]" s] whole_runes_ascii[OF ascii_json_time] by (simp add: dq_def)
next
  case (JArray vs)
  then have "whole_runes (strings_Join (map json_text vs) '','')"
    by (intro whole_runes_Join whole_runes_ascii) (auto simp: list_all_iff)
  then show ?case using whole_runes_around[of "''[''" "'']''"] by simp
next
  case (JObject ms)
  have "whole_runes (member_text m)" if "m \<in> set ms" for m
    using that JObject by (intro whole_member_text) (fastforce simp: list_all_iff)
  then have "whole_runes (strings_Join (map member_text ms) '','')"
    by (intro whole_runes_Join whole_runes_ascii) (auto simp: list_all_iff)
  then have "whole_runes (''{'' @ strings_Join (map member_text ms) '','' @ ''}'')"
    by (intro whole_runes_around) simp_all
  then show ?case by (simp only: object_text)
qed (auto simp: whole_json_quoted whole_runes_ascii)

lemma wire_cost_Nil [simp]: "wire_cost [] = 0"
  by (simp add: wire_cost_def json_escape_def)

lemma wire_cost_mark [simp]:
  "wire_cost '','' = 1" "wire_cost '':'' = 1" "wire_cost ''['' = 1" "wire_cost '']'' = 1"
  "wire_cost ''{'' = 1" "wire_cost ''}'' = 1"
  by (subst wire_cost_ascii_plain; simp add: json_char_def dq_def bsl_def)+

lemma wire_cost_Join:
  assumes "list_all whole_runes xs"
  shows "wire_cost (strings_Join xs '','') = (\<Sum>x\<leftarrow>xs. wire_cost x) + (length xs - 1)"
  using assms
  by (induction xs "'',''" rule: strings_Join.induct)
    (auto simp: wire_cost_append whole_runes_ascii simp del: append_Cons append_Nil)

lemma wire_cost_around:
  assumes "whole_runes s"
  shows "wire_cost (''['' @ s @ '']'') = 2 + wire_cost s" "wire_cost (''{'' @ s @ ''}'') = 2 + wire_cost s"
  using assms wire_cost_append[of "''[''" "s @ '']''"] wire_cost_append[of "''{''" "s @ ''}''"]
  by (simp_all add: wire_cost_append whole_runes_ascii)

text \<open>A member or an element costs itself and one separator, the closing bracket taking the last one's place.\<close>

definition member_cost :: "string \<times> jval \<Rightarrow> nat" where
  "member_cost m = wire_cost (json_quoted (fst m)) + wire_cost (json_text (snd m)) + 2"

lemma array_cost:
  assumes "json_ok (JArray vs)" "plain_numbers (JArray vs)"
  shows "wire_cost (json_text (JArray vs)) = 1 + (if vs = [] then 1 else 0) + (\<Sum>v\<leftarrow>vs. wire_cost (json_text v) + 1)"
proof -
  have w: "list_all whole_runes (map json_text vs)" using assms whole_json_text by (auto simp: list_all_iff)
  have "wire_cost (json_text (JArray vs)) = 2 + (wire_cost (strings_Join (map json_text vs) '',''))"
    using wire_cost_around(1)[OF whole_runes_Join[OF w whole_comma]] by (simp only: json_text.simps)
  also have "\<dots> = 2 + (\<Sum>v\<leftarrow>vs. wire_cost (json_text v)) + (length vs - 1)"
    using wire_cost_Join[OF w] by (simp add: comp_def)
  moreover have "(\<Sum>v\<leftarrow>vs. wire_cost (json_text v) + 1) = (\<Sum>v\<leftarrow>vs. wire_cost (json_text v)) + length vs"
    by (induction vs) simp_all
  ultimately show ?thesis by (cases vs) simp_all
qed

lemma object_cost:
  assumes "json_ok (JObject ms)" "plain_numbers (JObject ms)"
  shows "wire_cost (json_text (JObject ms)) = 1 + (if ms = [] then 1 else 0) + (\<Sum>m\<leftarrow>ms. member_cost m)"
proof -
  have v: "whole_runes (json_text (snd m))" if "m \<in> set ms" for m
    using that assms by (intro whole_json_text) (auto simp: list_all_iff)
  have w: "list_all whole_runes (map member_text ms)" using v whole_member_text by (auto simp: list_all_iff)
  have f: "member_cost m = wire_cost (member_text m) + 1" if "m \<in> set ms" for m
    using wire_cost_append[OF whole_json_quoted, of "fst m"] wire_cost_append[of "'':''" "json_text (snd m)"]
    by (simp add: member_cost_def member_text_def whole_runes_ascii)
  have "wire_cost (json_text (JObject ms)) = 2 + wire_cost (strings_Join (map member_text ms) '','')"
    using wire_cost_around(2)[OF whole_runes_Join[OF w whole_comma]] by (simp only: object_text)
  also have "\<dots> = 2 + (\<Sum>m\<leftarrow>ms. wire_cost (member_text m)) + (length ms - 1)"
    using wire_cost_Join[OF w] by (simp add: comp_def)
  moreover have "(\<Sum>m\<leftarrow>ms. member_cost m) = (\<Sum>m\<leftarrow>ms. wire_cost (member_text m)) + length ms"
    using f by (induction ms) auto
  ultimately show ?thesis by (cases ms) simp_all
qed

end
