(* ===== verification/Payloads.thy ===== *)
theory Payloads
  imports Wire
begin

section \<open>The inject payloads\<close>

text \<open>
  The wire structs of \<^verbatim>\<open>pkg/inject/payload.go\<close>, in the order of their fields, and the JSON value each of
  them marshals to: a field tagged \<^verbatim>\<open>omitempty\<close> is left out at its zero value, a nil pointer or an
  empty map likewise, and the labels are written in the order of their keys. How a \<^verbatim>\<open>float64\<close> is
  written is the argument \<open>fl\<close>.
\<close>

type_synonym labels = "(string, string) gomap"

definition fld :: "string \<Rightarrow> jval \<Rightarrow> (string \<times> jval) list" where
  "fld k v = [(k, v)]"

definition fld_str :: "string \<Rightarrow> string \<Rightarrow> (string \<times> jval) list" where
  "fld_str k s = [(k, JString s)]"

definition fld_int :: "string \<Rightarrow> int \<Rightarrow> (string \<times> jval) list" where
  "fld_int k n = [(k, JNumber (strconv_Itoa n))]"

definition opt_str :: "string \<Rightarrow> string \<Rightarrow> (string \<times> jval) list" where
  "opt_str k s = (if s = [] then [] else [(k, JString s)])"

definition opt_int :: "string \<Rightarrow> int \<Rightarrow> (string \<times> jval) list" where
  "opt_int k n = (if n = 0 then [] else [(k, JNumber (strconv_Itoa n))])"

definition opt_true :: "string \<Rightarrow> bool \<Rightarrow> (string \<times> jval) list" where
  "opt_true k b = (if b then [(k, JBool True)] else [])"

definition opt_ptr :: "string \<Rightarrow> jval option \<Rightarrow> (string \<times> jval) list" where
  "opt_ptr k v = (case v of None \<Rightarrow> [] | Some j \<Rightarrow> [(k, j)])"

definition label_keys :: "labels \<Rightarrow> string list" where
  "label_keys ls = sort (map fst ls)"

definition label_member :: "labels \<Rightarrow> string \<Rightarrow> string \<times> jval" where
  "label_member ls k = (k, JString (case gget ls k of Some v \<Rightarrow> v | None \<Rightarrow> []))"

definition opt_labels :: "labels \<Rightarrow> (string \<times> jval) list" where
  "opt_labels ls = (if ls = [] then [] else [(''labels'', JObject (map (label_member ls) (label_keys ls)))])"

subsection \<open>Attachments\<close>

record PayloadForecast =
  fc_ETA :: gotime
  fc_ConfidenceBasis :: string

record PayloadEnrichment =
  en_Bundle :: string

record PayloadQuotaDraft =
  qd_QuotaID :: string
  qd_Region :: string
  qd_Unit :: string
  qd_CurrentUsage :: rat
  qd_CurrentLimit :: rat
  qd_SuggestedLimit :: rat
  qd_SlopePerDay :: rat
  qd_Justification :: string

record PayloadContext =
  cx_ControllerRef :: string
  cx_Node :: string
  cx_Labels :: labels

definition forecast_json :: "PayloadForecast \<Rightarrow> jval" where
  "forecast_json f = JObject (fld ''eta'' (JTime (fc_ETA f)) @ fld_str ''confidence_basis'' (fc_ConfidenceBasis f))"

definition enrichment_json :: "PayloadEnrichment \<Rightarrow> jval" where
  "enrichment_json e = JObject (fld_str ''bundle'' (en_Bundle e))"

definition quota_json :: "(rat \<Rightarrow> string) \<Rightarrow> PayloadQuotaDraft \<Rightarrow> jval" where
  "quota_json fl d = JObject
     (fld_str ''quota_id'' (qd_QuotaID d) @ fld_str ''region'' (qd_Region d) @ opt_str ''unit'' (qd_Unit d)
      @ fld ''current_usage'' (JNumber (fl (qd_CurrentUsage d)))
      @ fld ''current_limit'' (JNumber (fl (qd_CurrentLimit d)))
      @ fld ''suggested_limit'' (JNumber (fl (qd_SuggestedLimit d)))
      @ fld ''slope_per_day'' (JNumber (fl (qd_SlopePerDay d)))
      @ fld_str ''justification'' (qd_Justification d))"

definition context_json :: "PayloadContext \<Rightarrow> jval" where
  "context_json c = JObject
     (opt_str ''controller_ref'' (cx_ControllerRef c) @ opt_str ''node'' (cx_Node c) @ opt_labels (cx_Labels c))"

subsection \<open>Incidents\<close>

record Payload =
  pl_Kind :: string
  pl_Reason :: string
  pl_Namespace :: string
  pl_KindOfObject :: string
  pl_Name :: string
  pl_Container :: string
  pl_UID :: string
  pl_Message :: string
  pl_Count :: int
  pl_FirstSeen :: gotime
  pl_LastSeen :: gotime
  pl_Cluster :: string
  pl_Project :: string
  pl_Region :: string
  pl_Zone :: string
  pl_PullCause :: string
  pl_Source :: string
  pl_Severity :: string
  pl_Fingerprint :: string
  pl_Context :: PayloadContext
  pl_Type :: string
  pl_Enrichment :: "PayloadEnrichment option"
  pl_Forecast :: "PayloadForecast option"
  pl_QuotaIncreaseDraft :: "PayloadQuotaDraft option"
  pl_ReasonClass :: string
  pl_RepeatCount :: int

definition Payload_json :: "(rat \<Rightarrow> string) \<Rightarrow> Payload \<Rightarrow> jval" where
  "Payload_json fl p = JObject
     (fld_str ''kind'' (pl_Kind p) @ fld_str ''reason'' (pl_Reason p) @ fld_str ''namespace'' (pl_Namespace p)
      @ fld_str ''kind_of_object'' (pl_KindOfObject p) @ fld_str ''name'' (pl_Name p)
      @ opt_str ''container'' (pl_Container p) @ fld_str ''uid'' (pl_UID p) @ fld_str ''message'' (pl_Message p)
      @ fld_int ''count'' (pl_Count p) @ fld ''first_seen'' (JTime (pl_FirstSeen p))
      @ fld ''last_seen'' (JTime (pl_LastSeen p)) @ fld_str ''cluster'' (pl_Cluster p)
      @ opt_str ''project'' (pl_Project p) @ opt_str ''region'' (pl_Region p) @ opt_str ''zone'' (pl_Zone p)
      @ opt_str ''pull_cause'' (pl_PullCause p) @ opt_str ''source'' (pl_Source p)
      @ opt_str ''severity'' (pl_Severity p) @ opt_str ''fingerprint'' (pl_Fingerprint p)
      @ fld ''context'' (context_json (pl_Context p)) @ fld_str ''type'' (pl_Type p)
      @ opt_ptr ''enrichment'' (map_option enrichment_json (pl_Enrichment p))
      @ opt_ptr ''forecast'' (map_option forecast_json (pl_Forecast p))
      @ opt_ptr ''quota_increase_draft'' (map_option (quota_json fl) (pl_QuotaIncreaseDraft p))
      @ opt_str ''reason_class'' (pl_ReasonClass p) @ opt_int ''repeat_count'' (pl_RepeatCount p))"

subsection \<open>Storms\<close>

record StormIncidentRef =
  si_Fingerprint :: string
  si_Reason :: string
  si_Namespace :: string
  si_KindOfObject :: string
  si_Name :: string
  si_UID :: string
  si_SessionID :: string
  si_ReasonClass :: string

definition StormIncidentRef_json :: "StormIncidentRef \<Rightarrow> jval" where
  "StormIncidentRef_json r = JObject
     (fld_str ''fingerprint'' (si_Fingerprint r) @ fld_str ''reason'' (si_Reason r)
      @ opt_str ''namespace'' (si_Namespace r) @ fld_str ''kind_of_object'' (si_KindOfObject r)
      @ fld_str ''name'' (si_Name r) @ fld_str ''uid'' (si_UID r) @ opt_str ''session_id'' (si_SessionID r)
      @ opt_str ''reason_class'' (si_ReasonClass r))"

text \<open>A nil slice marshals as \<^verbatim>\<open>null\<close>; the two slices of a storm are kept apart from it by an option.\<close>

record StormPayload =
  sp_Kind :: string
  sp_Fingerprint :: string
  sp_Severity :: string
  sp_Cluster :: string
  sp_AncestorKind :: string
  sp_AncestorNamespace :: string
  sp_AncestorName :: string
  sp_Reason :: string
  sp_Message :: string
  sp_AffectedCount :: int
  sp_NamespacesCount :: int
  sp_FirstSeen :: gotime
  sp_LastSeen :: gotime
  sp_Representatives :: "StormIncidentRef list option"
  sp_MemberFingerprints :: "string list option"
  sp_MemberFingerprintsTruncated :: bool
  sp_Context :: PayloadContext
  sp_Enrichment :: "PayloadEnrichment option"
  sp_KeySource :: string

definition slice_json :: "('a \<Rightarrow> jval) \<Rightarrow> 'a list option \<Rightarrow> jval" where
  "slice_json f xs = (case xs of None \<Rightarrow> JNull | Some ys \<Rightarrow> JArray (map f ys))"

definition StormPayload_json :: "StormPayload \<Rightarrow> jval" where
  "StormPayload_json p = JObject
     (fld_str ''kind'' (sp_Kind p) @ fld_str ''fingerprint'' (sp_Fingerprint p) @ fld_str ''severity'' (sp_Severity p)
      @ fld_str ''cluster'' (sp_Cluster p) @ fld_str ''ancestor_kind'' (sp_AncestorKind p)
      @ opt_str ''ancestor_namespace'' (sp_AncestorNamespace p) @ fld_str ''ancestor_name'' (sp_AncestorName p)
      @ fld_str ''reason'' (sp_Reason p) @ fld_str ''message'' (sp_Message p)
      @ fld_int ''affected_count'' (sp_AffectedCount p) @ fld_int ''namespaces_count'' (sp_NamespacesCount p)
      @ fld ''first_seen'' (JTime (sp_FirstSeen p)) @ fld ''last_seen'' (JTime (sp_LastSeen p))
      @ fld ''representative_incidents'' (slice_json StormIncidentRef_json (sp_Representatives p))
      @ fld ''member_fingerprints'' (slice_json JString (sp_MemberFingerprints p))
      @ opt_true ''member_fingerprints_truncated'' (sp_MemberFingerprintsTruncated p)
      @ fld ''context'' (context_json (sp_Context p))
      @ opt_ptr ''enrichment'' (map_option enrichment_json (sp_Enrichment p))
      @ opt_str ''key_source'' (sp_KeySource p))"

record StormMemberPayload =
  mp_Kind :: string
  mp_StormFingerprint :: string
  mp_StormSessionID :: string
  mp_AncestorKind :: string
  mp_AncestorNamespace :: string
  mp_AncestorName :: string
  mp_Cluster :: string
  mp_Message :: string
  mp_Incident :: StormIncidentRef

definition StormMemberPayload_json :: "StormMemberPayload \<Rightarrow> jval" where
  "StormMemberPayload_json p = JObject
     (fld_str ''kind'' (mp_Kind p) @ fld_str ''storm_fingerprint'' (mp_StormFingerprint p)
      @ opt_str ''storm_session_id'' (mp_StormSessionID p) @ fld_str ''ancestor_kind'' (mp_AncestorKind p)
      @ opt_str ''ancestor_namespace'' (mp_AncestorNamespace p) @ fld_str ''ancestor_name'' (mp_AncestorName p)
      @ fld_str ''cluster'' (mp_Cluster p) @ fld_str ''message'' (mp_Message p)
      @ fld ''incident'' (StormIncidentRef_json (mp_Incident p)))"

record StormUpdatePayload =
  up_Kind :: string
  up_StormFingerprint :: string
  up_AncestorKind :: string
  up_AncestorNamespace :: string
  up_AncestorName :: string
  up_Cluster :: string
  up_Message :: string
  up_AffectedCount :: int
  up_NamespacesCount :: int
  up_NewMembersSinceLast :: int

definition StormUpdatePayload_json :: "StormUpdatePayload \<Rightarrow> jval" where
  "StormUpdatePayload_json p = JObject
     (fld_str ''kind'' (up_Kind p) @ fld_str ''storm_fingerprint'' (up_StormFingerprint p)
      @ fld_str ''ancestor_kind'' (up_AncestorKind p) @ opt_str ''ancestor_namespace'' (up_AncestorNamespace p)
      @ fld_str ''ancestor_name'' (up_AncestorName p) @ fld_str ''cluster'' (up_Cluster p)
      @ fld_str ''message'' (up_Message p) @ fld_int ''affected_count'' (up_AffectedCount p)
      @ fld_int ''namespaces_count'' (up_NamespacesCount p)
      @ fld_int ''new_members_since_last'' (up_NewMembersSinceLast p))"

subsection \<open>Followups and the watchboard\<close>

record TriageRegressedPayload =
  tr_Kind :: string
  tr_Reason :: string
  tr_Namespace :: string
  tr_KindOfObject :: string
  tr_Name :: string
  tr_Container :: string
  tr_UID :: string
  tr_Fingerprint :: string
  tr_Cluster :: string
  tr_TriageStatus :: string
  tr_SeverityOverride :: string
  tr_TriageSession :: string
  tr_BaselineCount :: int
  tr_Count :: int
  tr_Factor :: int
  tr_FirstSeen :: gotime
  tr_LastSeen :: gotime
  tr_Message :: string
  tr_Context :: PayloadContext
  tr_ReasonClass :: string

definition TriageRegressedPayload_json :: "TriageRegressedPayload \<Rightarrow> jval" where
  "TriageRegressedPayload_json p = JObject
     (fld_str ''kind'' (tr_Kind p) @ fld_str ''reason'' (tr_Reason p) @ fld_str ''namespace'' (tr_Namespace p)
      @ fld_str ''kind_of_object'' (tr_KindOfObject p) @ fld_str ''name'' (tr_Name p)
      @ opt_str ''container'' (tr_Container p) @ fld_str ''uid'' (tr_UID p)
      @ fld_str ''fingerprint'' (tr_Fingerprint p) @ fld_str ''cluster'' (tr_Cluster p)
      @ fld_str ''triage_status'' (tr_TriageStatus p) @ opt_str ''severity_override'' (tr_SeverityOverride p)
      @ opt_str ''triage_session'' (tr_TriageSession p) @ fld_int ''baseline_count'' (tr_BaselineCount p)
      @ fld_int ''count'' (tr_Count p) @ fld_int ''factor'' (tr_Factor p)
      @ fld ''first_seen'' (JTime (tr_FirstSeen p)) @ fld ''last_seen'' (JTime (tr_LastSeen p))
      @ fld_str ''message'' (tr_Message p) @ fld ''context'' (context_json (tr_Context p))
      @ opt_str ''reason_class'' (tr_ReasonClass p))"

record FamilyMemberPayload =
  fm_Kind :: string
  fm_MemberKind :: string
  fm_Reason :: string
  fm_Severity :: string
  fm_Namespace :: string
  fm_KindOfObject :: string
  fm_Name :: string
  fm_UID :: string
  fm_Fingerprint :: string
  fm_Family :: string
  fm_OpenedBy :: string
  fm_Cluster :: string
  fm_SessionID :: string
  fm_Message :: string
  fm_DesignRef :: string

definition FamilyMemberPayload_json :: "FamilyMemberPayload \<Rightarrow> jval" where
  "FamilyMemberPayload_json p = JObject
     (fld_str ''kind'' (fm_Kind p) @ fld_str ''member_kind'' (fm_MemberKind p) @ fld_str ''reason'' (fm_Reason p)
      @ opt_str ''severity'' (fm_Severity p) @ opt_str ''namespace'' (fm_Namespace p)
      @ fld_str ''kind_of_object'' (fm_KindOfObject p) @ fld_str ''name'' (fm_Name p) @ fld_str ''uid'' (fm_UID p)
      @ fld_str ''fingerprint'' (fm_Fingerprint p) @ fld_str ''family'' (fm_Family p)
      @ fld_str ''opened_by'' (fm_OpenedBy p) @ fld_str ''cluster'' (fm_Cluster p)
      @ opt_str ''session_id'' (fm_SessionID p) @ fld_str ''message'' (fm_Message p)
      @ fld_str ''design_ref'' (fm_DesignRef p))"

record WatchboardEntry =
  we_Kind :: string
  we_Fingerprint :: string
  we_Reason :: string
  we_Namespace :: string
  we_KindOfObject :: string
  we_Name :: string
  we_UID :: string
  we_Count :: int
  we_FirstSeen :: gotime
  we_LastSeen :: gotime
  we_ReasonClass :: string

definition WatchboardEntry_json :: "WatchboardEntry \<Rightarrow> jval" where
  "WatchboardEntry_json e = JObject
     (fld_str ''kind'' (we_Kind e) @ fld_str ''fingerprint'' (we_Fingerprint e) @ fld_str ''reason'' (we_Reason e)
      @ opt_str ''namespace'' (we_Namespace e) @ fld_str ''kind_of_object'' (we_KindOfObject e)
      @ fld_str ''name'' (we_Name e) @ fld_str ''uid'' (we_UID e) @ fld_int ''count'' (we_Count e)
      @ fld ''first_seen'' (JTime (we_FirstSeen e)) @ fld ''last_seen'' (JTime (we_LastSeen e))
      @ opt_str ''reason_class'' (we_ReasonClass e))"

record WatchboardDigestPayload =
  dg_Kind :: string
  dg_Cluster :: string
  dg_BoardGeneration :: int
  dg_Sequence :: int
  dg_WindowStart :: gotime
  dg_WindowEnd :: gotime
  dg_Entries :: "WatchboardEntry list option"
  dg_EntriesDropped :: int

definition WatchboardDigestPayload_json :: "WatchboardDigestPayload \<Rightarrow> jval" where
  "WatchboardDigestPayload_json p = JObject
     (fld_str ''kind'' (dg_Kind p) @ fld_str ''cluster'' (dg_Cluster p)
      @ fld_int ''board_generation'' (dg_BoardGeneration p) @ fld_int ''sequence'' (dg_Sequence p)
      @ fld ''window_start'' (JTime (dg_WindowStart p)) @ fld ''window_end'' (JTime (dg_WindowEnd p))
      @ fld ''entries'' (slice_json WatchboardEntry_json (dg_Entries p))
      @ opt_int ''entries_dropped'' (dg_EntriesDropped p))"

record WatchboardRotatedPayload =
  ro_Kind :: string
  ro_Cluster :: string
  ro_BoardGeneration :: int
  ro_SuccessorSessionID :: string
  ro_InjectsCount :: int
  ro_RotatedAt :: gotime

definition WatchboardRotatedPayload_json :: "WatchboardRotatedPayload \<Rightarrow> jval" where
  "WatchboardRotatedPayload_json p = JObject
     (fld_str ''kind'' (ro_Kind p) @ fld_str ''cluster'' (ro_Cluster p)
      @ fld_int ''board_generation'' (ro_BoardGeneration p)
      @ fld_str ''successor_session_id'' (ro_SuccessorSessionID p) @ fld_int ''injects_count'' (ro_InjectsCount p)
      @ fld ''rotated_at'' (JTime (ro_RotatedAt p)))"

record ResolvedPayload =
  rp_Kind :: string
  rp_Reason :: string
  rp_Namespace :: string
  rp_KindOfObject :: string
  rp_Name :: string
  rp_Container :: string
  rp_UID :: string
  rp_Fingerprint :: string
  rp_Cluster :: string
  rp_FirstSeen :: gotime
  rp_ResolvedAt :: gotime
  rp_ClearedAfter :: string
  rp_ObservedStableFor :: string
  rp_Resolution :: string
  rp_RevertedAfter :: string
  rp_Context :: PayloadContext

definition ResolvedPayload_json :: "ResolvedPayload \<Rightarrow> jval" where
  "ResolvedPayload_json p = JObject
     (fld_str ''kind'' (rp_Kind p) @ fld_str ''reason'' (rp_Reason p) @ fld_str ''namespace'' (rp_Namespace p)
      @ fld_str ''kind_of_object'' (rp_KindOfObject p) @ fld_str ''name'' (rp_Name p)
      @ opt_str ''container'' (rp_Container p) @ fld_str ''uid'' (rp_UID p)
      @ fld_str ''fingerprint'' (rp_Fingerprint p) @ fld_str ''cluster'' (rp_Cluster p)
      @ fld ''first_seen'' (JTime (rp_FirstSeen p)) @ fld ''resolved_at'' (JTime (rp_ResolvedAt p))
      @ fld_str ''cleared_after'' (rp_ClearedAfter p) @ fld_str ''observed_stable_for'' (rp_ObservedStableFor p)
      @ fld_str ''resolution'' (rp_Resolution p) @ opt_str ''reverted_after'' (rp_RevertedAfter p)
      @ fld ''context'' (context_json (rp_Context p)))"

subsection \<open>Any payload\<close>

text \<open>
  What the sinks take as \<^verbatim>\<open>any\<close>: one of the nine structs, by value or behind a pointer that may be
  nil, or something else, known by the value it marshals to.
\<close>

datatype 'a passed = ByValue 'a | ByPointer "'a option"

datatype any_payload =
  AnyPayload "Payload passed" | AnyStorm "StormPayload passed" | AnyDigest "WatchboardDigestPayload passed"
| AnyResolved "ResolvedPayload passed" | AnyTriage "TriageRegressedPayload passed"
| AnyMember "StormMemberPayload passed" | AnyUpdate "StormUpdatePayload passed"
| AnyFamily "FamilyMemberPayload passed" | AnyRotated "WatchboardRotatedPayload passed" | AnyOther jval

fun passed_json :: "('a \<Rightarrow> jval) \<Rightarrow> 'a passed \<Rightarrow> jval" where
  "passed_json f (ByValue p) = f p"
| "passed_json f (ByPointer (Some p)) = f p"
| "passed_json f (ByPointer None) = JNull"

fun any_json :: "(rat \<Rightarrow> string) \<Rightarrow> any_payload \<Rightarrow> jval" where
  "any_json fl (AnyPayload p) = passed_json (Payload_json fl) p"
| "any_json fl (AnyStorm p) = passed_json StormPayload_json p"
| "any_json fl (AnyDigest p) = passed_json WatchboardDigestPayload_json p"
| "any_json fl (AnyResolved p) = passed_json ResolvedPayload_json p"
| "any_json fl (AnyTriage p) = passed_json TriageRegressedPayload_json p"
| "any_json fl (AnyMember p) = passed_json StormMemberPayload_json p"
| "any_json fl (AnyUpdate p) = passed_json StormUpdatePayload_json p"
| "any_json fl (AnyFamily p) = passed_json FamilyMemberPayload_json p"
| "any_json fl (AnyRotated p) = passed_json WatchboardRotatedPayload_json p"
| "any_json fl (AnyOther j) = j"

end
