(* ===== verification/Fit.thy ===== *)
theory Fit
  imports Payloads
begin

section \<open>Fitting payloads under the inject ceiling\<close>

text \<open>
  \<^verbatim>\<open>pkg/inject/fit.go\<close>: the size of a payload on the wire, the three routines that shorten a field by
  measuring, and the ladder by which each payload type sheds what carries least. A closure that
  writes a field back and measures the whole payload is a function from the new value of that
  field to the size. Each \<^verbatim>\<open>FitTo\<close> gives the shortened payload and the names of what it shed; its
  early returns are the branches of the definitions, one per stage of the ladder.
\<close>

definition MaxInjectBytes :: int where "MaxInjectBytes = 8192"

definition truncMarker :: string where
  "truncMarker = [CHR 0xE2, CHR 0x80, CHR 0xA6] @ ''[truncated]''"

definition WireSize :: "jval \<Rightarrow> int" where
  "WireSize payload =
     (case json_Marshal payload of
        None \<Rightarrow> -1
      | Some body \<Rightarrow>
          (case json_Marshal (JObject (fld_str ''message'' body)) of
             None \<Rightarrow> -1
           | Some wrapped \<Rightarrow> int (length wrapped)))"

text \<open>The binary search the routines share: the last \<open>mid\<close> that fitted, or the initial \<open>best\<close>.\<close>

function fit_search :: "(int \<Rightarrow> bool) \<Rightarrow> int \<Rightarrow> int \<Rightarrow> int \<Rightarrow> int" where
  "fit_search fits lo hi best =
     (if lo \<le> hi then
        let mid = (lo + hi) div 2 in
        if fits mid then fit_search fits (mid + 1) hi mid else fit_search fits lo (mid - 1) best
      else best)"
  by pat_completeness auto
termination
  by (relation "measure (\<lambda>(fits, lo, hi, best). nat (hi - lo + 1))") auto

declare fit_search.simps [simp del]

definition label_build :: "labels \<Rightarrow> int \<Rightarrow> labels" where
  "label_build ls n =
     (if n \<le> 0 then []
      else map (\<lambda>k. (k, case gget ls k of Some v \<Rightarrow> v | None \<Rightarrow> [])) (take (nat n) (label_keys ls)))"

definition shrinkLabels :: "labels \<Rightarrow> int \<Rightarrow> (labels \<Rightarrow> int) \<Rightarrow> labels \<times> bool" where
  "shrinkLabels ls maxBytes sz =
     (if ls = [] then (ls, False)
      else
        (let n = int (length (label_keys ls));
             best = fit_search (\<lambda>mid. sz (label_build ls mid) \<le> maxBytes) 0 n (-1);
             best' = (if best < 0 then 0 else best)
         in (label_build ls best', best' < n)))"

definition cut_text :: "string \<Rightarrow> int \<Rightarrow> string" where
  "cut_text s k = rune_prefix (nat k) s @ truncMarker"

definition shrinkText :: "string \<Rightarrow> int \<Rightarrow> (string \<Rightarrow> int) \<Rightarrow> string \<times> bool" where
  "shrinkText s maxBytes sz =
     (let best = fit_search (\<lambda>mid. sz (cut_text s mid) \<le> maxBytes) 0 (int (length (utf8_chunks s))) (-1)
      in if best < 0 then ([], s \<noteq> []) else (cut_text s best, cut_text s best \<noteq> s))"

definition shrinkFingerprints :: "string list \<Rightarrow> int \<Rightarrow> (string list \<Rightarrow> int) \<Rightarrow> string list \<times> bool" where
  "shrinkFingerprints fps maxBytes sz =
     (let best = fit_search (\<lambda>mid. sz (take (nat mid) fps) \<le> maxBytes) 0 (int (length fps)) (-1);
          best' = (if best < 0 then 0 else best)
      in (take (nat best') fps, best' < int (length fps)))"

definition noted :: "string \<Rightarrow> bool \<Rightarrow> string list \<Rightarrow> string list" where
  "noted what lost shed = (if lost then shed @ [what] else shed)"

definition with_labels :: "labels \<Rightarrow> PayloadContext \<Rightarrow> PayloadContext" where
  "with_labels ls c = c\<lparr>cx_Labels := ls\<rparr>"

subsection \<open>Incidents\<close>

abbreviation Payload_size :: "(rat \<Rightarrow> string) \<Rightarrow> Payload \<Rightarrow> int" where
  "Payload_size fl p \<equiv> WireSize (Payload_json fl p)"

definition Payload_labels :: "Payload \<Rightarrow> labels \<Rightarrow> Payload" where
  "Payload_labels p ls = p\<lparr>pl_Context := with_labels ls (pl_Context p)\<rparr>"

definition short_message :: "Payload \<Rightarrow> Payload" where
  "short_message p =
     (if length (pl_Message p) > 128 then p\<lparr>pl_Message := take 128 (pl_Message p)\<rparr> else p)"

definition Payload_fit_labels :: "(rat \<Rightarrow> string) \<Rightarrow> int \<Rightarrow> Payload \<Rightarrow> string list \<Rightarrow> Payload \<times> string list" where
  "Payload_fit_labels fl maxBytes p shed =
     (if cx_Labels (pl_Context p) \<noteq> [] then
        let (ls, lost) = shrinkLabels (cx_Labels (pl_Context p)) maxBytes (\<lambda>m. Payload_size fl (Payload_labels p m))
        in (Payload_labels p ls, noted ''labels'' (lost \<and> ''labels'' \<notin> set shed) shed)
      else (p, shed))"

definition Payload_fit_message :: "(rat \<Rightarrow> string) \<Rightarrow> int \<Rightarrow> Payload \<Rightarrow> string list \<Rightarrow> Payload \<times> string list" where
  "Payload_fit_message fl maxBytes p shed =
     (if pl_Message p \<noteq> [] then
        let (s, lost) = shrinkText (pl_Message p) maxBytes (\<lambda>s. Payload_size fl (p\<lparr>pl_Message := s\<rparr>));
            p' = p\<lparr>pl_Message := s\<rparr>; shed' = noted ''message'' lost shed
        in if Payload_size fl p' \<le> maxBytes then (p', shed') else Payload_fit_labels fl maxBytes p' shed'
      else Payload_fit_labels fl maxBytes p shed)"

definition Payload_fit_overflow :: "(rat \<Rightarrow> string) \<Rightarrow> int \<Rightarrow> Payload \<Rightarrow> string list \<Rightarrow> Payload \<times> string list" where
  "Payload_fit_overflow fl maxBytes p shed =
     (if cx_Labels (pl_Context p) \<noteq> [] \<and> Payload_size fl (short_message p) > maxBytes then
        let (ls, lost) = shrinkLabels (cx_Labels (pl_Context p)) maxBytes
              (\<lambda>m. Payload_size fl (short_message (Payload_labels p m)));
            p' = Payload_labels p ls; shed' = noted ''labels'' lost shed
        in if Payload_size fl p' \<le> maxBytes then (p', shed') else Payload_fit_message fl maxBytes p' shed'
      else Payload_fit_message fl maxBytes p shed)"

definition Payload_FitTo :: "(rat \<Rightarrow> string) \<Rightarrow> int \<Rightarrow> Payload \<Rightarrow> Payload \<times> string list" where
  "Payload_FitTo fl maxBytes p =
     (if Payload_size fl p \<le> maxBytes then (p, [])
      else if pl_Enrichment p \<noteq> None then
        let p' = p\<lparr>pl_Enrichment := None\<rparr>; shed = [''enrichment'']
        in if Payload_size fl p' \<le> maxBytes then (p', shed) else Payload_fit_overflow fl maxBytes p' shed
      else Payload_fit_overflow fl maxBytes p [])"

subsection \<open>Storms\<close>

abbreviation Storm_size :: "StormPayload \<Rightarrow> int" where
  "Storm_size p \<equiv> WireSize (StormPayload_json p)"

definition Storm_labels :: "StormPayload \<Rightarrow> labels \<Rightarrow> StormPayload" where
  "Storm_labels p ls = p\<lparr>sp_Context := with_labels ls (sp_Context p)\<rparr>"

text \<open>The setter of the fingerprint stage: the kept prefix and the flag that says it is one.\<close>

definition Storm_fingerprints :: "StormPayload \<Rightarrow> string list \<Rightarrow> string list \<Rightarrow> StormPayload" where
  "Storm_fingerprints p full fps =
     p\<lparr>sp_MemberFingerprints := Some fps, sp_MemberFingerprintsTruncated := length fps < length full\<rparr>"

definition slice_of :: "'a list option \<Rightarrow> 'a list" where
  "slice_of xs = (case xs of None \<Rightarrow> [] | Some ys \<Rightarrow> ys)"

definition Storm_fit_message :: "int \<Rightarrow> StormPayload \<Rightarrow> string list \<Rightarrow> StormPayload \<times> string list" where
  "Storm_fit_message maxBytes p shed =
     (if sp_Message p \<noteq> [] then
        let (s, lost) = shrinkText (sp_Message p) maxBytes (\<lambda>s. Storm_size (p\<lparr>sp_Message := s\<rparr>))
        in (p\<lparr>sp_Message := s\<rparr>, noted ''message'' lost shed)
      else (p, shed))"

definition Storm_fit_labels :: "int \<Rightarrow> StormPayload \<Rightarrow> string list \<Rightarrow> StormPayload \<times> string list" where
  "Storm_fit_labels maxBytes p shed =
     (if cx_Labels (sp_Context p) \<noteq> [] then
        let (ls, lost) = shrinkLabels (cx_Labels (sp_Context p)) maxBytes (\<lambda>m. Storm_size (Storm_labels p m));
            p' = Storm_labels p ls; shed' = noted ''labels'' lost shed
        in if Storm_size p' \<le> maxBytes then (p', shed') else Storm_fit_message maxBytes p' shed'
      else Storm_fit_message maxBytes p shed)"

definition Storm_fit_members :: "int \<Rightarrow> StormPayload \<Rightarrow> string list \<Rightarrow> StormPayload \<times> string list" where
  "Storm_fit_members maxBytes p shed =
     (let full = slice_of (sp_MemberFingerprints p) in
      if full \<noteq> [] then
        let (fps, lost) = shrinkFingerprints full maxBytes (\<lambda>fps. Storm_size (Storm_fingerprints p full fps));
            p' = Storm_fingerprints p full fps; shed' = noted ''member_fingerprints'' lost shed
        in if Storm_size p' \<le> maxBytes then (p', shed') else Storm_fit_labels maxBytes p' shed'
      else Storm_fit_labels maxBytes p shed)"

definition Storm_FitTo :: "int \<Rightarrow> StormPayload \<Rightarrow> StormPayload \<times> string list" where
  "Storm_FitTo maxBytes p =
     (if Storm_size p \<le> maxBytes then (p, [])
      else if sp_Enrichment p \<noteq> None then
        let p' = p\<lparr>sp_Enrichment := None\<rparr>; shed = [''enrichment'']
        in if Storm_size p' \<le> maxBytes then (p', shed) else Storm_fit_members maxBytes p' shed
      else Storm_fit_members maxBytes p [])"

subsection \<open>The other payloads\<close>

abbreviation Digest_size :: "WatchboardDigestPayload \<Rightarrow> int" where
  "Digest_size p \<equiv> WireSize (WatchboardDigestPayload_json p)"

text \<open>The newest \<open>k\<close> entries, with the count of the others.\<close>

definition Digest_newest :: "WatchboardDigestPayload \<Rightarrow> WatchboardEntry list \<Rightarrow> int \<Rightarrow> WatchboardDigestPayload" where
  "Digest_newest p full k =
     p\<lparr>dg_Entries := Some (drop (length full - nat k) full), dg_EntriesDropped := int (length full) - k\<rparr>"

definition Digest_FitTo :: "int \<Rightarrow> WatchboardDigestPayload \<Rightarrow> WatchboardDigestPayload \<times> string list" where
  "Digest_FitTo maxBytes p =
     (if Digest_size p \<le> maxBytes then (p, [])
      else
        (let full = slice_of (dg_Entries p) in
         if full = [] then (p, [])
         else
           (let best = fit_search (\<lambda>mid. Digest_size (Digest_newest p full mid) \<le> maxBytes) 0 (int (length full)) (-1);
                p' = Digest_newest p full (if best < 0 then 0 else best)
            in (p', if dg_EntriesDropped p' = 0 then [] else [''entries'']))))"

definition Resolved_labels :: "ResolvedPayload \<Rightarrow> labels \<Rightarrow> ResolvedPayload" where
  "Resolved_labels p ls = p\<lparr>rp_Context := with_labels ls (rp_Context p)\<rparr>"

definition Resolved_FitTo :: "int \<Rightarrow> ResolvedPayload \<Rightarrow> ResolvedPayload \<times> string list" where
  "Resolved_FitTo maxBytes p =
     (if WireSize (ResolvedPayload_json p) \<le> maxBytes then (p, [])
      else if cx_Labels (rp_Context p) \<noteq> [] then
        let (ls, lost) = shrinkLabels (cx_Labels (rp_Context p)) maxBytes
              (\<lambda>m. WireSize (ResolvedPayload_json (Resolved_labels p m)))
        in (Resolved_labels p ls, if lost then [''labels''] else [])
      else (p, []))"

definition Triage_labels :: "TriageRegressedPayload \<Rightarrow> labels \<Rightarrow> TriageRegressedPayload" where
  "Triage_labels p ls = p\<lparr>tr_Context := with_labels ls (tr_Context p)\<rparr>"

definition Triage_fit_message :: "int \<Rightarrow> TriageRegressedPayload \<Rightarrow> string list \<Rightarrow> TriageRegressedPayload \<times> string list" where
  "Triage_fit_message maxBytes p shed =
     (if tr_Message p \<noteq> [] then
        let (s, lost) = shrinkText (tr_Message p) maxBytes
              (\<lambda>s. WireSize (TriageRegressedPayload_json (p\<lparr>tr_Message := s\<rparr>)))
        in (p\<lparr>tr_Message := s\<rparr>, noted ''message'' lost shed)
      else (p, shed))"

definition Triage_FitTo :: "int \<Rightarrow> TriageRegressedPayload \<Rightarrow> TriageRegressedPayload \<times> string list" where
  "Triage_FitTo maxBytes p =
     (if WireSize (TriageRegressedPayload_json p) \<le> maxBytes then (p, [])
      else if cx_Labels (tr_Context p) \<noteq> [] then
        let (ls, lost) = shrinkLabels (cx_Labels (tr_Context p)) maxBytes
              (\<lambda>m. WireSize (TriageRegressedPayload_json (Triage_labels p m)));
            p' = Triage_labels p ls; shed = noted ''labels'' lost []
        in if WireSize (TriageRegressedPayload_json p') \<le> maxBytes then (p', shed)
           else Triage_fit_message maxBytes p' shed
      else Triage_fit_message maxBytes p [])"

definition Member_FitTo :: "int \<Rightarrow> StormMemberPayload \<Rightarrow> StormMemberPayload \<times> string list" where
  "Member_FitTo maxBytes p =
     (if WireSize (StormMemberPayload_json p) \<le> maxBytes then (p, [])
      else if mp_Message p \<noteq> [] then
        let (s, lost) = shrinkText (mp_Message p) maxBytes (\<lambda>s. WireSize (StormMemberPayload_json (p\<lparr>mp_Message := s\<rparr>)))
        in (p\<lparr>mp_Message := s\<rparr>, if lost then [''message''] else [])
      else (p, []))"

definition Update_FitTo :: "int \<Rightarrow> StormUpdatePayload \<Rightarrow> StormUpdatePayload \<times> string list" where
  "Update_FitTo maxBytes p =
     (if WireSize (StormUpdatePayload_json p) \<le> maxBytes then (p, [])
      else if up_Message p \<noteq> [] then
        let (s, lost) = shrinkText (up_Message p) maxBytes (\<lambda>s. WireSize (StormUpdatePayload_json (p\<lparr>up_Message := s\<rparr>)))
        in (p\<lparr>up_Message := s\<rparr>, if lost then [''message''] else [])
      else (p, []))"

definition Family_FitTo :: "int \<Rightarrow> FamilyMemberPayload \<Rightarrow> FamilyMemberPayload \<times> string list" where
  "Family_FitTo maxBytes p =
     (if WireSize (FamilyMemberPayload_json p) \<le> maxBytes then (p, [])
      else if fm_Message p \<noteq> [] then
        let (s, lost) = shrinkText (fm_Message p) maxBytes (\<lambda>s. WireSize (FamilyMemberPayload_json (p\<lparr>fm_Message := s\<rparr>)))
        in (p\<lparr>fm_Message := s\<rparr>, if lost then [''message''] else [])
      else (p, []))"

definition Rotated_FitTo :: "int \<Rightarrow> WatchboardRotatedPayload \<Rightarrow> WatchboardRotatedPayload \<times> string list" where
  "Rotated_FitTo maxBytes p = (p, [])"

text \<open>A pointer is fitted on a copy of what it points to; a nil one is passed through.\<close>

fun fit_passed :: "('a \<Rightarrow> 'a \<times> string list) \<Rightarrow> 'a passed \<Rightarrow> 'a passed \<times> string list" where
  "fit_passed fit (ByValue p) = (let (q, shed) = fit p in (ByValue q, shed))"
| "fit_passed fit (ByPointer None) = (ByPointer None, [])"
| "fit_passed fit (ByPointer (Some p)) = (let (q, shed) = fit p in (ByPointer (Some q), shed))"

definition FitPayload :: "(rat \<Rightarrow> string) \<Rightarrow> any_payload \<Rightarrow> int \<Rightarrow> any_payload \<times> string list" where
  "FitPayload fl payload maxBytes =
     (if maxBytes \<le> 0 then (payload, [])
      else
        (case payload of
           AnyPayload p \<Rightarrow> apfst AnyPayload (fit_passed (Payload_FitTo fl maxBytes) p)
         | AnyStorm p \<Rightarrow> apfst AnyStorm (fit_passed (Storm_FitTo maxBytes) p)
         | AnyDigest p \<Rightarrow> apfst AnyDigest (fit_passed (Digest_FitTo maxBytes) p)
         | AnyResolved p \<Rightarrow> apfst AnyResolved (fit_passed (Resolved_FitTo maxBytes) p)
         | AnyTriage p \<Rightarrow> apfst AnyTriage (fit_passed (Triage_FitTo maxBytes) p)
         | AnyMember p \<Rightarrow> apfst AnyMember (fit_passed (Member_FitTo maxBytes) p)
         | AnyUpdate p \<Rightarrow> apfst AnyUpdate (fit_passed (Update_FitTo maxBytes) p)
         | AnyFamily p \<Rightarrow> apfst AnyFamily (fit_passed (Family_FitTo maxBytes) p)
         | AnyRotated p \<Rightarrow> apfst AnyRotated (fit_passed (Rotated_FitTo maxBytes) p)
         | AnyOther j \<Rightarrow> (AnyOther j, [])))"

subsection \<open>Delivery by the core-agent sink\<close>

text \<open>
  \<^verbatim>\<open>pkg/inject/injector.go\<close>. The daemon and the HTTP client are the argument \<open>http\<close>: it refuses to
  build a request, fails to send it, or answers with a status and a body. Each operation gives the
  requests it sent beside its result.
\<close>

record InjectorConfig =
  ic_DaemonURL :: string
  ic_BearerToken :: string
  ic_AssertedCaller :: string
  ic_MaxInjectBytes :: int

record http_request =
  hr_URL :: string
  hr_Header :: "(string \<times> string) list"
  hr_Body :: string

datatype http_answer = BuildFailed | DoFailed | Answered int string

datatype inject_error =
  SessionRequired | MarshalPayload | WrapEnvelope | BuildPost | PostInject | StatusError string int string

definition injectHeader :: "InjectorConfig \<Rightarrow> (string \<times> string) list" where
  "injectHeader cfg =
     [(''Authorization'', ''Bearer '' @ ic_BearerToken cfg), (''Content-Type'', ''application/json'')]
     @ (if ic_AssertedCaller cfg \<noteq> [] then [(''X-Asserted-Caller'', ic_AssertedCaller cfg)] else [])"

definition injectJSON ::
  "(rat \<Rightarrow> string) \<Rightarrow> (http_request \<Rightarrow> http_answer) \<Rightarrow> InjectorConfig \<Rightarrow> string \<Rightarrow> any_payload
   \<Rightarrow> http_request list \<times> (inject_error + unit)" where
  "injectJSON fl http cfg sessionID payload =
     (if sessionID = [] then ([], Inl SessionRequired)
      else
        (let payload = (if ic_MaxInjectBytes cfg > 0 then fst (FitPayload fl payload (ic_MaxInjectBytes cfg)) else payload)
         in case json_Marshal (any_json fl payload) of
              None \<Rightarrow> ([], Inl MarshalPayload)
            | Some body \<Rightarrow>
                (case json_Marshal (JObject (fld_str ''message'' body)) of
                   None \<Rightarrow> ([], Inl WrapEnvelope)
                 | Some wrapped \<Rightarrow>
                     (let req = \<lparr>hr_URL = ic_DaemonURL cfg @ ''/sessions/'' @ sessionID @ ''/inject'',
                                 hr_Header = injectHeader cfg, hr_Body = wrapped\<rparr>
                      in case http req of
                           BuildFailed \<Rightarrow> ([], Inl BuildPost)
                         | DoFailed \<Rightarrow> ([req], Inl PostInject)
                         | Answered code respBody \<Rightarrow>
                             ([req],
                              if code < 200 \<or> 300 \<le> code
                              then Inl (StatusError ''injector: POST inject'' code (take 4096 respBody)) else Inr ())))))"

definition Injector_Append ::
  "(rat \<Rightarrow> string) \<Rightarrow> (http_request \<Rightarrow> http_answer) \<Rightarrow> InjectorConfig \<Rightarrow> string \<Rightarrow> any_payload
   \<Rightarrow> http_request list \<times> (inject_error + unit)" where
  "Injector_Append fl http cfg sid payload = injectJSON fl http cfg sid payload"

text \<open>\<^verbatim>\<open>sessionGone\<close> of \<^verbatim>\<open>internal/watch/dispatch.go\<close>.\<close>

definition sessionGone :: "inject_error \<Rightarrow> bool" where
  "sessionGone err = (case err of StatusError _ code _ \<Rightarrow> code = 404 \<or> code = 410 | _ \<Rightarrow> False)"

end
