(* ===== verification/FitLaws.thy ===== *)
theory FitLaws
  imports Fit
begin

section \<open>What fitting keeps, names and cuts\<close>

text \<open>
  The binary search first: whatever it measures, a cut it returns was measured to fit, and it finds
  none only if the empty cut does not fit. On a predicate closed downwards it finds the largest.
  From the first two facts alone follow delivery and the identity of the payload; the third needs
  the lengths of \<open>Wire\<close>, which make every measured size a constant plus a cost that grows with the cut.
\<close>

subsection \<open>The search\<close>

lemma fit_search_sound:
  "fit_search fits lo hi best = best \<or>
   (fits (fit_search fits lo hi best) \<and> lo \<le> fit_search fits lo hi best \<and> fit_search fits lo hi best \<le> hi)"
proof (induction fits lo hi best rule: fit_search.induct)
  case (1 fits lo hi best)
  then show ?case by (subst (1 2 3 4) fit_search.simps) (force simp: Let_def)
qed

lemma fit_search_empty:
  assumes "best < lo" "lo \<le> hi" "fit_search fits lo hi best = best"
  shows "\<not> fits lo"
  using assms
proof (induction fits lo hi best rule: fit_search.induct)
  case (1 fits lo hi best)
  define mid where "mid = (lo + hi) div 2"
  have mid: "lo \<le> mid" "mid \<le> hi" using 1(4) by (auto simp: mid_def)
  show ?case
  proof (cases "fits mid")
    case True
    then have "fit_search fits (mid + 1) hi mid = best"
      using 1(4,5) by (subst (asm) fit_search.simps) (simp add: mid_def Let_def)
    then show ?thesis using fit_search_sound[of fits "mid + 1" hi mid] 1(3) mid by auto
  next
    case False
    then have r: "fit_search fits lo (mid - 1) best = best"
      using 1(4,5) by (subst (asm) fit_search.simps) (simp add: mid_def Let_def)
    show ?thesis
    proof (cases "lo \<le> mid - 1")
      case True
      then show ?thesis using 1(2)[OF 1(4) mid_def _ 1(3) True r] False by simp
    qed (use False mid in auto)
  qed
qed

text \<open>On a predicate closed downwards nothing above the result fits.\<close>

lemma fit_search_largest:
  assumes "\<And>i j. lo \<le> i \<Longrightarrow> i \<le> j \<Longrightarrow> j \<le> hi \<Longrightarrow> fits j \<Longrightarrow> fits i"
    and "lo \<le> j" "j \<le> hi" "fit_search fits lo hi best < j"
  shows "\<not> fits j"
  using assms
proof (induction fits lo hi best rule: fit_search.induct)
  case (1 fits lo hi best)
  define mid where "mid = (lo + hi) div 2"
  have le: "lo \<le> hi" using 1 by simp
  have mid: "lo \<le> mid" "mid \<le> hi" using le by (auto simp: mid_def)
  have step: "fit_search fits lo hi best =
    (if fits mid then fit_search fits (mid + 1) hi mid else fit_search fits lo (mid - 1) best)"
    using le by (subst fit_search.simps) (simp add: mid_def Let_def)
  show ?case
  proof (cases "fits mid")
    case True
    have "mid \<le> fit_search fits (mid + 1) hi mid" using fit_search_sound[of fits "mid + 1" hi mid] by auto
    then have "mid + 1 \<le> j" using 1(6) step True by simp
    then show ?thesis using 1(1)[OF le mid_def True] 1(3,5,6) mid step True by simp
  next
    case False
    show ?thesis
    proof (cases "j \<le> mid - 1")
      case True
      then show ?thesis using 1(2)[OF le mid_def False] 1(3,4,6) mid step False by simp
    qed (use 1(3)[of mid j] False 1(4,5) mid in auto)
  qed
qed

lemma search_cases:
  assumes "0 \<le> n"
  shows "(fit_search fits 0 n (-1) = -1 \<and> \<not> fits 0) \<or>
         (\<exists>k. fit_search fits 0 n (-1) = k \<and> 0 \<le> k \<and> k \<le> n \<and> fits k)"
  using fit_search_sound[of fits 0 n "-1"] fit_search_empty[of "-1" 0 n fits] assms by auto

subsection \<open>The three routines\<close>

lemma label_build_0 [simp]: "label_build ls 0 = []"
  by (simp add: label_build_def)

text \<open>A routine leaves something that fits, or the empty value, which does not.\<close>

lemma shrinkLabels_fits:
  assumes "ls \<noteq> []"
  shows "sz (fst (shrinkLabels ls mx sz)) \<le> mx \<or> fst (shrinkLabels ls mx sz) = []"
  using search_cases[of "int (length (label_keys ls))" "\<lambda>mid. sz (label_build ls mid) \<le> mx"] assms
  by (auto simp: shrinkLabels_def Let_def)

lemma shrinkText_fits: "sz (fst (shrinkText s mx sz)) \<le> mx \<or> fst (shrinkText s mx sz) = []"
  using search_cases[of "int (length (utf8_chunks s))" "\<lambda>mid. sz (cut_text s mid) \<le> mx"]
  by (auto simp: shrinkText_def Let_def)

lemma shrinkFingerprints_fits:
  "sz (fst (shrinkFingerprints fps mx sz)) \<le> mx \<or> fst (shrinkFingerprints fps mx sz) = []"
  using search_cases[of "int (length fps)" "\<lambda>mid. sz (take (nat mid) fps) \<le> mx"]
  by (auto simp: shrinkFingerprints_def Let_def)

subsection \<open>Delivery and identity\<close>

text \<open>
  What no stage touches, and the least a ladder can leave: everything it may shed taken away. The
  least of a storm and of a digest says that something was taken.
\<close>

definition Payload_least :: "Payload \<Rightarrow> Payload" where
  "Payload_least p = p\<lparr>pl_Enrichment := None, pl_Message := [], pl_Context := with_labels [] (pl_Context p)\<rparr>"

definition Storm_identity :: "StormPayload \<Rightarrow> StormPayload" where
  "Storm_identity p = p\<lparr>sp_Enrichment := None, sp_Message := [], sp_Context := with_labels [] (sp_Context p),
     sp_MemberFingerprints := None, sp_MemberFingerprintsTruncated := False\<rparr>"

definition Storm_least :: "StormPayload \<Rightarrow> StormPayload" where
  "Storm_least p =
     (let q = p\<lparr>sp_Enrichment := None, sp_Message := [], sp_Context := with_labels [] (sp_Context p)\<rparr>
      in if slice_of (sp_MemberFingerprints p) = [] then q
         else q\<lparr>sp_MemberFingerprints := Some [], sp_MemberFingerprintsTruncated := True\<rparr>)"

definition Digest_identity :: "WatchboardDigestPayload \<Rightarrow> WatchboardDigestPayload" where
  "Digest_identity p = p\<lparr>dg_Entries := None, dg_EntriesDropped := 0\<rparr>"

definition Digest_least :: "WatchboardDigestPayload \<Rightarrow> WatchboardDigestPayload" where
  "Digest_least p =
     (let full = slice_of (dg_Entries p) in
      if full = [] then p else p\<lparr>dg_Entries := Some [], dg_EntriesDropped := int (length full)\<rparr>)"

definition Triage_least :: "TriageRegressedPayload \<Rightarrow> TriageRegressedPayload" where
  "Triage_least p = p\<lparr>tr_Message := [], tr_Context := with_labels [] (tr_Context p)\<rparr>"

fun any_identity :: "any_payload \<Rightarrow> any_payload" where
  "any_identity (AnyPayload p) = AnyPayload (map_passed Payload_least p)"
| "any_identity (AnyStorm p) = AnyStorm (map_passed Storm_identity p)"
| "any_identity (AnyDigest p) = AnyDigest (map_passed Digest_identity p)"
| "any_identity (AnyResolved p) = AnyResolved (map_passed (\<lambda>p. Resolved_labels p []) p)"
| "any_identity (AnyTriage p) = AnyTriage (map_passed Triage_least p)"
| "any_identity (AnyMember p) = AnyMember (map_passed (mp_Message_update (\<lambda>_. [])) p)"
| "any_identity (AnyUpdate p) = AnyUpdate (map_passed (up_Message_update (\<lambda>_. [])) p)"
| "any_identity (AnyFamily p) = AnyFamily (map_passed (fm_Message_update (\<lambda>_. [])) p)"
| "any_identity (AnyRotated p) = AnyRotated p"
| "any_identity (AnyOther j) = AnyOther j"

fun any_least :: "any_payload \<Rightarrow> any_payload" where
  "any_least (AnyStorm p) = AnyStorm (map_passed Storm_least p)"
| "any_least (AnyDigest p) = AnyDigest (map_passed Digest_least p)"
| "any_least p = any_identity p"

lemma passed_cases:
  obtains p where "x = ByValue p" | p where "x = ByPointer (Some p)" | "x = ByPointer None"
  by (cases x) (metis option.exhaust)+

text \<open>The contract of one ladder: the identity is kept, and a result over the ceiling is the least one.\<close>

locale ladder =
  fixes json :: "'a \<Rightarrow> jval" and fit :: "int \<Rightarrow> 'a \<Rightarrow> 'a \<times> string list"
    and identity :: "'a \<Rightarrow> 'a" and least :: "'a \<Rightarrow> 'a"
  assumes already: "WireSize (json p) \<le> mx \<Longrightarrow> fit mx p = (p, [])"
    and keeps: "identity (fst (fit mx p)) = identity p"
    and delivers: "mx < WireSize (json (fst (fit mx p))) \<Longrightarrow> fst (fit mx p) = least p"
    and at_least: "mx < WireSize (json p) \<Longrightarrow> least p = p \<Longrightarrow> fit mx p = (p, [])"
    and least_least: "least (least p) = least p"
    and marshals: "json_ok (json p) \<Longrightarrow> json_ok (json (fst (fit mx p)))"
begin

lemma passed_keeps: "map_passed identity (fst (fit_passed (fit mx) x)) = map_passed identity x"
  by (cases x rule: passed_cases) (auto simp: case_prod_unfold Let_def keeps)

lemma passed_delivers:
  assumes "mx < WireSize (passed_json json (fst (fit_passed (fit mx) x)))"
  shows "fst (fit_passed (fit mx) x) = map_passed least x"
  using assms by (cases x rule: passed_cases) (auto simp: case_prod_unfold Let_def intro: delivers)

lemma passed_already: "WireSize (passed_json json x) \<le> mx \<Longrightarrow> fit_passed (fit mx) x = (x, [])"
  by (cases x rule: passed_cases) (auto simp: case_prod_unfold Let_def already)

lemma passed_marshals:
  assumes "json_ok (passed_json json x)"
  shows "json_ok (passed_json json (fst (fit_passed (fit mx) x)))"
  using assms by (cases x rule: passed_cases) (auto simp: case_prod_unfold Let_def marshals)

text \<open>A second pass finds nothing left to do, as the dispatcher and then the sink both fit.\<close>

lemma fit_twice: "fit mx (fst (fit mx p)) = (fst (fit mx p), [])"
proof (cases "WireSize (json (fst (fit mx p))) \<le> mx")
  case False
  then show ?thesis using delivers[of mx p] at_least[of mx "fst (fit mx p)"] least_least[of p] by simp
qed (rule already)

lemma passed_twice: "fit_passed (fit mx) (fst (fit_passed (fit mx) x)) = (fst (fit_passed (fit mx) x), [])"
  by (cases x rule: passed_cases) (auto simp: case_prod_unfold Let_def fit_twice)

end

lemmas field_defs = fld_def fld_str_def fld_int_def opt_str_def opt_int_def opt_true_def opt_ptr_def

lemma opt_ok [simp]:
  "list_all (\<lambda>(k, v). json_ok v) (fld_str k s)" "list_all (\<lambda>(k, v). json_ok v) (fld_int k n)"
  "list_all (\<lambda>(k, v). json_ok v) (opt_str k s)" "list_all (\<lambda>(k, v). json_ok v) (opt_int k n)"
  "list_all (\<lambda>(k, v). json_ok v) (opt_true k b)" "list_all (\<lambda>(k, v). json_ok v) (fld k j) = json_ok j"
  "list_all (\<lambda>(k, v). json_ok v) (opt_ptr k v) = (case v of None \<Rightarrow> True | Some j \<Rightarrow> json_ok j)"
  by (simp_all add: field_defs split: option.splits)

lemma context_ok [simp]: "json_ok (context_json c)" "json_ok (enrichment_json e)"
proof -
  have "list_all (\<lambda>(k, v). json_ok v) (opt_labels ls)" for ls
    by (simp add: opt_labels_def list_all_iff label_member_def)
  then show "json_ok (context_json c)" "json_ok (enrichment_json e)"
    by (simp_all add: context_json_def enrichment_json_def)
qed

lemma list_all_True [simp]: "list_all (\<lambda>x. True) xs"
  by (simp add: list_all_iff)

lemma slice_ok: "json_ok (slice_json f xs) = list_all (\<lambda>x. json_ok (f x)) (slice_of xs)"
  by (auto simp: slice_json_def slice_of_def list_all_iff split: option.splits)

lemma with_labels_sel [simp]:
  "cx_Labels (with_labels ls c) = ls" "with_labels ls (with_labels ls' c) = with_labels ls c"
  "cx_Labels c = [] \<Longrightarrow> with_labels [] c = c"
  by (simp_all add: with_labels_def)

subsubsection \<open>Incidents\<close>

lemma Payload_labels_end:
  "Payload_size fl (fst (Payload_fit_labels fl mx p shed)) \<le> mx \<or> fst (Payload_fit_labels fl mx p shed) = Payload_labels p []"
proof (cases "cx_Labels (pl_Context p) = []")
  case True
  then show ?thesis by (simp add: Payload_fit_labels_def Payload_labels_def)
next
  case False
  then show ?thesis
    using shrinkLabels_fits[OF False, of "\<lambda>m. Payload_size fl (Payload_labels p m)" mx]
    by (auto simp: Payload_fit_labels_def case_prod_unfold Let_def)
qed

lemma Payload_message_end:
  "Payload_size fl (fst (Payload_fit_message fl mx p shed)) \<le> mx
   \<or> fst (Payload_fit_message fl mx p shed) = Payload_labels (p\<lparr>pl_Message := []\<rparr>) []"
proof (cases "pl_Message p = []")
  case True
  then have "p\<lparr>pl_Message := []\<rparr> = p" by simp
  then have "Payload_labels (p\<lparr>pl_Message := []\<rparr>) [] = Payload_labels p []" by (rule arg_cong)
  then show ?thesis using True Payload_labels_end[of fl mx p shed] by (simp add: Payload_fit_message_def)
next
  case False
  let ?s = "fst (shrinkText (pl_Message p) mx (\<lambda>s. Payload_size fl (p\<lparr>pl_Message := s\<rparr>)))"
  have "Payload_size fl (p\<lparr>pl_Message := ?s\<rparr>) \<le> mx \<or> ?s = []"
    using shrinkText_fits[of "\<lambda>s. Payload_size fl (p\<lparr>pl_Message := s\<rparr>)" "pl_Message p" mx] .
  then show ?thesis
    using False Payload_labels_end[of fl mx "p\<lparr>pl_Message := []\<rparr>"]
    by (fastforce simp: Payload_fit_message_def case_prod_unfold Let_def)
qed

lemma Payload_overflow_end:
  "Payload_size fl (fst (Payload_fit_overflow fl mx p shed)) \<le> mx
   \<or> fst (Payload_fit_overflow fl mx p shed) = Payload_labels (p\<lparr>pl_Message := []\<rparr>) []"
  using Payload_message_end
  by (fastforce simp: Payload_fit_overflow_def case_prod_unfold Let_def Payload_labels_def)

lemma Payload_stages_keep:
  "Payload_least (fst (Payload_fit_labels fl mx p shed)) = Payload_least p"
  "Payload_least (fst (Payload_fit_message fl mx p shed)) = Payload_least p"
  "Payload_least (fst (Payload_fit_overflow fl mx p shed)) = Payload_least p"
proof -
  have l: "Payload_least (fst (Payload_fit_labels fl mx p shed)) = Payload_least p" for p shed
    by (simp add: Payload_fit_labels_def case_prod_unfold Let_def Payload_labels_def Payload_least_def)
  have m: "Payload_least (fst (Payload_fit_message fl mx p shed)) = Payload_least p" for p shed
    by (simp add: Payload_fit_message_def case_prod_unfold Let_def l) (simp add: Payload_least_def)
  show "Payload_least (fst (Payload_fit_labels fl mx p shed)) = Payload_least p"
    "Payload_least (fst (Payload_fit_message fl mx p shed)) = Payload_least p"
    by (rule l m)+
  show "Payload_least (fst (Payload_fit_overflow fl mx p shed)) = Payload_least p"
    by (simp add: Payload_fit_overflow_def case_prod_unfold Let_def m)
      (simp add: Payload_least_def Payload_labels_def)
qed

interpretation incident: ladder "Payload_json fl" "Payload_FitTo fl" Payload_least Payload_least for fl
proof unfold_locales
  fix p mx
  show "Payload_size fl p \<le> mx \<Longrightarrow> Payload_FitTo fl mx p = (p, [])" by (simp add: Payload_FitTo_def)
  show keep: "Payload_least (fst (Payload_FitTo fl mx p)) = Payload_least p"
    by (simp add: Payload_FitTo_def Let_def Payload_stages_keep) (simp add: Payload_least_def)
  show "mx < Payload_size fl (fst (Payload_FitTo fl mx p)) \<Longrightarrow> fst (Payload_FitTo fl mx p) = Payload_least p"
    using Payload_overflow_end[of fl mx p "[]"] Payload_overflow_end[of fl mx "p\<lparr>pl_Enrichment := None\<rparr>" "[''enrichment'']"]
    by (auto simp: Payload_FitTo_def Let_def Payload_least_def Payload_labels_def split: if_splits)
  show "Payload_least (Payload_least p) = Payload_least p" by (simp add: Payload_least_def)
  have "json_ok (Payload_json fl (Payload_least q)) = json_ok (Payload_json fl q)" for q
    by (simp add: Payload_json_def Payload_least_def split: option.splits)
  then show "json_ok (Payload_json fl p) \<Longrightarrow> json_ok (Payload_json fl (fst (Payload_FitTo fl mx p)))"
    using keep by metis
  assume "mx < Payload_size fl p" and l: "Payload_least p = p"
  moreover have "pl_Enrichment p = None" "pl_Message p = []" "cx_Labels (pl_Context p) = []"
    by (subst l[symmetric], simp add: Payload_least_def)+
  ultimately show "Payload_FitTo fl mx p = (p, [])"
    by (simp add: Payload_FitTo_def Payload_fit_overflow_def Payload_fit_message_def Payload_fit_labels_def)
qed

subsubsection \<open>Storms\<close>

lemma Storm_message_end:
  "Storm_size (fst (Storm_fit_message mx p shed)) \<le> mx \<or> fst (Storm_fit_message mx p shed) = p\<lparr>sp_Message := []\<rparr>"
  using shrinkText_fits[of "\<lambda>s. Storm_size (p\<lparr>sp_Message := s\<rparr>)" "sp_Message p" mx]
  by (auto simp: Storm_fit_message_def case_prod_unfold Let_def)

lemma Storm_labels_end:
  "Storm_size (fst (Storm_fit_labels mx p shed)) \<le> mx
   \<or> fst (Storm_fit_labels mx p shed) = Storm_labels (p\<lparr>sp_Message := []\<rparr>) []"
proof (cases "cx_Labels (sp_Context p) = []")
  case True
  then show ?thesis using Storm_message_end[of mx p shed] by (auto simp: Storm_fit_labels_def Storm_labels_def)
next
  case False
  have "Storm_labels p [] \<lparr>sp_Message := []\<rparr> = Storm_labels (p\<lparr>sp_Message := []\<rparr>) []" by (simp add: Storm_labels_def)
  then show ?thesis
    using False shrinkLabels_fits[OF False, of "\<lambda>m. Storm_size (Storm_labels p m)" mx]
      Storm_message_end[of mx "Storm_labels p []"]
    by (fastforce simp: Storm_fit_labels_def case_prod_unfold Let_def)
qed

lemma Storm_members_end:
  "Storm_size (fst (Storm_fit_members mx p shed)) \<le> mx
   \<or> fst (Storm_fit_members mx p shed) = Storm_least (p\<lparr>sp_Enrichment := None\<rparr>)\<lparr>sp_Enrichment := sp_Enrichment p\<rparr>"
proof (cases "slice_of (sp_MemberFingerprints p) = []")
  case True
  then show ?thesis using Storm_labels_end[of mx p shed]
    by (auto simp: Storm_fit_members_def Storm_labels_def Storm_least_def)
next
  case False
  let ?full = "slice_of (sp_MemberFingerprints p)"
  have "Storm_labels (Storm_fingerprints p ?full [] \<lparr>sp_Message := []\<rparr>) []
    = Storm_least (p\<lparr>sp_Enrichment := None\<rparr>)\<lparr>sp_Enrichment := sp_Enrichment p\<rparr>"
    using False by (simp add: Storm_labels_def Storm_fingerprints_def Storm_least_def)
  then show ?thesis
    using False shrinkFingerprints_fits[of "\<lambda>fps. Storm_size (Storm_fingerprints p ?full fps)" ?full mx]
      Storm_labels_end[of mx "Storm_fingerprints p ?full []"]
    by (fastforce simp: Storm_fit_members_def case_prod_unfold Let_def)
qed

lemma Storm_stages_keep:
  "Storm_identity (fst (Storm_fit_message mx p shed)) = Storm_identity p"
  "Storm_identity (fst (Storm_fit_labels mx p shed)) = Storm_identity p"
  "Storm_identity (fst (Storm_fit_members mx p shed)) = Storm_identity p"
proof -
  have m: "Storm_identity (fst (Storm_fit_message mx p shed)) = Storm_identity p" for p shed
    by (simp add: Storm_fit_message_def case_prod_unfold Let_def Storm_identity_def)
  have l: "Storm_identity (fst (Storm_fit_labels mx p shed)) = Storm_identity p" for p shed
    by (simp add: Storm_fit_labels_def case_prod_unfold Let_def m) (simp add: Storm_labels_def Storm_identity_def)
  show "Storm_identity (fst (Storm_fit_message mx p shed)) = Storm_identity p"
    "Storm_identity (fst (Storm_fit_labels mx p shed)) = Storm_identity p"
    by (rule m l)+
  show "Storm_identity (fst (Storm_fit_members mx p shed)) = Storm_identity p"
    by (simp add: Storm_fit_members_def case_prod_unfold Let_def l) (simp add: Storm_fingerprints_def Storm_identity_def)
qed

interpretation storm_ladder: ladder StormPayload_json Storm_FitTo Storm_identity Storm_least
proof unfold_locales
  fix p mx
  show "Storm_size p \<le> mx \<Longrightarrow> Storm_FitTo mx p = (p, [])" by (simp add: Storm_FitTo_def)
  show keep: "Storm_identity (fst (Storm_FitTo mx p)) = Storm_identity p"
    by (simp add: Storm_FitTo_def Let_def Storm_stages_keep) (simp add: Storm_identity_def)
  have e: "Storm_least (q\<lparr>sp_Enrichment := None\<rparr>) = Storm_least q" "sp_Enrichment (Storm_least q) = None" for q
    by (simp_all add: Storm_least_def Let_def)
  show "mx < Storm_size (fst (Storm_FitTo mx p)) \<Longrightarrow> fst (Storm_FitTo mx p) = Storm_least p"
    using Storm_members_end[of mx p "[]"] Storm_members_end[of mx "p\<lparr>sp_Enrichment := None\<rparr>" "[''enrichment'']"]
      e[of p] StormPayload.surjective[of "Storm_least p"]
    by (auto simp: Storm_FitTo_def Let_def split: if_splits)
  have "json_ok (StormPayload_json (Storm_identity q)) = json_ok (StormPayload_json q)" for q
    by (simp add: StormPayload_json_def Storm_identity_def slice_ok slice_of_def split: option.splits)
  then show "json_ok (StormPayload_json p) \<Longrightarrow> json_ok (StormPayload_json (fst (Storm_FitTo mx p)))"
    using keep by metis
  show "Storm_least (Storm_least p) = Storm_least p" by (auto simp: Storm_least_def Let_def slice_of_def)
  assume "mx < Storm_size p" and l: "Storm_least p = p"
  moreover have "sp_Enrichment p = None" "sp_Message p = []" "cx_Labels (sp_Context p) = []"
    "slice_of (sp_MemberFingerprints p) = []"
    by (subst l[symmetric], simp add: Storm_least_def Let_def slice_of_def)+
  ultimately show "Storm_FitTo mx p = (p, [])"
    by (simp add: Storm_FitTo_def Storm_fit_members_def Storm_fit_labels_def Storm_fit_message_def)
qed

subsubsection \<open>The other payloads\<close>

lemma Digest_newest_0: "Digest_newest p full 0 = p\<lparr>dg_Entries := Some [], dg_EntriesDropped := int (length full)\<rparr>"
  by (simp add: Digest_newest_def)

interpretation digest_ladder: ladder WatchboardDigestPayload_json Digest_FitTo Digest_identity Digest_least
proof unfold_locales
  fix p mx
  show "Digest_size p \<le> mx \<Longrightarrow> Digest_FitTo mx p = (p, [])" by (simp add: Digest_FitTo_def)
  show "Digest_identity (fst (Digest_FitTo mx p)) = Digest_identity p"
    by (simp add: Digest_FitTo_def Let_def Digest_identity_def Digest_newest_def)
  show "mx < Digest_size (fst (Digest_FitTo mx p)) \<Longrightarrow> fst (Digest_FitTo mx p) = Digest_least p"
    using search_cases[of "int (length (slice_of (dg_Entries p)))"
        "\<lambda>mid. Digest_size (Digest_newest p (slice_of (dg_Entries p)) mid) \<le> mx"]
    by (auto simp: Digest_FitTo_def Digest_least_def Let_def Digest_newest_0 split: if_splits)
  show "json_ok (WatchboardDigestPayload_json p) \<Longrightarrow> json_ok (WatchboardDigestPayload_json (fst (Digest_FitTo mx p)))"
    by (simp add: Digest_FitTo_def Let_def Digest_newest_def WatchboardDigestPayload_json_def slice_ok)
      (auto simp: slice_of_def list_all_iff dest: in_set_dropD)
  show "Digest_least (Digest_least p) = Digest_least p" by (auto simp: Digest_least_def Let_def slice_of_def)
  assume "mx < Digest_size p" and l: "Digest_least p = p"
  moreover have "slice_of (dg_Entries p) = []"
    by (subst l[symmetric]) (simp add: Digest_least_def Let_def slice_of_def)
  ultimately show "Digest_FitTo mx p = (p, [])" by (simp add: Digest_FitTo_def)
qed

interpretation resolved_ladder: ladder ResolvedPayload_json Resolved_FitTo "\<lambda>p. Resolved_labels p []" "\<lambda>p. Resolved_labels p []"
proof unfold_locales
  fix p mx
  show "WireSize (ResolvedPayload_json p) \<le> mx \<Longrightarrow> Resolved_FitTo mx p = (p, [])" by (simp add: Resolved_FitTo_def)
  show keep: "Resolved_labels (fst (Resolved_FitTo mx p)) [] = Resolved_labels p []"
    by (simp add: Resolved_FitTo_def case_prod_unfold Let_def Resolved_labels_def)
  show "mx < WireSize (ResolvedPayload_json (fst (Resolved_FitTo mx p))) \<Longrightarrow>
    fst (Resolved_FitTo mx p) = Resolved_labels p []"
  proof (cases "cx_Labels (rp_Context p) = []")
    case False
    then show "mx < WireSize (ResolvedPayload_json (fst (Resolved_FitTo mx p))) \<Longrightarrow>
      fst (Resolved_FitTo mx p) = Resolved_labels p []"
      using shrinkLabels_fits[OF False, of "\<lambda>m. WireSize (ResolvedPayload_json (Resolved_labels p m))" mx]
      by (auto simp: Resolved_FitTo_def case_prod_unfold Let_def split: if_splits)
  qed (simp add: Resolved_FitTo_def Resolved_labels_def)
  have "json_ok (ResolvedPayload_json (Resolved_labels q [])) = json_ok (ResolvedPayload_json q)" for q
    by (simp add: ResolvedPayload_json_def Resolved_labels_def)
  then show "json_ok (ResolvedPayload_json p) \<Longrightarrow> json_ok (ResolvedPayload_json (fst (Resolved_FitTo mx p)))"
    using keep by metis
  show "Resolved_labels (Resolved_labels p []) [] = Resolved_labels p []" by (simp add: Resolved_labels_def)
  assume "mx < WireSize (ResolvedPayload_json p)" and l: "Resolved_labels p [] = p"
  moreover have "cx_Labels (rp_Context p) = []" by (subst l[symmetric]) (simp add: Resolved_labels_def)
  ultimately show "Resolved_FitTo mx p = (p, [])" by (simp add: Resolved_FitTo_def)
qed

abbreviation Triage_size :: "TriageRegressedPayload \<Rightarrow> int" where
  "Triage_size p \<equiv> WireSize (TriageRegressedPayload_json p)"

lemma Triage_message_end:
  "Triage_size (fst (Triage_fit_message mx p shed)) \<le> mx \<or> fst (Triage_fit_message mx p shed) = p\<lparr>tr_Message := []\<rparr>"
  "Triage_least (fst (Triage_fit_message mx p shed)) = Triage_least p"
  using shrinkText_fits[of "\<lambda>s. Triage_size (p\<lparr>tr_Message := s\<rparr>)" "tr_Message p" mx]
  by (auto simp: Triage_fit_message_def case_prod_unfold Let_def Triage_least_def)

lemma Triage_end: "Triage_size (fst (Triage_FitTo mx p)) \<le> mx \<or> fst (Triage_FitTo mx p) = Triage_least p"
proof (cases "cx_Labels (tr_Context p) = []")
  case True
  then show ?thesis
    using Triage_message_end(1)[of mx p "[]"] by (auto simp: Triage_FitTo_def Triage_least_def)
next
  case False
  have "Triage_labels p [] \<lparr>tr_Message := []\<rparr> = Triage_least p" by (simp add: Triage_labels_def Triage_least_def)
  then show ?thesis
    using False shrinkLabels_fits[OF False, of "\<lambda>m. Triage_size (Triage_labels p m)" mx]
      Triage_message_end(1)[of mx "Triage_labels p []"]
    by (fastforce simp: Triage_FitTo_def case_prod_unfold Let_def)
qed

interpretation triage_ladder: ladder TriageRegressedPayload_json Triage_FitTo Triage_least Triage_least
proof unfold_locales
  fix p mx
  show "Triage_size p \<le> mx \<Longrightarrow> Triage_FitTo mx p = (p, [])" by (simp add: Triage_FitTo_def)
  show keep: "Triage_least (fst (Triage_FitTo mx p)) = Triage_least p"
    by (simp add: Triage_FitTo_def case_prod_unfold Let_def Triage_message_end)
      (simp add: Triage_least_def Triage_labels_def)
  show "mx < Triage_size (fst (Triage_FitTo mx p)) \<Longrightarrow> fst (Triage_FitTo mx p) = Triage_least p"
    using Triage_end[of mx p] by auto
  have "json_ok (TriageRegressedPayload_json (Triage_least q)) = json_ok (TriageRegressedPayload_json q)" for q
    by (simp add: TriageRegressedPayload_json_def Triage_least_def)
  then show "json_ok (TriageRegressedPayload_json p) \<Longrightarrow> json_ok (TriageRegressedPayload_json (fst (Triage_FitTo mx p)))"
    using keep by metis
  show "Triage_least (Triage_least p) = Triage_least p" by (simp add: Triage_least_def)
  assume "mx < Triage_size p" and l: "Triage_least p = p"
  moreover have "tr_Message p = []" "cx_Labels (tr_Context p) = []"
    by (subst l[symmetric], simp add: Triage_least_def)+
  ultimately show "Triage_FitTo mx p = (p, [])" by (simp add: Triage_FitTo_def Triage_fit_message_def)
qed

text \<open>The three payloads that have only a message to give share one shape.\<close>

lemma message_ladder:
  fixes json :: "'a \<Rightarrow> jval" and msg :: "'a \<Rightarrow> string" and upd :: "string \<Rightarrow> 'a \<Rightarrow> 'a"
  assumes fit: "\<And>mx p. fit mx p =
      (if WireSize (json p) \<le> mx then (p, [])
       else if msg p \<noteq> [] then
         (let r = shrinkText (msg p) mx (\<lambda>s. WireSize (json (upd s p)))
          in (upd (fst r) p, if snd r then [''message''] else []))
       else (p, []))"
    and upd: "\<And>s s' p. upd s (upd s' p) = upd s p" "\<And>p. upd (msg p) p = p" "\<And>s p. msg (upd s p) = s"
    and ok: "\<And>s p. json_ok (json (upd s p)) = json_ok (json p)"
  shows "ladder json fit (upd []) (upd [])"
proof
  fix p mx
  show "WireSize (json p) \<le> mx \<Longrightarrow> fit mx p = (p, [])" by (simp add: fit)
  show "upd [] (fst (fit mx p)) = upd [] p" by (simp add: fit Let_def upd(1))
  show "mx < WireSize (json (fst (fit mx p))) \<Longrightarrow> fst (fit mx p) = upd [] p"
    using shrinkText_fits[of "\<lambda>s. WireSize (json (upd s p))" "msg p" mx] upd(2)[of p]
    by (auto simp: fit Let_def split: if_splits)
  show "upd [] (upd [] p) = upd [] p" by (rule upd(1))
  show "json_ok (json p) \<Longrightarrow> json_ok (json (fst (fit mx p)))" by (simp add: fit Let_def ok)
  assume "upd [] p = p"
  then have "msg p = []" using upd(3)[of "[]" p] by simp
  then show "fit mx p = (p, [])" by (simp add: fit)
qed

interpretation member_ladder: ladder StormMemberPayload_json Member_FitTo
    "mp_Message_update (\<lambda>_. [])" "mp_Message_update (\<lambda>_. [])"
  by (rule message_ladder[where msg = mp_Message and upd = "\<lambda>s. mp_Message_update (\<lambda>_. s)"])
    (simp_all add: Member_FitTo_def case_prod_unfold Let_def, simp add: StormMemberPayload_json_def)

interpretation update_ladder: ladder StormUpdatePayload_json Update_FitTo
    "up_Message_update (\<lambda>_. [])" "up_Message_update (\<lambda>_. [])"
  by (rule message_ladder[where msg = up_Message and upd = "\<lambda>s. up_Message_update (\<lambda>_. s)"])
    (simp_all add: Update_FitTo_def case_prod_unfold Let_def, simp add: StormUpdatePayload_json_def)

interpretation family_ladder: ladder FamilyMemberPayload_json Family_FitTo
    "fm_Message_update (\<lambda>_. [])" "fm_Message_update (\<lambda>_. [])"
  by (rule message_ladder[where msg = fm_Message and upd = "\<lambda>s. fm_Message_update (\<lambda>_. s)"])
    (simp_all add: Family_FitTo_def case_prod_unfold Let_def, simp add: FamilyMemberPayload_json_def)

interpretation rotated_ladder: ladder WatchboardRotatedPayload_json Rotated_FitTo "\<lambda>p. p" "\<lambda>p. p"
  by unfold_locales (simp_all add: Rotated_FitTo_def)

subsection \<open>Every payload\<close>

abbreviation any_size :: "(rat \<Rightarrow> string) \<Rightarrow> any_payload \<Rightarrow> int" where
  "any_size fl p \<equiv> WireSize (any_json fl p)"

lemma FitPayload_delivers:
  assumes "0 < mx" "mx < any_size fl (fst (FitPayload fl p mx))"
  shows "fst (FitPayload fl p mx) = any_least p"
  using assms incident.passed_delivers[of mx fl] storm_ladder.passed_delivers[of mx]
    digest_ladder.passed_delivers[of mx] resolved_ladder.passed_delivers[of mx]
    triage_ladder.passed_delivers[of mx] member_ladder.passed_delivers[of mx]
    update_ladder.passed_delivers[of mx] family_ladder.passed_delivers[of mx]
    rotated_ladder.passed_delivers[of mx]
  by (cases p) (simp_all add: FitPayload_def passed.map_ident)

lemma FitPayload_keeps: "any_identity (fst (FitPayload fl p mx)) = any_identity p"
proof (cases "0 < mx")
  case True
  then show ?thesis
    using rotated_ladder.passed_keeps[of mx]
    by (cases p) (simp_all add: FitPayload_def incident.passed_keeps storm_ladder.passed_keeps
      digest_ladder.passed_keeps resolved_ladder.passed_keeps triage_ladder.passed_keeps
      member_ladder.passed_keeps update_ladder.passed_keeps family_ladder.passed_keeps passed.map_ident)
qed (simp add: FitPayload_def)

lemma FitPayload_twice: "FitPayload fl (fst (FitPayload fl p mx)) mx = (fst (FitPayload fl p mx), [])"
proof (cases "0 < mx")
  case True
  then show ?thesis
    by (cases p) (simp_all add: FitPayload_def incident.passed_twice storm_ladder.passed_twice
      digest_ladder.passed_twice resolved_ladder.passed_twice triage_ladder.passed_twice
      member_ladder.passed_twice update_ladder.passed_twice family_ladder.passed_twice
      rotated_ladder.passed_twice)
qed (simp add: FitPayload_def)

lemma FitPayload_already: "any_size fl p \<le> mx \<Longrightarrow> FitPayload fl p mx = (p, [])"
  by (cases p) (simp_all add: FitPayload_def incident.passed_already storm_ladder.passed_already
    digest_ladder.passed_already resolved_ladder.passed_already triage_ladder.passed_already
    member_ladder.passed_already update_ladder.passed_already family_ladder.passed_already
    rotated_ladder.passed_already)

lemma FitPayload_marshals: "json_ok (any_json fl p) \<Longrightarrow> json_ok (any_json fl (fst (FitPayload fl p mx)))"
proof (cases "0 < mx")
  case True
  assume "json_ok (any_json fl p)"
  with True show ?thesis
    by (cases p) (simp_all add: FitPayload_def incident.passed_marshals storm_ladder.passed_marshals
      digest_ladder.passed_marshals resolved_ladder.passed_marshals triage_ladder.passed_marshals
      member_ladder.passed_marshals update_ladder.passed_marshals family_ladder.passed_marshals
      rotated_ladder.passed_marshals)
qed (simp add: FitPayload_def)

text \<open>
  C11: An inject gets through. Let the daemon accept every request within its ceiling, and let the
  payload marshal and its identity alone be within the ceiling. Then the sink sends exactly one
  request, to the session's inject path, and succeeds; its body is within the ceiling, holds the
  fitted payload in the envelope, and that payload has every identity field of the one given.
  A payload within the ceiling is sent as it is, and one already fitted is not fitted further.
\<close>

theorem inject_arrives:
  assumes "0 < ic_MaxInjectBytes cfg" "sid \<noteq> []" "json_ok (any_json fl p)"
    and "any_size fl (any_least p) \<le> ic_MaxInjectBytes cfg"
    and "\<And>r. int (length (hr_Body r)) \<le> ic_MaxInjectBytes cfg \<Longrightarrow>
           \<exists>code answer. http r = Answered code answer \<and> 200 \<le> code \<and> code < 300"
  shows "\<exists>r q. injectJSON fl http cfg sid p = ([r], Inr ())
           \<and> hr_URL r = ic_DaemonURL cfg @ ''/sessions/'' @ sid @ ''/inject''
           \<and> int (length (hr_Body r)) \<le> ic_MaxInjectBytes cfg
           \<and> hr_Body r = json_text (JObject [(''message'', JString (json_text (any_json fl q)))])
           \<and> any_identity q = any_identity p
           \<and> (any_size fl p \<le> ic_MaxInjectBytes cfg \<longrightarrow> q = p)
           \<and> FitPayload fl q (ic_MaxInjectBytes cfg) = (q, [])"
proof -
  let ?m = "ic_MaxInjectBytes cfg"
  define q where "q = fst (FitPayload fl p ?m)"
  define body where "body = json_text (JObject [(''message'', JString (json_text (any_json fl q)))])"
  define r where "r = \<lparr>hr_URL = ic_DaemonURL cfg @ ''/sessions/'' @ sid @ ''/inject'', hr_Header = injectHeader cfg, hr_Body = body\<rparr>"
  have ok: "json_ok (any_json fl q)" using FitPayload_marshals assms(3) by (simp add: q_def)
  then have size: "any_size fl q = int (length body)"
    by (simp add: WireSize_def json_Marshal_def fld_str_def body_def)
  have le: "int (length body) \<le> ?m"
    using FitPayload_delivers[OF assms(1), of fl p] assms(4) size by (fastforce simp: q_def)
  then obtain code answer where "http r = Answered code answer" "200 \<le> code" "code < 300"
    using assms(5)[of r] by (auto simp: r_def)
  then have "injectJSON fl http cfg sid p = ([r], Inr ())"
    using assms(1,2) ok by (simp add: injectJSON_def json_Marshal_def fld_str_def r_def body_def q_def)
  moreover have "any_size fl p \<le> ?m \<longrightarrow> q = p" by (simp add: q_def FitPayload_already)
  ultimately show ?thesis
    using le FitPayload_keeps[of fl p ?m] FitPayload_twice[of fl p ?m]
    by (intro exI[of _ r] exI[of _ q]) (simp add: r_def q_def body_def)
qed

definition sample_update :: StormUpdatePayload where
  "sample_update =
     \<lparr>up_Kind = ''storm.update'', up_StormFingerprint = ''f1'', up_AncestorKind = ''Node'', up_AncestorNamespace = [],
      up_AncestorName = ''n1'', up_Cluster = ''c1'', up_Message = replicate 400 (CHR ''x''), up_AffectedCount = 33,
      up_NamespacesCount = 6, up_NewMembersSinceLast = 10\<rparr>"

definition sample_config :: InjectorConfig where
  "sample_config =
     \<lparr>ic_DaemonURL = ''http://d'', ic_BearerToken = ''t'', ic_AssertedCaller = [], ic_MaxInjectBytes = 400\<rparr>"

text \<open>A size refresh with a long message reaches a daemon that takes 400 bytes.\<close>

theorem inject_arrives_witness:
  "\<exists>r q. injectJSON (\<lambda>_. ''0'') (\<lambda>_. Answered 202 []) sample_config ''s1'' (AnyUpdate (ByValue sample_update)) = ([r], Inr ())
     \<and> int (length (hr_Body r)) \<le> 400
     \<and> any_identity q = AnyUpdate (ByValue (sample_update\<lparr>up_Message := []\<rparr>))"
proof -
  have "any_size (\<lambda>_. ''0'') (any_least (AnyUpdate (ByValue sample_update))) \<le> ic_MaxInjectBytes sample_config"
    by code_simp
  moreover have "json_ok (any_json (\<lambda>_. ''0'') (AnyUpdate (ByValue sample_update)))"
    by (simp add: StormUpdatePayload_json_def)
  ultimately show ?thesis
    using inject_arrives[of sample_config "''s1''" "\<lambda>_. ''0''" "AnyUpdate (ByValue sample_update)" "\<lambda>_. Answered 202 []"]
    by (simp add: sample_config_def) blast
qed

end
