(* ===== verification/FitCuts.thy ===== *)
theory FitCuts
  imports FitLaws
begin

section \<open>What a fitted incident lost\<close>

text \<open>
  The list a fit returns against what it did: which labels are kept, what the message becomes, and
  that the three names of the list stand for exactly the three losses. The cut of the message is the
  smallest one: sizes are additive, so the search runs on a predicate closed downwards.
\<close>

subsection \<open>Labels\<close>

text \<open>Labels that keep their values and are closed downwards in the order of keys; and the loss of one.\<close>

definition label_prefix :: "labels \<Rightarrow> labels \<Rightarrow> bool" where
  "label_prefix kept ls \<longleftrightarrow>
     (\<forall>k v. gget kept k = Some v \<longrightarrow> gget ls k = Some v) \<and>
     (\<forall>k j. gget kept k \<noteq> None \<and> gget ls j \<noteq> None \<and> j \<le> k \<longrightarrow> gget kept j \<noteq> None)"

definition label_loss :: "labels \<Rightarrow> labels \<Rightarrow> bool" where
  "label_loss ls kept \<longleftrightarrow> (\<exists>k. gget ls k \<noteq> None \<and> gget kept k = None)"

lemma label_prefix_refl [simp]: "label_prefix ls ls" "\<not> label_loss ls ls"
  by (auto simp: label_prefix_def label_loss_def)

lemma label_prefix_trans: "label_prefix a b \<Longrightarrow> label_prefix b c \<Longrightarrow> label_prefix a c"
  unfolding label_prefix_def by (metis option.exhaust option.distinct(1))

lemma label_loss_trans:
  assumes "label_prefix a b" "label_prefix b c"
  shows "label_loss c a \<longleftrightarrow> label_loss c b \<or> label_loss b a"
  using assms unfolding label_prefix_def label_loss_def by (metis option.exhaust option.distinct(1))

lemma label_keys_props:
  assumes "gokeys ls"
  shows "sorted (label_keys ls)" "distinct (label_keys ls)" "set (label_keys ls) = fst ` set ls"
  using assms by (auto simp: label_keys_def)

lemma gget_label_build:
  assumes "gokeys ls" "0 \<le> n"
  shows "gget (label_build ls n) k = (if k \<in> set (take (nat n) (label_keys ls)) then gget ls k else None)"
proof -
  have "gget (map (\<lambda>k. (k, case gget ls k of Some v \<Rightarrow> v | None \<Rightarrow> [])) ks) k
    = (if k \<in> set ks then Some (case gget ls k of Some v \<Rightarrow> v | None \<Rightarrow> []) else None)" for ks
    by (induction ks) auto
  moreover have "gget ls k \<noteq> None" if "k \<in> set (take (nat n) (label_keys ls))"
    using in_set_takeD[OF that] label_keys_props(3)[OF assms(1)] gget_in_keys by metis
  ultimately show ?thesis using assms(2) by (auto simp: label_build_def)
qed

lemma gokeys_label_build: "gokeys ls \<Longrightarrow> gokeys (label_build ls n)"
  using label_keys_props(2)[of ls] by (simp add: label_build_def comp_def distinct_take)

lemma label_build_prefix:
  assumes "gokeys ls" "0 \<le> n"
  shows "label_prefix (label_build ls n) ls"
proof -
  let ?ks = "label_keys ls"
  have "j \<in> set (take (nat n) ?ks)" if k: "k \<in> set (take (nat n) ?ks)" and j: "gget ls j \<noteq> None" "j \<le> k" for k j
  proof -
    from j(1) have "j \<in> set ?ks" using label_keys_props(3)[OF assms(1)] gget_in_keys by metis
    then obtain b where b: "b < length ?ks" "?ks ! b = j" by (auto simp: in_set_conv_nth)
    from k obtain a where a: "a < length ?ks" "a < nat n" "?ks ! a = k" by (auto simp: in_set_conv_nth)
    have "b \<le> a"
    proof (rule ccontr)
      assume "\<not> b \<le> a"
      then have "?ks ! a \<le> ?ks ! b" using label_keys_props(1)[OF assms(1)] b(1) by (intro sorted_nth_mono) auto
      then have "?ks ! a = ?ks ! b" using a(3) b(2) j(2) by simp
      then show False using label_keys_props(2)[OF assms(1)] a(1) b(1) \<open>\<not> b \<le> a\<close> by (simp add: nth_eq_iff_index_eq)
    qed
    then show ?thesis using a b by (auto simp: in_set_conv_nth intro!: exI[of _ b])
  qed
  then show ?thesis unfolding label_prefix_def gget_label_build[OF assms] by (auto split: if_splits)
qed

lemma label_build_loss:
  assumes "gokeys ls" "0 \<le> n"
  shows "label_loss ls (label_build ls n) \<longleftrightarrow> n < int (length (label_keys ls))"
proof
  assume "n < int (length (label_keys ls))"
  then have n: "nat n < length (label_keys ls)" using assms(2) by simp
  let ?k = "label_keys ls ! nat n"
  have "?k \<notin> set (take (nat n) (label_keys ls))"
    using label_keys_props(2)[OF assms(1)] n by (auto simp: in_set_conv_nth nth_eq_iff_index_eq)
  moreover have "gget ls ?k \<noteq> None"
    using n nth_mem label_keys_props(3)[OF assms(1)] gget_in_keys by metis
  ultimately show "label_loss ls (label_build ls n)" by (auto simp: label_loss_def gget_label_build[OF assms])
next
  assume "label_loss ls (label_build ls n)"
  then obtain k where k: "gget ls k \<noteq> None" "k \<notin> set (take (nat n) (label_keys ls))"
    by (auto simp: label_loss_def gget_label_build[OF assms] split: if_splits)
  then have "k \<in> set (label_keys ls)" using label_keys_props(3)[OF assms(1)] gget_in_keys by metis
  then show "n < int (length (label_keys ls))" using k(2) assms(2) by (cases "nat n < length (label_keys ls)") auto
qed

lemma shrinkLabels_loss:
  assumes "gokeys ls"
  shows "gokeys (fst (shrinkLabels ls mx sz))" "label_prefix (fst (shrinkLabels ls mx sz)) ls"
    "snd (shrinkLabels ls mx sz) = label_loss ls (fst (shrinkLabels ls mx sz))"
  using assms gokeys_label_build label_build_prefix label_build_loss
  by (simp_all add: shrinkLabels_def Let_def)

subsection \<open>The message is cut no shorter than it must be\<close>

lemma wire_cost_quoted:
  assumes "whole_runes a"
  shows "wire_cost (json_quoted (a @ b)) = wire_cost (json_quoted a) + wire_cost (json_escape b)"
proof -
  have w: "whole_runes (json_escape s)" for s
    unfolding json_escape_def by (rule whole_runes_concat) (auto intro: whole_json_chunk)
  have e: "json_escape (a @ b) = json_escape a @ json_escape b"
    using assms by (simp add: json_escape_def whole_runes_def)
  have q: "wire_cost (json_quoted s) = wire_cost [dq] + wire_cost (json_escape s) + wire_cost [dq]" for s
    using wire_cost_append[of "[dq]" "json_escape s @ [dq]"] wire_cost_append[OF w, of s "[dq]"]
    by (simp add: json_quoted_def whole_runes_ascii dq_def)
  show ?thesis unfolding q e using wire_cost_append[OF w, of a "json_escape b"] by simp
qed

lemma cut_cost_mono:
  assumes "i \<le> j"
  shows "wire_cost (json_quoted (cut_text s i)) \<le> wire_cost (json_quoted (cut_text s j))"
proof -
  define rest where "rest = concat (map rune_bytes (drop (nat i) (take (nat j) (utf8_chunks s))))"
  have m: "min (nat i) (nat j) = nat i" using assms by simp
  have "take (nat j) (utf8_chunks s) = take (nat i) (utf8_chunks s) @ drop (nat i) (take (nat j) (utf8_chunks s))"
    using append_take_drop_id[of "nat i" "take (nat j) (utf8_chunks s)"] by (simp add: m)
  then have p: "rune_prefix (nat j) s = rune_prefix (nat i) s @ rest"
    unfolding rune_prefix_def rest_def by (metis concat_append map_append)
  have w: "whole_runes (rune_prefix (nat i) s)" "whole_runes rest"
    unfolding rune_prefix_def rest_def
    by (rule whole_runes_concat; auto dest!: in_set_takeD in_set_dropD intro: whole_rune_bytes)+
  have "json_escape (rest @ truncMarker) = json_escape rest @ json_escape truncMarker"
    using w(2) by (simp add: json_escape_def whole_runes_def)
  moreover have "whole_runes (json_escape rest)"
    unfolding json_escape_def by (rule whole_runes_concat) (auto intro: whole_json_chunk)
  ultimately show ?thesis
    unfolding cut_text_def p append_assoc wire_cost_quoted[OF w(1)] by (simp add: wire_cost_append)
qed

lemma ascii_Itoa: "ascii (strconv_Itoa n)"
proof -
  have d: "n mod 10 < 80" for n :: nat by (rule less_trans[of _ 10]) simp_all
  have "ascii (decimal m)" for m by (induction m rule: decimal.induct) (subst decimal.simps, simp add: of_char_of d)
  then show ?thesis by (simp add: strconv_Itoa_def)
qed

lemma plain_members:
  "list_all (\<lambda>(k, v). plain_numbers v) (fld_str k s)" "list_all (\<lambda>(k, v). plain_numbers v) (fld_int k n)"
  "list_all (\<lambda>(k, v). plain_numbers v) (opt_str k s)" "list_all (\<lambda>(k, v). plain_numbers v) (opt_int k n)"
  "list_all (\<lambda>(k, v). plain_numbers v) (fld k j) = plain_numbers j"
  "list_all (\<lambda>(k, v). plain_numbers v) (opt_ptr k v) = (case v of None \<Rightarrow> True | Some j \<Rightarrow> plain_numbers j)"
  "list_all (\<lambda>(k, v). plain_numbers v) (opt_labels ls)"
  by (auto simp: fld_def fld_str_def fld_int_def opt_str_def opt_int_def opt_ptr_def opt_labels_def label_member_def
    ascii_Itoa[unfolded list_all_iff] list_all_iff split: option.split)

lemma Payload_plain:
  assumes "\<forall>r. ascii (fl r)"
  shows "plain_numbers (Payload_json fl p)"
  using assms
  by (simp add: Payload_json_def plain_members context_json_def enrichment_json_def forecast_json_def quota_json_def
    split: option.split)

text \<open>The size of an incident is a constant and what its message costs.\<close>

lemma Payload_size_message:
  assumes "json_ok (Payload_json fl p)" "\<forall>r. ascii (fl r)"
  obtains c where "\<And>s. Payload_size fl (p\<lparr>pl_Message := s\<rparr>) = c + int (wire_cost (json_quoted s))"
proof -
  obtain pre post where ms: "\<And>s. Payload_json fl (p\<lparr>pl_Message := s\<rparr>) = JObject (pre @ [(''message'', JString s)] @ post)"
    by (rule that[of
      "fld_str ''kind'' (pl_Kind p) @ fld_str ''reason'' (pl_Reason p) @ fld_str ''namespace'' (pl_Namespace p)
      @ fld_str ''kind_of_object'' (pl_KindOfObject p) @ fld_str ''name'' (pl_Name p)
      @ opt_str ''container'' (pl_Container p) @ fld_str ''uid'' (pl_UID p)" _]) (simp add: Payload_json_def fld_str_def[of "''message''"])
  have "json_ok (Payload_json fl (p\<lparr>pl_Message := s\<rparr>))" for s
    using assms(1) unfolding ms[of s] ms[of "pl_Message p", simplified] by simp
  then have "Payload_size fl (p\<lparr>pl_Message := s\<rparr>) =
      (int (length (json_quoted ''message'')) + 6 + int (\<Sum>m\<leftarrow>pre @ post. member_cost m) + int (wire_cost (json_quoted ''message'')) + 2)
      + int (wire_cost (json_quoted s))" for s
    using object_cost[of "pre @ [(''message'', JString s)] @ post"] Payload_plain[OF assms(2), of "p\<lparr>pl_Message := s\<rparr>"]
    unfolding ms by (simp add: WireSize_def json_Marshal_def fld_str_def member_cost_def json_quoted_def wire_cost_def)
  then show ?thesis by (rule that)
qed

abbreviation Payload_Labels :: "Payload \<Rightarrow> labels" where
  "Payload_Labels p \<equiv> cx_Labels (pl_Context p)"

lemma Payload_labels_sel [simp]:
  "Payload_Labels (Payload_labels p ls) = ls" "pl_Message (Payload_labels p ls) = pl_Message p"
  "pl_Enrichment (Payload_labels p ls) = pl_Enrichment p"
  by (simp_all add: Payload_labels_def)

text \<open>The message as given, gone, or cut so that no longer prefix of it would fit beside the rest.\<close>

definition longest_message :: "(rat \<Rightarrow> string) \<Rightarrow> int \<Rightarrow> string \<Rightarrow> Payload \<Rightarrow> bool" where
  "longest_message fl mx m q \<longleftrightarrow>
     pl_Message q = m \<or> pl_Message q = []
     \<or> (\<exists>k. pl_Message q = cut_text m k
           \<and> (\<forall>j. k < j \<and> j \<le> int (length (utf8_chunks m)) \<longrightarrow> mx < Payload_size fl (q\<lparr>pl_Message := cut_text m j\<rparr>)))"

lemma shrinkText_longest:
  assumes "json_ok (Payload_json fl p)" "\<forall>r. ascii (fl r)"
  defines "sz \<equiv> \<lambda>s. Payload_size fl (p\<lparr>pl_Message := s\<rparr>)"
  shows "longest_message fl mx m (p\<lparr>pl_Message := fst (shrinkText m mx sz)\<rparr>)"
proof -
  let ?n = "int (length (utf8_chunks m))" and ?fits = "\<lambda>mid. sz (cut_text m mid) \<le> mx"
  obtain c where c: "\<And>s. sz s = c + int (wire_cost (json_quoted s))"
    using Payload_size_message[OF assms(1,2)] unfolding sz_def by metis
  have "?fits i" if "i \<le> j" "?fits j" for i j using cut_cost_mono[OF that(1), of m] that(2) unfolding c by linarith
  then have l: "\<not> ?fits j" if "fit_search ?fits 0 ?n (-1) < j" "0 \<le> j" "j \<le> ?n" for j
    using fit_search_largest[of 0 ?n ?fits j "-1"] that by blast
  show ?thesis
  proof (cases "fit_search ?fits 0 ?n (-1) < 0")
    case False
    then have "fst (shrinkText m mx sz) = cut_text m (fit_search ?fits 0 ?n (-1))" by (simp add: shrinkText_def Let_def)
    then show ?thesis
      using l False unfolding longest_message_def sz_def
      by (intro disjI2 exI[of _ "fit_search ?fits 0 ?n (-1)"]) (auto simp: not_le sz_def)
  qed (simp add: shrinkText_def Let_def longest_message_def)
qed

lemma message_longest:
  assumes "json_ok (Payload_json fl p)" "\<forall>r. ascii (fl r)"
  shows "longest_message fl mx (pl_Message p) (fst (Payload_fit_message fl mx p shed))"
proof (cases "pl_Message p = []")
  case True
  then show ?thesis by (simp add: Payload_fit_message_def Payload_fit_labels_def case_prod_unfold Let_def longest_message_def)
next
  case False
  let ?r = "shrinkText (pl_Message p) mx (\<lambda>s. Payload_size fl (p\<lparr>pl_Message := s\<rparr>))"
  let ?p = "p\<lparr>pl_Message := fst ?r\<rparr>"
  have "longest_message fl mx (pl_Message p) (fst (Payload_fit_labels fl mx ?p sh))" if "\<not> Payload_size fl ?p \<le> mx" for sh
  proof -
    have "fst ?r = []" using that shrinkText_fits[of "\<lambda>s. Payload_size fl (p\<lparr>pl_Message := s\<rparr>)" "pl_Message p" mx] by simp
    then show ?thesis by (simp add: Payload_fit_labels_def case_prod_unfold Let_def longest_message_def)
  qed
  then show ?thesis using False shrinkText_longest[OF assms, of mx "pl_Message p"]
    by (simp add: Payload_fit_message_def case_prod_unfold Let_def)
qed

lemma Payload_ok_labels: "json_ok (Payload_json fl (Payload_labels p ls)) = json_ok (Payload_json fl p)"
  by (simp add: Payload_json_def Payload_labels_def split: option.splits)

lemma overflow_longest:
  assumes "json_ok (Payload_json fl p)" "\<forall>r. ascii (fl r)"
  shows "longest_message fl mx (pl_Message p) (fst (Payload_fit_overflow fl mx p shed))"
proof -
  have l: "longest_message fl mx (pl_Message p) (Payload_labels p ls)"
    "longest_message fl mx (pl_Message p) (fst (Payload_fit_message fl mx (Payload_labels p ls) sh))" for ls sh
    using message_longest[of fl "Payload_labels p ls" mx sh] assms
    by (simp add: longest_message_def, simp add: Payload_ok_labels)
  then show ?thesis using message_longest[OF assms] by (simp add: Payload_fit_overflow_def case_prod_unfold Let_def)
qed

lemma FitTo_longest:
  assumes "json_ok (Payload_json fl p)" "\<forall>r. ascii (fl r)"
  shows "longest_message fl mx (pl_Message p) (fst (Payload_FitTo fl mx p))"
proof -
  have "json_ok (Payload_json fl (p\<lparr>pl_Enrichment := None\<rparr>))"
    using assms(1) by (simp add: Payload_json_def split: option.splits)
  from overflow_longest[OF this assms(2)] overflow_longest[OF assms] show ?thesis
    by (simp add: Payload_FitTo_def Let_def) (simp add: longest_message_def)
qed

subsection \<open>The names of the losses\<close>

lemma shrinkText_loss:
  "snd (shrinkText s mx sz) = (fst (shrinkText s mx sz) \<noteq> s)"
  "fst (shrinkText s mx sz) = [] \<or> (\<exists>k. fst (shrinkText s mx sz) = cut_text s k)"
  by (auto simp: shrinkText_def Let_def)

text \<open>What a stage that leaves the enrichment alone did, and that its list grew by the names of that.\<close>

definition accounted :: "Payload \<Rightarrow> string list \<Rightarrow> Payload \<times> string list \<Rightarrow> bool" where
  "accounted p shed r \<longleftrightarrow>
     gokeys (Payload_Labels (fst r)) \<and> label_prefix (Payload_Labels (fst r)) (Payload_Labels p)
     \<and> pl_Enrichment (fst r) = pl_Enrichment p
     \<and> (pl_Message (fst r) = pl_Message p \<or> pl_Message (fst r) = [] \<or> (\<exists>k. pl_Message (fst r) = cut_text (pl_Message p) k))
     \<and> set (snd r) = set shed \<union> (if pl_Message (fst r) \<noteq> pl_Message p then {''message''} else {})
         \<union> (if label_loss (Payload_Labels p) (Payload_Labels (fst r)) then {''labels''} else {})"

lemma accounted_refl: "gokeys (Payload_Labels p) \<Longrightarrow> accounted p shed (p, shed)"
  by (simp add: accounted_def)

lemma set_noted [simp]: "set (noted w b shed) = set shed \<union> (if b then {w} else {})"
  by (simp add: noted_def)

text \<open>Cutting the labels first, then whatever comes next; and cutting the message first, then the labels.\<close>

lemma accounted_labels_then:
  assumes "label_prefix ls (Payload_Labels p)"
    and "accounted (Payload_labels p ls) (noted ''labels'' (label_loss (Payload_Labels p) ls) shed) r"
  shows "accounted p shed r"
  using assms label_prefix_trans[of "Payload_Labels (fst r)" ls "Payload_Labels p"]
    label_loss_trans[of "Payload_Labels (fst r)" ls "Payload_Labels p"]
  by (auto simp: accounted_def)

lemma labels_accounted:
  assumes "gokeys (Payload_Labels p)"
  shows "accounted p shed (Payload_fit_labels fl mx p shed)"
  using shrinkLabels_loss[OF assms] accounted_refl[OF assms, of shed]
  by (auto simp: Payload_fit_labels_def case_prod_unfold Let_def accounted_def)

lemma message_accounted:
  assumes "gokeys (Payload_Labels p)"
  shows "accounted p shed (Payload_fit_message fl mx p shed)"
proof (cases "pl_Message p = []")
  case True
  then show ?thesis using labels_accounted[OF assms] by (simp add: Payload_fit_message_def)
next
  case False
  let ?r = "shrinkText (pl_Message p) mx (\<lambda>s. Payload_size fl (p\<lparr>pl_Message := s\<rparr>))"
  let ?p = "p\<lparr>pl_Message := fst ?r\<rparr>" and ?shed = "noted ''message'' (snd ?r) shed"
  have step: "accounted p shed (?p, ?shed)"
    using assms shrinkText_loss[of "pl_Message p" mx] by (auto simp: accounted_def)
  have rest: "accounted p shed (Payload_fit_labels fl mx ?p ?shed)"
  proof -
    have "pl_Message (fst (Payload_fit_labels fl mx ?p ?shed)) = fst ?r"
      by (simp add: Payload_fit_labels_def case_prod_unfold Let_def)
    then show ?thesis
      using step labels_accounted[of ?p ?shed fl mx] assms by (simp add: accounted_def)
  qed
  show ?thesis using False step rest by (simp add: Payload_fit_message_def case_prod_unfold Let_def)
qed

lemma overflow_accounted:
  assumes "gokeys (Payload_Labels p)"
  shows "accounted p shed (Payload_fit_overflow fl mx p shed)"
proof (cases "Payload_Labels p \<noteq> [] \<and> mx < Payload_size fl (short_message p)")
  case False
  then show ?thesis using message_accounted[OF assms] by (auto simp: Payload_fit_overflow_def)
next
  case True
  let ?r = "shrinkLabels (Payload_Labels p) mx (\<lambda>m. Payload_size fl (short_message (Payload_labels p m)))"
  let ?p = "Payload_labels p (fst ?r)" and ?shed = "noted ''labels'' (label_loss (Payload_Labels p) (fst ?r)) shed"
  have g: "gokeys (Payload_Labels ?p)" using shrinkLabels_loss(1)[OF assms] by simp
  have "accounted ?p ?shed (if Payload_size fl ?p \<le> mx then (?p, ?shed) else Payload_fit_message fl mx ?p ?shed)"
    by (cases "Payload_size fl ?p \<le> mx") (simp_all only: if_True if_False accounted_refl[OF g] message_accounted[OF g])
  note step = accounted_labels_then[OF shrinkLabels_loss(2)[OF assms] this]
  have "Payload_fit_overflow fl mx p shed =
    (if Payload_size fl ?p \<le> mx then (?p, ?shed) else Payload_fit_message fl mx ?p ?shed)"
    using True by (simp add: Payload_fit_overflow_def case_prod_unfold Let_def shrinkLabels_loss(3)[OF assms])
  then show ?thesis using step by simp
qed

text \<open>
  C12: The list of shed fields tells the truth. Of the labels an incident keeps those with the least
  keys, with their values; its message is the one given, empty, or a prefix of its runes under the
  truncation marker; its enrichment is the one given or gone. Each of the three names is in the list
  exactly if that field lost something, and the list holds no other name. The message loses no more
  than it must: if the incident marshals and numbers are written in ASCII, a message that was cut is
  cut at the last rune that fits, every longer prefix puts the incident that is sent over the ceiling.
\<close>

theorem shed_names_losses:
  assumes "gokeys (cx_Labels (pl_Context p))"
  shows "case Payload_FitTo fl maxBytes p of (q, shed) \<Rightarrow>
     label_prefix (cx_Labels (pl_Context q)) (cx_Labels (pl_Context p))
     \<and> (pl_Message q = pl_Message p \<or> pl_Message q = [] \<or> (\<exists>k. pl_Message q = cut_text (pl_Message p) k))
     \<and> (pl_Enrichment q = pl_Enrichment p \<or> pl_Enrichment q = None)
     \<and> (''enrichment'' \<in> set shed \<longleftrightarrow> pl_Enrichment q \<noteq> pl_Enrichment p)
     \<and> (''message'' \<in> set shed \<longleftrightarrow> pl_Message q \<noteq> pl_Message p)
     \<and> (''labels'' \<in> set shed \<longleftrightarrow> label_loss (cx_Labels (pl_Context p)) (cx_Labels (pl_Context q)))
     \<and> set shed \<subseteq> {''enrichment'', ''message'', ''labels''}
     \<and> (json_ok (Payload_json fl p) \<and> (\<forall>r. ascii (fl r)) \<longrightarrow> longest_message fl maxBytes (pl_Message p) q)"
proof (cases "Payload_FitTo fl maxBytes p")
  case (Pair q shed)
  note fitted = Pair
  have l: "json_ok (Payload_json fl p) \<and> (\<forall>r. ascii (fl r)) \<longrightarrow> longest_message fl maxBytes (pl_Message p) q"
    using FitTo_longest[of fl p maxBytes] fitted by simp
  let ?p = "p\<lparr>pl_Enrichment := None\<rparr>"
  have a: "accounted p [] (Payload_fit_overflow fl maxBytes p [])"
    and b: "accounted ?p [''enrichment''] (Payload_fit_overflow fl maxBytes ?p [''enrichment''])"
    using assms overflow_accounted by simp_all
  show ?thesis
  proof (cases "Payload_size fl p \<le> maxBytes")
    case True
    then have "q = p" "shed = []" using fitted by (simp_all add: Payload_FitTo_def)
    then show ?thesis using fitted l by simp
  next
    case False
    show ?thesis
    proof (cases "pl_Enrichment p = None")
      case True
      then have "Payload_fit_overflow fl maxBytes p [] = (q, shed)" using False fitted by (simp add: Payload_FitTo_def)
      then show ?thesis using fitted a l unfolding accounted_def by simp
    next
      case some: False
      then have e: "(if Payload_size fl ?p \<le> maxBytes then (?p, [''enrichment'']) else Payload_fit_overflow fl maxBytes ?p [''enrichment'']) = (q, shed)"
        using False fitted by (simp add: Payload_FitTo_def Let_def)
      have "accounted ?p [''enrichment''] (q, shed)"
        using b accounted_refl[of ?p "[''enrichment'']"] assms unfolding e[symmetric]
        by (cases "Payload_size fl ?p \<le> maxBytes") (simp_all only: if_True if_False, simp)
      then have c: "label_prefix (Payload_Labels q) (Payload_Labels p)" "pl_Enrichment q = None"
        "pl_Message q = pl_Message p \<or> pl_Message q = [] \<or> (\<exists>k. pl_Message q = cut_text (pl_Message p) k)"
        "set shed = {''enrichment''} \<union> (if pl_Message q \<noteq> pl_Message p then {''message''} else {})
           \<union> (if label_loss (Payload_Labels p) (Payload_Labels q) then {''labels''} else {})"
        unfolding accounted_def by simp_all
      show ?thesis using fitted some some[symmetric] c l by simp
    qed
  qed
qed


definition sample_incident :: Payload where
  "sample_incident =
     \<lparr>pl_Kind = ''k8s-event'', pl_Reason = ''BackOff'', pl_Namespace = ''prod'', pl_KindOfObject = ''Pod'', pl_Name = ''web-0'',
      pl_Container = [], pl_UID = ''u1'', pl_Message = replicate 900 (CHR ''x''), pl_Count = 3, pl_FirstSeen = 0,
      pl_LastSeen = 0, pl_Cluster = ''c1'', pl_Project = [], pl_Region = [], pl_Zone = [], pl_PullCause = [],
      pl_Source = [], pl_Severity = [], pl_Fingerprint = [],
      pl_Context = \<lparr>cx_ControllerRef = ''rs/web'', cx_Node = ''n1'', cx_Labels = [(''tier'', ''front''), (''app'', ''web'')]\<rparr>,
      pl_Type = ''Warning'', pl_Enrichment = Some \<lparr>en_Bundle = ''section=spec''\<rparr>, pl_Forecast = None,
      pl_QuotaIncreaseDraft = None, pl_ReasonClass = ''CrashLoopBackOff'', pl_RepeatCount = 0\<rparr>"

text \<open>At the smallest ceiling the flag allows, whatever the fit of this incident sheds is what it names.\<close>

theorem shed_names_losses_witness:
  "gokeys (cx_Labels (pl_Context sample_incident)) \<and>
   (case Payload_FitTo (\<lambda>_. ''0'') 1024 sample_incident of (q, shed) \<Rightarrow>
      (''message'' \<in> set shed \<longleftrightarrow> pl_Message q \<noteq> pl_Message sample_incident)
      \<and> (''labels'' \<in> set shed \<longleftrightarrow> label_loss [(''tier'', ''front''), (''app'', ''web'')] (cx_Labels (pl_Context q)))
      \<and> longest_message (\<lambda>_. ''0'') 1024 (pl_Message sample_incident) q)"
proof -
  have g: "gokeys (cx_Labels (pl_Context sample_incident))" by (simp add: sample_incident_def)
  have "json_time 0 \<noteq> None" by code_simp
  then have "json_ok (Payload_json (\<lambda>_. ''0'') sample_incident)" by (simp add: Payload_json_def sample_incident_def)
  moreover have "\<forall>r. ascii ((\<lambda>_. ''0'') (r :: rat))" by simp
  moreover have "cx_Labels (pl_Context sample_incident) = [(''tier'', ''front''), (''app'', ''web'')]"
    by (simp add: sample_incident_def)
  ultimately show ?thesis
    using g shed_names_losses[OF g, of "\<lambda>_. ''0''" 1024] by (auto split: prod.splits)
qed

end
