(* ===== verification/Spec2Isabelle.thy ===== *)
theory Spec2Isabelle
  imports EventFilter IncidentLoop FindingUid StormEnd ScoreLaws Alert FindingsLaws PostureLaws Cron FitCuts
begin

section \<open>k8s-lookout: the watch engine, the topology judge and the finding pipeline\<close>

text \<open>
  k8s-lookout watches a Kubernetes cluster, decides which of the things it sees are incidents,
  hands each incident to one agent session, and reports findings as a stream of lines. The
  development follows four of its parts and the way they meet.

  \<^bold>\<open>The engine\<close> (\<^verbatim>\<open>src/pkg/engine\<close>). A signal is filtered (\<open>EventFilter\<close>, \<^verbatim>\<open>filter.go\<close>), with image-pull
  failures classified first (\<open>PullFailure\<close>, \<^verbatim>\<open>pullfailure.go\<close>); its fingerprint and route are pure
  functions of it (\<open>Signal\<close>, with SHA-256 written out in \<open>Sha256\<close>). The dedup cache (\<open>Dedup\<close>,
  \<^verbatim>\<open>dedup.go\<close>) decides whether it opens an incident, repeats one or is suppressed, by the schedule
  of \<open>Repeat\<close> (\<^verbatim>\<open>repeat.go\<close>). The recovery tracker (\<open>RecoveryWatch\<close>, \<^verbatim>\<open>recovery.go\<close>) announces recoveries,
  and the storm correlator (\<open>Storm\<close>, \<^verbatim>\<open>storm.go\<close>, \<^verbatim>\<open>mined.go\<close>, \<^verbatim>\<open>external.go\<close>) groups incidents with a
  common cause. \<open>DedupBounds\<close>, \<open>DedupHistory\<close> and \<open>DedupJoins\<close> hold the laws of the cache over
  histories of operations: its bound, that a replayed Event never reopens an incident, that an
  open incident keeps its session, and how families join and siblings fold. \<open>StormLaws\<close>,
  \<open>StormHistory\<close>, \<open>StormBurst\<close> and \<open>StormEnd\<close> hold those of the correlator: the books balance after
  any history, a burst is one storm, a storm ends with its last member. \<open>IncidentLoop\<close> puts cache
  and tracker together the way \<^verbatim>\<open>internal/watch/wiring.go\<close> does and shows that an incident stays with
  one session until its recovery was announced. The tracker's machine is the inductive \<open>phase_step\<close>,
  of which a tick takes exactly the one step it has, apart from a resolved incident nobody judges.

  \<^bold>\<open>The topology judge\<close> (\<^verbatim>\<open>src/pkg/leeway\<close>). Where a workload's objects are is counted by deltas
  (\<open>Distribution\<close>, \<^verbatim>\<open>topology.go\<close>, \<^verbatim>\<open>placement.go\<close>); what its owner asked for is resolved from several
  sources (\<open>Intent\<close>, \<open>IntentLaws\<close>, \<^verbatim>\<open>intent.go\<close>, \<^verbatim>\<open>parse.go\<close>); which domains could hold it comes from the
  nodes (\<open>Eligible\<close>, \<open>EligibleLaws\<close>, \<^verbatim>\<open>eligible.go\<close>); how many each should hold is an apportionment
  (\<open>Apportion\<close>, \<open>ApportionLaws\<close>, \<^verbatim>\<open>apportion.go\<close>); how far it is from that is scored and judged (\<open>Score\<close>,
  \<open>ScoreLaws\<close>, \<^verbatim>\<open>score.go\<close>, \<^verbatim>\<open>tier.go\<close>, \<^verbatim>\<open>transient.go\<close> and \<^verbatim>\<open>src/pkg/sources/topologydrift/score.go\<close>); and a
  breach speaks only after a dwell (\<open>Alert\<close>, \<^verbatim>\<open>alert.go\<close>, \<^verbatim>\<open>reconcile.go\<close>). \<open>FindingUid\<close> has the identities
  the judge's sources mint for the engine, and what a restart of the cache does to them.

  \<^bold>\<open>The inject sink\<close> (\<^verbatim>\<open>src/pkg/inject\<close>). What the engine decides is sent to the agent daemon as a payload
  under a size ceiling. \<open>Wire\<close> has the part of \<^verbatim>\<open>unicode/utf8\<close>, \<^verbatim>\<open>time\<close> and \<^verbatim>\<open>encoding/json\<close> a payload is
  measured with, for texts of any bytes, and that lengths add up; \<open>Payloads\<close> has the wire structs of
  \<^verbatim>\<open>payload.go\<close> with their JSON; \<open>Fit\<close> has \<^verbatim>\<open>fit.go\<close> and the inject request of \<^verbatim>\<open>injector.go\<close>, with HTTP as an
  argument. \<open>FitLaws\<close> shows once, for the nine payload types, that a fitted payload is within the
  ceiling whenever its identity is, keeps its identity and is not fitted further, so that an inject
  arrives; \<open>FitCuts\<close> shows what an incident loses and that the list of shed fields says so.

  \<^bold>\<open>The finding pipeline\<close> (\<^verbatim>\<open>src/pkg/emit\<close>, \<^verbatim>\<open>src/pkg/findings\<close>). A check hands findings to a writer (\<open>Emit\<close>,
  \<^verbatim>\<open>finding.go\<close>, \<^verbatim>\<open>writer.go\<close>, \<^verbatim>\<open>findings_format.go\<close>) in one of three formats; logfmt is in \<open>Logfmt\<close>, with the
  quoting of \<^verbatim>\<open>strconv\<close>, and reading JSON in \<open>Json\<close>. A later run reads the report back and compares
  it with the rows of the previous run (\<open>FindingsDiff\<close>, \<^verbatim>\<open>report.go\<close>, \<^verbatim>\<open>subject.go\<close>, \<^verbatim>\<open>normalize.go\<close>,
  \<^verbatim>\<open>diff.go\<close>). \<open>EmitLaws\<close> accounts for every finding a writer was given, \<open>ReportLaws\<close> composes writer and
  reader, and \<open>FindingsLaws\<close> shows the comparison to be a small machine per subject. Which findings a
  run reports, and which of them an owner has declared intentional, is decided by a posture policy
  and a set of exemptions (\<open>Posture\<close>, \<^verbatim>\<open>src/pkg/policy\<close>, \<^verbatim>\<open>src/pkg/exempt\<close>); \<open>PostureLaws\<close> reads the layers of a
  policy as a first match and follows a stream through policy, exemptions and writer. \<open>Cron\<close>
  (\<^verbatim>\<open>src/pkg/cronsched\<close>) counts the activations a CronJob missed.

  \<^bold>\<open>Interfaces.\<close> What several operations share is a locale, interpreted on the model's definitions:
  \<open>preference\<close> (a scan for the best entry does not depend on the order) and \<open>bounded_store\<close> in
  \<open>Prelude\<close>, \<open>entry_pass\<close> in \<open>DedupHistory\<close>, \<open>line_format\<close> in \<open>ReportLaws\<close> for logfmt and JSON, \<open>uid_codec\<close> in
  \<open>FindingUid\<close> for the two identity schemes, \<open>ladder\<close> in \<open>FitLaws\<close> for the payload types.

  \<^bold>\<open>Conventions.\<close> \<open>Prelude\<close> has what the theories share. A Go map is an association list with distinct
  keys (\<open>gget\<close>, \<open>gput\<close>, \<open>gdel\<close>); where the code ranges over a map, the theorem holds for every order or
  says that it does not. A time is an \<open>int\<close> of nanoseconds with 0 for the zero time, a \<open>Duration\<close> is
  bounded to 64 bits by \<open>time_Sub\<close> and \<open>wrap64\<close> where the code can reach the bound; a Go \<open>int\<close> is an \<open>int\<close>
  where no operation of the code can overflow it. A string is its bytes; letters change case and
  space is trimmed in ASCII only. A finite \<open>float64\<close> is a rational: rounding is not modelled, in particular not in
  the quotas of the apportionment. The cron library's next activation is a parameter of which the
  documented behaviour is assumed; the library gives up after five years without one. The
  clock, the Kubernetes observers, the topology resolver, the output stream and the interfaces a
  writer holds are arguments or record fields. Locks are not modelled: every exported method holds
  its mutex for its whole body, so a history of calls is a sequence of operations.

  \<^bold>\<open>Loops and fuel.\<close> Loops over lists are structural; the doubling loops, the water filling, the
  binary search of the fit and the parsers have a measure. The only fuel is in \<open>json_skip\<close> and \<open>json_object\<close>, bounded by the length
  of the text, of which each call consumes at least one byte; \<open>parse_members\<close> shows that it is
  enough for everything the writer produces.

  \<^bold>\<open>Not modelled.\<close> The informer-driven sources, the one-shot checks, the clients of Kubernetes, cloud and
  agent APIs, the SQL store, the MCP server, flag parsing and process wiring are I/O around these
  parts or use types of packages outside the repository. Of \<^verbatim>\<open>pkg/emit\<close>, secret masking is left out: it
  is regular expressions and an entropy over floats; a writer's sanitizer is therefore arbitrary in
  every theorem. Of \<^verbatim>\<open>pkg/inject\<close>, creating a session and the webhook sink are left out; how a float is
  written in JSON is an argument. Of \<^verbatim>\<open>pkg/leeway\<close>, baselines, causes and ranking are left out.
\<close>

end
